(* ===== verification/Prelude.thy ===== *)
theory Prelude
  imports Main "HOL-Library.AList"
begin

text \<open>
  What the components share: the Go values that have no counterpart of their own in HOL
  (errors, times, maps), the lemma collections the component proofs draw on, and generic
  facts about association lists and list searches.

  A Go map is an association list with distinct keys. The order of the list stands for
  the order a \<open>range\<close> over the map would take, which Go leaves open: theorems
  quantify over the list, so they hold for every order. A Go \<open>map[K]struct{}\<close> used as
  a set is a list without duplicates.
\<close>

section \<open>Errors and times\<close>

text \<open>
  A Go error: a message, a message wrapped around a cause (\<open>fmt.Errorf\<close> with
  \<open>%w\<close>), or a message listing several errors. The nil error is the absence of one, so
  a function that returns only an error returns \<open>gerror option\<close>.
\<close>

datatype gerror = Errorf string | Wrapf string gerror | Errs "gerror list"

text \<open>
  \<open>time.Time\<close> as nanoseconds since January 1, year 1, 00:00 UTC, the instant of Go's
  zero time; \<open>time.Unix(0, ns)\<close> counts from the Unix epoch. Durations are
  nanoseconds as well.
\<close>

type_synonym gtime = int
type_synonym duration = int

definition unixEpoch :: gtime where
  "unixEpoch = 62135596800 * 1000000000"

definition time_Unix :: "int \<Rightarrow> int \<Rightarrow> gtime" where
  "time_Unix sec nsec = unixEpoch + sec * 1000000000 + nsec"

definition IsZero :: "gtime \<Rightarrow> bool" where
  "IsZero t \<longleftrightarrow> t = 0"

definition After :: "gtime \<Rightarrow> gtime \<Rightarrow> bool" where
  "After t u \<longleftrightarrow> u < t"

definition second :: duration where "second = 1000000000"
definition millisecond :: duration where "millisecond = 1000000"
definition minute :: duration where "minute = 60 * second"

named_theorems time_defs \<open>definitions that turn time comparisons into integer ones\<close>

declare IsZero_def [time_defs] After_def [time_defs] time_Unix_def [time_defs]

section \<open>Go maps\<close>

type_synonym ('k, 'v) gomap = "('k \<times> 'v) list"

abbreviation mget :: "('k, 'v) gomap \<Rightarrow> 'k \<Rightarrow> 'v option" where
  "mget m k \<equiv> map_of m k"

abbreviation mput :: "'k \<Rightarrow> 'v \<Rightarrow> ('k, 'v) gomap \<Rightarrow> ('k, 'v) gomap" where
  "mput k v m \<equiv> AList.update k v m"

abbreviation mdel :: "'k \<Rightarrow> ('k, 'v) gomap \<Rightarrow> ('k, 'v) gomap" where
  "mdel k m \<equiv> AList.delete k m"

text \<open>Reading a key that is not in the map yields the value type's zero value.\<close>

definition mgetd :: "'v \<Rightarrow> ('k, 'v) gomap \<Rightarrow> 'k \<Rightarrow> 'v" where
  "mgetd z m k = (case mget m k of None \<Rightarrow> z | Some v \<Rightarrow> v)"

definition mkeys_ok :: "('k, 'v) gomap \<Rightarrow> bool" where
  "mkeys_ok m \<longleftrightarrow> distinct (map fst m)"

named_theorems gomap_simps \<open>lookups after updates and deletions, and key distinctness\<close>

lemma mget_mput [gomap_simps]: "mget (mput k v m) k' = (if k' = k then Some v else mget m k')"
  by (simp add: AList.update_conv')

lemma mget_mdel [gomap_simps]: "mget (mdel k m) k' = (if k' = k then None else mget m k')"
  by (simp add: AList.delete_conv')

lemma mkeys_ok_Nil [simp]: "mkeys_ok []"
  by (simp add: mkeys_ok_def)

lemma mkeys_ok_mput [simp]: "mkeys_ok m \<Longrightarrow> mkeys_ok (mput k v m)"
  by (simp add: mkeys_ok_def AList.distinct_update)

lemma mkeys_ok_mdel [simp]: "mkeys_ok m \<Longrightarrow> mkeys_ok (mdel k m)"
  by (simp add: mkeys_ok_def AList.distinct_delete)

lemma mget_iff_mem: "mkeys_ok m \<Longrightarrow> mget m k = Some v \<longleftrightarrow> (k, v) \<in> set m"
  by (simp add: mkeys_ok_def)

lemma mgetd_mput [gomap_simps]: "mgetd z (mput k v m) k' = (if k' = k then v else mgetd z m k')"
  by (simp add: mgetd_def mget_mput)

lemma mgetd_mdel [gomap_simps]: "mgetd z (mdel k m) k' = (if k' = k then z else mgetd z m k')"
  by (simp add: mgetd_def mget_mdel)

lemma mgetd_Nil [simp]: "mgetd z [] k = z"
  by (simp add: mgetd_def)

lemma mput_id: "mget m k = Some v \<Longrightarrow> mput k v m = m"
  by (rule AList.update_triv)

text \<open>Rewriting every value of a map keeps its keys.\<close>

lemma map_values_keys: "map fst (map (\<lambda>(k, v). (k, f k v)) m) = map fst m"
  by (induction m) auto

lemma mkeys_ok_map_values [simp]: "mkeys_ok (map (\<lambda>(k, v). (k, f k v)) m) = mkeys_ok m"
  by (simp only: mkeys_ok_def map_values_keys)

lemma mget_map_values: "mget (map (\<lambda>(k, v). (k, f k v)) m) k = map_option (f k) (mget m k)"
  by (induction m) auto

section \<open>Lists\<close>

lemma concat_map_filter_empty:
  "(\<And>x. x \<in> set xs \<Longrightarrow> f x = []) \<Longrightarrow> concat (map f xs) = []"
  by (induction xs) auto

end
