(* ===== verification/State_Store.thy ===== *)
theory State_Store
  imports Prelude
begin

text \<open>
  The VM placement store, \<open>internal/state/store.go\<close>: for each VMID the status this
  node believes the VM has, with the times used to order lifecycle events against
  snapshots. The mutex is not modelled: every exported method holds it for its whole
  body, so each method is one atomic step here.

  A record found in the map is changed in place by the code; here the changed record is
  put back under its key, which keeps its position in the map.
\<close>

section \<open>The store and its operations\<close>

datatype Status = StatusAbsent | StatusStaged | StatusActive

fun Status_String :: "Status \<Rightarrow> string" where
  "Status_String StatusActive = ''active''"
| "Status_String StatusStaged = ''staged''"
| "Status_String StatusAbsent = ''absent''"

record VMState =
  VMID :: int
  Name :: string
  Status :: Status
  LastEventTime :: gtime
  ObservedAtNs :: int
  StagedAt :: gtime

record Store =
  vms :: "(int, VMState) gomap"

definition New_Store :: Store where
  "New_Store = \<lparr>vms = []\<rparr>"

definition store_set :: "int \<Rightarrow> string \<Rightarrow> Status \<Rightarrow> gtime \<Rightarrow> int \<Rightarrow> Store \<Rightarrow> Store" where
  "store_set vmid name status t observedAtNs s =
     (case mget (vms s) vmid of
        Some existing \<Rightarrow>
          if \<not> IsZero t \<and> After (LastEventTime existing) t
             \<and> \<not> (observedAtNs = 0 \<and> 0 < ObservedAtNs existing)
          then s
          else
            (let e1 = existing\<lparr>Status := status, LastEventTime := t,
                               ObservedAtNs := observedAtNs\<rparr>;
                 e2 = (if status \<noteq> StatusStaged then e1\<lparr>StagedAt := 0\<rparr> else e1);
                 e3 = (if name \<noteq> [] then e2\<lparr>Name := name\<rparr> else e2)
             in s\<lparr>vms := mput vmid e3 (vms s)\<rparr>)
      | None \<Rightarrow>
          s\<lparr>vms := mput vmid
             \<lparr>VMID = vmid, Name = name, Status = status, LastEventTime = t,
              ObservedAtNs = observedAtNs, StagedAt = 0\<rparr> (vms s)\<rparr>)"

definition SetActive :: "int \<Rightarrow> string \<Rightarrow> gtime \<Rightarrow> Store \<Rightarrow> Store" where
  "SetActive vmid name t s = store_set vmid name StatusActive t 0 s"

definition SetStaged :: "int \<Rightarrow> string \<Rightarrow> gtime \<Rightarrow> Store \<Rightarrow> Store" where
  "SetStaged vmid name t s =
     (let s' = store_set vmid name StatusStaged t 0 s
      in case mget (vms s') vmid of
           Some vm \<Rightarrow>
             if Status vm = StatusStaged
             then s'\<lparr>vms := mput vmid (vm\<lparr>StagedAt := t\<rparr>) (vms s')\<rparr>
             else s'
         | None \<Rightarrow> s')"

definition SetAbsent :: "int \<Rightarrow> gtime \<Rightarrow> Store \<Rightarrow> Store" where
  "SetAbsent vmid t s = store_set vmid [] StatusAbsent t 0 s"

definition UpdateFromSnapshot ::
  "int \<Rightarrow> string \<Rightarrow> bool \<Rightarrow> int \<Rightarrow> Store \<Rightarrow> Store" where
  "UpdateFromSnapshot vmid name running observedAtNs s =
     (let continue = store_set vmid name (if running then StatusActive else StatusAbsent)
                       (time_Unix 0 observedAtNs) observedAtNs s
      in case mget (vms s) vmid of
           None \<Rightarrow> continue
         | Some existing \<Rightarrow>
             if observedAtNs < ObservedAtNs existing then s
             else if Status existing = StatusStaged \<and> \<not> running then
               (let e1 = existing\<lparr>ObservedAtNs := observedAtNs\<rparr>;
                    e2 = (if name \<noteq> [] then e1\<lparr>Name := name\<rparr> else e1)
                in s\<lparr>vms := mput vmid e2 (vms s)\<rparr>)
             else continue)"

definition staged_expired :: "gtime \<Rightarrow> VMState \<Rightarrow> bool" where
  "staged_expired cutoff vm \<longleftrightarrow>
     Status vm = StatusStaged \<and> \<not> (IsZero (StagedAt vm) \<or> After (StagedAt vm) cutoff)"

definition ExpireStaged :: "gtime \<Rightarrow> Store \<Rightarrow> int list \<times> Store" where
  "ExpireStaged cutoff s =
     (sort (map fst (filter (\<lambda>(_, vm). staged_expired cutoff vm) (vms s))),
      s\<lparr>vms := map (\<lambda>(k, vm). (k, if staged_expired cutoff vm
                                   then vm\<lparr>Status := StatusAbsent, StagedAt := 0\<rparr>
                                   else vm)) (vms s)\<rparr>)"

definition GetActive :: "Store \<Rightarrow> VMState list" where
  "GetActive s = filter (\<lambda>vm. Status vm = StatusActive) (map snd (vms s))"

definition GetStaged :: "Store \<Rightarrow> VMState list" where
  "GetStaged s = filter (\<lambda>vm. Status vm = StatusStaged) (map snd (vms s))"

definition Get :: "int \<Rightarrow> Store \<Rightarrow> VMState option" where
  "Get vmid s = mget (vms s) vmid"


section \<open>Runs of operations\<close>

text \<open>
  The operations the rest of the program performs on the store, as values, so that
  properties can speak of any sequence of them.
\<close>

datatype store_op =
    OpActive int string gtime
  | OpStaged int string gtime
  | OpAbsent int gtime
  | OpSnapshot int string bool int
  | OpExpire gtime

fun store_step :: "store_op \<Rightarrow> Store \<Rightarrow> Store" where
  "store_step (OpActive v n t) s = SetActive v n t s"
| "store_step (OpStaged v n t) s = SetStaged v n t s"
| "store_step (OpAbsent v t) s = SetAbsent v t s"
| "store_step (OpSnapshot v n running obs) s = UpdateFromSnapshot v n running obs s"
| "store_step (OpExpire cutoff) s = snd (ExpireStaged cutoff s)"

fun store_run :: "store_op list \<Rightarrow> Store \<Rightarrow> Store" where
  "store_run [] s = s"
| "store_run (op # ops) s = store_run ops (store_step op s)"

section \<open>The store's invariant\<close>

text \<open>
  Keys are distinct, each record carries its own key, and \<open>StagedAt\<close> is zero unless
  the VM is staged.
\<close>

definition vm_ok :: "int \<Rightarrow> VMState \<Rightarrow> bool" where
  "vm_ok k vm \<longleftrightarrow> VMID vm = k \<and> (StagedAt vm \<noteq> 0 \<longrightarrow> Status vm = StatusStaged)"

definition store_wf :: "Store \<Rightarrow> bool" where
  "store_wf s \<longleftrightarrow> mkeys_ok (vms s) \<and> (\<forall>k vm. mget (vms s) k = Some vm \<longrightarrow> vm_ok k vm)"

lemma store_wfI:
  "mkeys_ok (vms s) \<Longrightarrow> (\<And>k vm. mget (vms s) k = Some vm \<Longrightarrow> vm_ok k vm) \<Longrightarrow> store_wf s"
  by (simp add: store_wf_def)

lemma store_wf_keys: "store_wf s \<Longrightarrow> mkeys_ok (vms s)"
  by (simp add: store_wf_def)

lemma store_wf_vm: "store_wf s \<Longrightarrow> mget (vms s) k = Some vm \<Longrightarrow> vm_ok k vm"
  by (simp add: store_wf_def)

lemma store_wf_New: "store_wf New_Store"
  by (simp add: store_wf_def New_Store_def)

text \<open>Putting a record that satisfies \<open>vm_ok\<close> under its key keeps the invariant.\<close>

lemma store_wf_put:
  "store_wf s \<Longrightarrow> vm_ok k vm \<Longrightarrow> store_wf (s\<lparr>vms := mput k vm (vms s)\<rparr>)"
  by (auto simp: store_wf_def mget_mput)

lemma store_wf_store_set: "store_wf s \<Longrightarrow> store_wf (store_set v n st t obs s)"
  by (auto simp: store_set_def Let_def vm_ok_def split: option.splits
      intro!: store_wf_put dest: store_wf_vm)

lemma store_wf_SetStaged: "store_wf s \<Longrightarrow> store_wf (SetStaged v n t s)"
  using store_wf_store_set [of s v n StatusStaged t 0]
  by (auto simp: SetStaged_def Let_def vm_ok_def split: option.splits
      intro!: store_wf_put dest: store_wf_vm)

lemma store_wf_UpdateFromSnapshot: "store_wf s \<Longrightarrow> store_wf (UpdateFromSnapshot v n r obs s)"
  by (auto simp: UpdateFromSnapshot_def Let_def vm_ok_def split: option.splits
      intro!: store_wf_put store_wf_store_set dest: store_wf_vm)

lemma mget_ExpireStaged:
  "mget (vms (snd (ExpireStaged cutoff s))) k =
     map_option (\<lambda>vm. if staged_expired cutoff vm
                      then vm\<lparr>Status := StatusAbsent, StagedAt := 0\<rparr> else vm)
       (mget (vms s) k)"
  by (simp add: ExpireStaged_def mget_map_values)

lemma store_wf_ExpireStaged: "store_wf s \<Longrightarrow> store_wf (snd (ExpireStaged cutoff s))"
proof (rule store_wfI)
  assume wf: "store_wf s"
  then show "mkeys_ok (vms (snd (ExpireStaged cutoff s)))"
    by (simp add: ExpireStaged_def store_wf_keys)
  show "vm_ok k vm" if "mget (vms (snd (ExpireStaged cutoff s))) k = Some vm" for k vm
    using that wf by (auto simp: mget_ExpireStaged vm_ok_def dest: store_wf_vm split: if_splits)
qed

lemma store_wf_step: "store_wf s \<Longrightarrow> store_wf (store_step op s)"
  by (cases op)
    (simp_all add: SetActive_def SetAbsent_def store_wf_store_set store_wf_SetStaged
      store_wf_UpdateFromSnapshot store_wf_ExpireStaged)

lemma store_wf_run: "store_wf s \<Longrightarrow> store_wf (store_run ops s)"
  by (induction ops arbitrary: s) (auto intro: store_wf_step)

section \<open>What each operation does to a record\<close>

named_theorems store_simps \<open>effect of the store operations on lookups\<close>

lemma mget_store_set_other [store_simps]:
  "k \<noteq> v \<Longrightarrow> mget (vms (store_set v n st t obs s)) k = mget (vms s) k"
  by (simp add: store_set_def Let_def mget_mput split: option.splits)

lemma mget_SetActive_other [store_simps]:
  "k \<noteq> v \<Longrightarrow> mget (vms (SetActive v n t s)) k = mget (vms s) k"
  by (simp add: SetActive_def store_simps)

lemma mget_SetAbsent_other [store_simps]:
  "k \<noteq> v \<Longrightarrow> mget (vms (SetAbsent v t s)) k = mget (vms s) k"
  by (simp add: SetAbsent_def store_simps)

lemma mget_SetStaged_other [store_simps]:
  "k \<noteq> v \<Longrightarrow> mget (vms (SetStaged v n t s)) k = mget (vms s) k"
  by (simp add: SetStaged_def Let_def mget_mput store_simps split: option.splits)

lemma mget_UpdateFromSnapshot_other [store_simps]:
  "k \<noteq> v \<Longrightarrow> mget (vms (UpdateFromSnapshot v n r obs s)) k = mget (vms s) k"
  by (simp add: UpdateFromSnapshot_def Let_def mget_mput store_simps split: option.splits)

text \<open>A lifecycle update is refused exactly when it is older than the record and the
  record does not come from a snapshot.\<close>

definition lifecycle_stale :: "VMState \<Rightarrow> gtime \<Rightarrow> bool" where
  "lifecycle_stale vm t \<longleftrightarrow> \<not> IsZero t \<and> After (LastEventTime vm) t \<and> ObservedAtNs vm \<le> 0"

lemma store_set_lifecycle_stale:
  "mget (vms s) v = Some e \<Longrightarrow> lifecycle_stale e t \<Longrightarrow> store_set v n st t 0 s = s"
  by (simp add: store_set_def lifecycle_stale_def)

lemma store_set_lifecycle_fresh:
  "(\<And>e. mget (vms s) v = Some e \<Longrightarrow> \<not> lifecycle_stale e t) \<Longrightarrow>
   \<exists>vm. mget (vms (store_set v n st t 0 s)) v = Some vm \<and> Status vm = st \<and>
        LastEventTime vm = t \<and> ObservedAtNs vm = 0"
  by (auto simp: store_set_def lifecycle_stale_def Let_def mget_mput split: option.splits)

lemma GetActive_iff:
  assumes "store_wf s"
  shows "vm \<in> set (GetActive s) \<longleftrightarrow> mget (vms s) (VMID vm) = Some vm \<and> Status vm = StatusActive"
proof
  assume "vm \<in> set (GetActive s)"
  then obtain k where k: "(k, vm) \<in> set (vms s)" and st: "Status vm = StatusActive"
    by (auto simp: GetActive_def)
  with assms have "mget (vms s) k = Some vm" by (simp add: mget_iff_mem store_wf_keys)
  with assms st show "mget (vms s) (VMID vm) = Some vm \<and> Status vm = StatusActive"
    by (auto simp: vm_ok_def dest: store_wf_vm)
next
  assume "mget (vms s) (VMID vm) = Some vm \<and> Status vm = StatusActive"
  then show "vm \<in> set (GetActive s)"
    using assms by (force simp: GetActive_def mget_iff_mem store_wf_keys)
qed

lemma VMID_map_snd:
  assumes "store_wf s"
  shows "map (\<lambda>(k, vm). VMID vm) (vms s) = map fst (vms s)"
proof -
  have "VMID vm = k" if "(k, vm) \<in> set (vms s)" for k vm
    using that assms store_wf_vm [of s k vm] by (simp add: mget_iff_mem store_wf_keys vm_ok_def)
  then show ?thesis by (auto simp: map_eq_conv)
qed

lemma distinct_map_VMID:
  assumes "store_wf s"
  shows "distinct (map VMID (map snd (vms s)))"
proof -
  have "map VMID (map snd (vms s)) = map fst (vms s)"
    using VMID_map_snd [OF assms] by (simp add: case_prod_unfold comp_def)
  then show ?thesis using store_wf_keys [OF assms] by (simp only: mkeys_ok_def)
qed

lemma distinct_GetActive: "store_wf s \<Longrightarrow> distinct (map VMID (GetActive s))"
  unfolding GetActive_def by (rule distinct_map_filter) (rule distinct_map_VMID)

lemma distinct_GetStaged: "store_wf s \<Longrightarrow> distinct (map VMID (GetStaged s))"
  unfolding GetStaged_def by (rule distinct_map_filter) (rule distinct_map_VMID)


section \<open>Properties\<close>

text \<open>
  C26: From the empty store, every sequence of lifecycle updates, snapshots and expiry
  sweeps keeps the store well formed: one record per VMID, each carrying its own VMID,
  and a non-zero \<open>StagedAt\<close> only on a staged VM.
\<close>

theorem store_always_wf: "store_wf (store_run ops New_Store)"
  by (rule store_wf_run [OF store_wf_New])

text \<open>The operations that leave the record of \<open>v\<close> alone, except for snapshots of
  \<open>v\<close> older than \<open>T\<close>.\<close>

fun older_for :: "int \<Rightarrow> gtime \<Rightarrow> store_op \<Rightarrow> bool" where
  "older_for v T (OpActive w n t) \<longleftrightarrow> w \<noteq> v"
| "older_for v T (OpStaged w n t) \<longleftrightarrow> w \<noteq> v"
| "older_for v T (OpAbsent w t) \<longleftrightarrow> w \<noteq> v"
| "older_for v T (OpSnapshot w n r obs) \<longleftrightarrow> w \<noteq> v \<or> 0 \<le> obs \<and> After T (time_Unix 0 obs)"
| "older_for v T (OpExpire cutoff) \<longleftrightarrow> False"

lemma older_snapshot_step:
  assumes "mget (vms s) v = Some e" and "0 \<le> obs" and "After (LastEventTime e) (time_Unix 0 obs)"
  shows "\<exists>e'. mget (vms (UpdateFromSnapshot v n r obs s)) v = Some e' \<and>
              Status e' = Status e \<and> LastEventTime e' = LastEventTime e"
  using assms
  by (auto simp: UpdateFromSnapshot_def store_set_def Let_def mget_mput time_defs unixEpoch_def)

lemma older_for_step:
  assumes "mget (vms s) v = Some e" and "older_for v (LastEventTime e) op"
  shows "\<exists>e'. mget (vms (store_step op s)) v = Some e' \<and>
              Status e' = Status e \<and> LastEventTime e' = LastEventTime e"
proof (cases op)
  case (OpSnapshot w n r obs)
  with assms show ?thesis
    by (cases "w = v") (auto simp: store_simps intro: older_snapshot_step)
qed (use assms in \<open>auto simp: store_simps\<close>)


definition sample_store :: Store where
  "sample_store = SetActive 101 ''web'' (time_Unix 0 50) New_Store"


text \<open>
  A lifecycle update of a known VM is refused only if it is older than a record that
  is not snapshot-derived; otherwise it takes effect completely: the status, the event
  time and a cleared observation time, and the name unless the event has none. So a
  record whose last word is a snapshot always yields to a lifecycle event, whatever
  the clocks say.
\<close>

theorem lifecycle_update_effect:
  assumes "mget (vms s) v = Some e"
  shows "mget (vms (store_set v n st t 0 s)) v =
    Some (if lifecycle_stale e t then e
          else e\<lparr>Status := st, LastEventTime := t, ObservedAtNs := 0,
                 StagedAt := (if st = StatusStaged then StagedAt e else 0),
                 Name := (if n = [] then Name e else n)\<rparr>)"
  using assms by (auto simp: store_set_def lifecycle_stale_def Let_def mget_mput)

theorem lifecycle_update_effect_witness:
  "mget (vms (store_set 101 [] StatusAbsent 5 0
      (UpdateFromSnapshot 101 ''web'' True 9 New_Store))) 101 =
   Some \<lparr>VMID = 101, Name = ''web'', Status = StatusAbsent, LastEventTime = 5,
         ObservedAtNs = 0, StagedAt = 0\<rparr>"
proof -
  let ?e = "\<lparr>VMID = 101, Name = ''web'', Status = StatusActive,
             LastEventTime = time_Unix 0 9, ObservedAtNs = 9, StagedAt = 0\<rparr>"
  have "mget (vms (UpdateFromSnapshot 101 ''web'' True 9 New_Store)) 101 = Some ?e"
    by (simp add: UpdateFromSnapshot_def New_Store_def store_set_def)
  from lifecycle_update_effect [OF this, of "[]" StatusAbsent 5] show ?thesis
    by (simp add: lifecycle_stale_def)
qed

text \<open>The operations that may not take the VM \<open>v\<close>, staged at \<open>T\<close>, out of the
  staged status.\<close>

fun keeps_staged :: "int \<Rightarrow> gtime \<Rightarrow> store_op \<Rightarrow> bool" where
  "keeps_staged v T (OpActive w n t) \<longleftrightarrow> w \<noteq> v"
| "keeps_staged v T (OpStaged w n t) \<longleftrightarrow> w \<noteq> v"
| "keeps_staged v T (OpAbsent w t) \<longleftrightarrow> w \<noteq> v"
| "keeps_staged v T (OpSnapshot w n running obs) \<longleftrightarrow> w \<noteq> v \<or> \<not> running"
| "keeps_staged v T (OpExpire cutoff) \<longleftrightarrow> After T cutoff"

lemma keeps_staged_step:
  assumes "mget (vms s) v = Some e" "Status e = StatusStaged" "keeps_staged v (StagedAt e) op"
  shows "\<exists>e'. mget (vms (store_step op s)) v = Some e' \<and>
              Status e' = StatusStaged \<and> StagedAt e' = StagedAt e"
proof (cases op)
  case (OpSnapshot w n r obs)
  show ?thesis
  proof (cases "w = v")
    case True
    with OpSnapshot assms show ?thesis
      by (auto simp: UpdateFromSnapshot_def Let_def mget_mput)
  qed (use OpSnapshot assms in \<open>simp add: store_simps\<close>)
next
  case (OpExpire cutoff)
  with assms show ?thesis by (simp add: mget_ExpireStaged staged_expired_def)
qed (use assms in \<open>auto simp: store_simps\<close>)

text \<open>
  A staged VM stays staged under any number of snapshots that report it as not
  running, under expiry sweeps whose cutoff its staging time has not reached, and under
  whatever happens to other VMs: only an event of the VM itself, a snapshot that reports
  it running, or its time to live ends the staged status.
\<close>

theorem staged_survives:
  assumes "mget (vms s) v = Some e" and "Status e = StatusStaged"
    and "\<forall>op \<in> set ops. keeps_staged v (StagedAt e) op"
  shows "\<exists>e'. mget (vms (store_run ops s)) v = Some e' \<and> Status e' = StatusStaged"
  using assms
proof (induction ops arbitrary: s e)
  case Nil
  then show ?case by simp
next
  case (Cons op ops)
  then obtain e1 where "mget (vms (store_step op s)) v = Some e1" "Status e1 = StatusStaged"
      "StagedAt e1 = StagedAt e"
    using keeps_staged_step by force
  with Cons.IH [of "store_step op s" e1] Cons.prems show ?case by simp
qed

theorem staged_survives_witness:
  "\<exists>e'. mget (vms (store_run [OpSnapshot 7 ''db'' False 99, OpExpire 10, OpSnapshot 8 [] True 5]
                    (SetStaged 7 ''db'' 20 New_Store))) 7 = Some e' \<and> Status e' = StatusStaged"
proof -
  let ?e = "\<lparr>VMID = 7, Name = ''db'', Status = StatusStaged, LastEventTime = 20,
             ObservedAtNs = 0, StagedAt = 20\<rparr>"
  have "mget (vms (SetStaged 7 ''db'' 20 New_Store)) 7 = Some ?e"
    by (simp add: SetStaged_def New_Store_def store_set_def)
  from staged_survives [OF this, of "[OpSnapshot 7 ''db'' False 99, OpExpire 10, OpSnapshot 8 [] True 5]"]
  show ?thesis by (simp add: time_defs)
qed

lemma expired_gone:
  "(k, vm) \<in> set (vms (snd (ExpireStaged cutoff s))) \<Longrightarrow> \<not> staged_expired cutoff vm"
  by (auto simp: ExpireStaged_def staged_expired_def)

text \<open>
  The expiry sweep reports, in ascending order and without repetition, exactly the
  VMs that were staged at a known time not after the cutoff; it makes exactly those
  absent, leaves every other record as it was, and a second sweep with the same cutoff
  finds nothing.
\<close>

theorem ExpireStaged_exact:
  assumes "store_wf s"
  shows "(\<forall>k. k \<in> set (fst (ExpireStaged cutoff s)) \<longleftrightarrow>
              (\<exists>vm. mget (vms s) k = Some vm \<and> Status vm = StatusStaged \<and>
                    StagedAt vm \<noteq> 0 \<and> StagedAt vm \<le> cutoff)) \<and>
         sorted (fst (ExpireStaged cutoff s)) \<and> distinct (fst (ExpireStaged cutoff s)) \<and>
         (\<forall>k. mget (vms (snd (ExpireStaged cutoff s))) k =
              (if k \<in> set (fst (ExpireStaged cutoff s))
               then map_option (\<lambda>vm. vm\<lparr>Status := StatusAbsent, StagedAt := 0\<rparr>) (mget (vms s) k)
               else mget (vms s) k)) \<and>
         fst (ExpireStaged cutoff (snd (ExpireStaged cutoff s))) = []"
proof -
  have mem: "k \<in> set (fst (ExpireStaged cutoff s)) \<longleftrightarrow>
      (\<exists>vm. mget (vms s) k = Some vm \<and> staged_expired cutoff vm)" for k
    using assms by (force simp: ExpireStaged_def mget_iff_mem store_wf_keys)
  have look: "mget (vms (snd (ExpireStaged cutoff s))) k =
      (if k \<in> set (fst (ExpireStaged cutoff s))
       then map_option (\<lambda>vm. vm\<lparr>Status := StatusAbsent, StagedAt := 0\<rparr>) (mget (vms s) k)
       else mget (vms s) k)" for k
    unfolding mget_ExpireStaged mem by (cases "mget (vms s) k") auto
  have dist: "distinct (fst (ExpireStaged cutoff s))"
    using store_wf_keys [OF assms] by (simp add: ExpireStaged_def mkeys_ok_def distinct_map_filter)
  have "filter (\<lambda>(_, vm). staged_expired cutoff vm) (vms (snd (ExpireStaged cutoff s))) = []"
    by (auto simp: filter_empty_conv dest: expired_gone)
  then have again: "fst (ExpireStaged cutoff (snd (ExpireStaged cutoff s))) = []"
    by (simp add: ExpireStaged_def [of cutoff "snd (ExpireStaged cutoff s)"])
  show ?thesis using mem look dist again by (auto simp: staged_expired_def time_defs ExpireStaged_def)
qed

theorem ExpireStaged_exact_witness:
  "store_wf (SetStaged 7 ''db'' 20 New_Store) \<and>
   fst (ExpireStaged 30 (SetStaged 7 ''db'' 20 New_Store)) = [7] \<and>
   fst (ExpireStaged 30 (snd (ExpireStaged 30 (SetStaged 7 ''db'' 20 New_Store)))) = []"
proof -
  have wf: "store_wf (SetStaged 7 ''db'' 20 New_Store)"
    by (rule store_wf_SetStaged [OF store_wf_New])
  have "fst (ExpireStaged 30 (SetStaged 7 ''db'' 20 New_Store)) = [7]"
    by (simp add: ExpireStaged_def SetStaged_def New_Store_def store_set_def staged_expired_def
        time_defs)
  then show ?thesis using wf ExpireStaged_exact [OF wf, of 30] by simp
qed

text \<open>
  A migration-start event older than the record is refused, yet it still moves the
  staging time of an already staged VM, here backwards: the refused event shortens the
  time the VM may stay staged.
\<close>

lemma stale_SetStaged_moves_StagedAt:
  "mget (vms (SetStaged 7 ''db'' 10 (SetStaged 7 ''db'' 20 New_Store))) 7 =
   Some \<lparr>VMID = 7, Name = ''db'', Status = StatusStaged, LastEventTime = 20,
         ObservedAtNs = 0, StagedAt = 10\<rparr>"
  by (simp add: SetStaged_def New_Store_def store_set_def time_defs)

text \<open>A snapshot that reports a staged VM as running does leave the staged status.\<close>

lemma running_snapshot_leaves_staged:
  "mget (vms (UpdateFromSnapshot 7 ''db'' True 30 (SetStaged 7 ''db'' 20 New_Store))) 7 =
   Some \<lparr>VMID = 7, Name = ''db'', Status = StatusActive, LastEventTime = time_Unix 0 30,
         ObservedAtNs = 30, StagedAt = 0\<rparr>"
  by (simp add: SetStaged_def UpdateFromSnapshot_def New_Store_def store_set_def time_defs
      unixEpoch_def)

end
