(* ===== verification/Net_IP.thy ===== *)
theory Net_IP
  imports Go_Strings "HOL-Library.Word" "HOL-Library.List_Lexorder"
    "HOL-Library.Product_Lexorder" "HOL-Library.Char_ord"
begin

text \<open>
  Go's \<open>net/netip\<close>: addresses, their text form and their order, as far as the program
  uses them. An IPv4 address is its four bytes, an IPv6 address its eight 16-bit groups
  with a zone (empty when it has none); \<open>InvalidAddr\<close> is the zero \<open>netip.Addr\<close>.
\<close>

section \<open>Addresses\<close>

datatype Addr =
    InvalidAddr
  | V4 "8 word" "8 word" "8 word" "8 word"
  | V6 "16 word" "16 word" "16 word" "16 word" "16 word" "16 word" "16 word" "16 word" string

fun Is4In6 :: "Addr \<Rightarrow> bool" where
  "Is4In6 (V6 a b c d e f g h z) \<longleftrightarrow> a = 0 \<and> b = 0 \<and> c = 0 \<and> d = 0 \<and> e = 0 \<and> f = 0xffff"
| "Is4In6 _ \<longleftrightarrow> False"

fun Is4 :: "Addr \<Rightarrow> bool" where
  "Is4 (V4 a b c d) \<longleftrightarrow> True"
| "Is4 _ \<longleftrightarrow> False"

fun Is6 :: "Addr \<Rightarrow> bool" where
  "Is6 (V6 a b c d e f g h z) \<longleftrightarrow> True"
| "Is6 _ \<longleftrightarrow> False"

fun Zone :: "Addr \<Rightarrow> string" where
  "Zone (V6 a b c d e f g h z) = z"
| "Zone _ = []"

fun IsLoopback :: "Addr \<Rightarrow> bool" where
  "IsLoopback InvalidAddr \<longleftrightarrow> False"
| "IsLoopback (V4 a b c d) \<longleftrightarrow> a = 127"
| "IsLoopback (V6 a b c d e f g h z) \<longleftrightarrow>
     (if Is4In6 (V6 a b c d e f g h z) then drop_bit 8 g = 127
      else a = 0 \<and> b = 0 \<and> c = 0 \<and> d = 0 \<and> e = 0 \<and> f = 0 \<and> g = 0 \<and> h = 1)"

definition groups_addr :: "16 word list \<Rightarrow> string \<Rightarrow> Addr" where
  "groups_addr ws z =
     (case ws of [a, b, c, d, e, f, g, h] \<Rightarrow> V6 a b c d e f g h z | _ \<Rightarrow> InvalidAddr)"

section \<open>Text form\<close>

definition hex_digit :: "nat \<Rightarrow> char" where
  "hex_digit d = (if d < 10 then char_of (48 + d) else char_of (87 + d))"

fun hex :: "nat \<Rightarrow> string" where
  "hex n = (if n < 16 then [hex_digit n] else hex (n div 16) @ [hex_digit (n mod 16)])"

declare hex.simps [simp del]

fun join :: "string \<Rightarrow> string list \<Rightarrow> string" where
  "join sep [] = []"
| "join sep [x] = x"
| "join sep (x # y # xs) = x @ sep @ join sep (y # xs)"

definition string4 :: "8 word \<Rightarrow> 8 word \<Rightarrow> 8 word \<Rightarrow> 8 word \<Rightarrow> string" where
  "string4 a b c d = dec (unat a) @ ''.'' @ dec (unat b) @ ''.'' @ dec (unat c) @ ''.'' @ dec (unat d)"

text \<open>The longest run of at least two zero groups, the first one of equal length: its start
  and its length, or \<open>(8, 0)\<close>.\<close>

definition zero_run :: "16 word list \<Rightarrow> nat \<times> nat" where
  "zero_run ws =
     foldl (\<lambda>(s, l) i. let l' = length (takeWhile (\<lambda>w. w = 0) (drop i ws))
                       in if 2 \<le> l' \<and> l < l' then (i, l') else (s, l))
       (8, 0) [0..<8]"

definition string6 :: "16 word list \<Rightarrow> string" where
  "string6 ws =
     (let (s, l) = zero_run ws; hx = map (\<lambda>w. hex (unat w))
      in if l = 0 then join '':'' (hx ws)
         else join '':'' (hx (take s ws)) @ ''::'' @ join '':'' (hx (drop (s + l) ws)))"

definition zone_suffix :: "string \<Rightarrow> string" where
  "zone_suffix z = (if z = [] then [] else CHR ''%'' # z)"

fun Addr_String :: "Addr \<Rightarrow> string" where
  "Addr_String InvalidAddr = ''invalid IP''"
| "Addr_String (V4 a b c d) = string4 a b c d"
| "Addr_String (V6 a b c d e f g h z) =
     (if Is4In6 (V6 a b c d e f g h z)
      then ''::ffff:'' @ string4 (ucast (drop_bit 8 g)) (ucast g) (ucast (drop_bit 8 h)) (ucast h)
           @ zone_suffix z
      else string6 [a, b, c, d, e, f, g, h] @ zone_suffix z)"

text \<open>\<open>MarshalText\<close> differs from \<open>String\<close> on the zero address only.\<close>

definition MarshalText :: "Addr \<Rightarrow> string" where
  "MarshalText a = (if a = InvalidAddr then [] else Addr_String a)"

section \<open>Parsing\<close>

text \<open>
  The dotted-decimal scanner: the value and the number of digits of the current field,
  and the fields read so far. A digit after a lone 0 is a leading zero.
\<close>

fun parseIPv4Fields :: "string \<Rightarrow> nat \<Rightarrow> nat \<Rightarrow> nat list \<Rightarrow> nat list option" where
  "parseIPv4Fields [] val digLen fields =
     (if length fields < 3 then None else Some (fields @ [val]))"
| "parseIPv4Fields (c # cs) val digLen fields =
     (if is_digit c then
        (if digLen = 1 \<and> val = 0 then None
         else let v = val * 10 + digit_val c
              in if 255 < v then None else parseIPv4Fields cs v (Suc digLen) fields)
      else if c = CHR ''.'' then
        (if digLen = 0 \<or> cs = [] then None
         else if length fields = 3 then None
         else parseIPv4Fields cs 0 0 (fields @ [val]))
      else None)"

definition parseIPv4 :: "string \<Rightarrow> Addr option" where
  "parseIPv4 s =
     (case parseIPv4Fields s 0 0 [] of
        Some [a, b, c, d] \<Rightarrow> Some (V4 (of_nat a) (of_nat b) (of_nat c) (of_nat d))
      | _ \<Rightarrow> None)"

definition is_hex :: "char \<Rightarrow> bool" where
  "is_hex c \<longleftrightarrow> (let n = (of_char c :: nat)
               in 48 \<le> n \<and> n \<le> 57 \<or> 97 \<le> n \<and> n \<le> 102 \<or> 65 \<le> n \<and> n \<le> 70)"

definition hex_val :: "char \<Rightarrow> nat" where
  "hex_val c = (let n = (of_char c :: nat)
               in if n \<le> 57 then n - 48 else if 97 \<le> n then n - 87 else n - 55)"

definition hex_vals :: "string \<Rightarrow> nat" where
  "hex_vals s = foldl (\<lambda>a c. 16 * a + hex_val c) 0 s"

text \<open>
  The group loop of \<open>parseIPv6\<close>, with as much fuel as groups may still be read; it
  returns the unread text, the groups and the position of the ellipsis.
\<close>

fun parseIPv6Groups ::
  "nat \<Rightarrow> string \<Rightarrow> 16 word list \<Rightarrow> nat option \<Rightarrow> (string \<times> 16 word list \<times> nat option) option" where
  "parseIPv6Groups 0 s fs ell = Some (s, fs, ell)"
| "parseIPv6Groups (Suc n) s fs ell =
     (let ds = takeWhile is_hex s; rest = dropWhile is_hex s; fs' = fs @ [of_nat (hex_vals ds)]
      in if 4 < length ds \<or> ds = [] then None
         else case rest of
           [] \<Rightarrow> Some ([], fs', ell)
         | c # s1 \<Rightarrow>
             if c = CHR ''.'' then
               (if ell = None \<and> length fs \<noteq> 6 then None
                else if 6 < length fs then None
                else case parseIPv4Fields s 0 0 [] of
                       Some [a, b, c, d] \<Rightarrow>
                         Some ([], fs @ [of_nat (256 * a + b), of_nat (256 * c + d)], ell)
                     | _ \<Rightarrow> None)
             else if c \<noteq> CHR '':'' then None
             else (case s1 of
                     [] \<Rightarrow> None
                   | c2 # s2 \<Rightarrow>
                       if c2 = CHR '':'' then
                         (if ell \<noteq> None then None
                          else if s2 = [] then Some ([], fs', Some (length fs'))
                          else parseIPv6Groups n s2 fs' (Some (length fs')))
                       else parseIPv6Groups n s1 fs' ell))"

definition expand_groups :: "16 word list \<Rightarrow> nat option \<Rightarrow> 16 word list option" where
  "expand_groups fs ell =
     (if length fs < 8
      then (case ell of None \<Rightarrow> None
                      | Some e \<Rightarrow> Some (take e fs @ replicate (8 - length fs) 0 @ drop e fs))
      else if ell \<noteq> None then None else Some fs)"

definition parseIPv6 :: "string \<Rightarrow> Addr option" where
  "parseIPv6 inp =
     (let s = takeWhile (\<lambda>c. c \<noteq> CHR ''%'') inp;
          z = drop (Suc (length s)) inp
      in if length s < length inp \<and> z = [] then None
         else if HasPrefix s ''::'' \<and> drop 2 s = [] then Some (groups_addr (replicate 8 0) z)
         else case (if HasPrefix s ''::'' then parseIPv6Groups 8 (drop 2 s) [] (Some 0)
                    else parseIPv6Groups 8 s [] None) of
                None \<Rightarrow> None
              | Some (rest, fs, ell) \<Rightarrow>
                  if rest \<noteq> [] then None
                  else map_option (\<lambda>ws. groups_addr ws z) (expand_groups fs ell))"

definition ParseAddr :: "string \<Rightarrow> Addr option" where
  "ParseAddr s =
     (case dropWhile (\<lambda>c. c \<noteq> CHR ''.'' \<and> c \<noteq> CHR '':'' \<and> c \<noteq> CHR ''%'') s of
        [] \<Rightarrow> None
      | c # _ \<Rightarrow> if c = CHR ''.'' then parseIPv4 s
                 else if c = CHR '':'' then parseIPv6 s else None)"

text \<open>\<open>ParsePrefix\<close> splits at the last slash; only the address of the result is used by
  the program, but the bit count decides whether the text is accepted.\<close>

definition ParsePrefix :: "string \<Rightarrow> (Addr \<times> int) option" where
  "ParsePrefix s =
     (if CHR ''/'' \<notin> set s then None
      else let bits = rev (takeWhile (\<lambda>c. c \<noteq> CHR ''/'') (rev s));
               host = take (length s - Suc (length bits)) s
           in case ParseAddr host of
                None \<Rightarrow> None
              | Some ip \<Rightarrow>
                  if Is6 ip \<and> Zone ip \<noteq> [] then None
                  else if 1 < length bits \<and> \<not> (is_digit (hd bits) \<and> hd bits \<noteq> CHR ''0'') then None
                  else case Atoi bits of
                         None \<Rightarrow> None
                       | Some n \<Rightarrow> if n < 0 \<or> (if Is6 ip then 128 else 32) < n then None
                                   else Some (ip, n))"

definition UnmarshalText :: "string \<Rightarrow> Addr option" where
  "UnmarshalText s = (if s = [] then Some InvalidAddr else ParseAddr s)"


section \<open>Order\<close>

text \<open>
  \<open>Addr.Less\<close> compares the bit length, then the address as a number, then the zone.
  Comparing the bytes (or groups) one by one, most significant first, is comparing the
  number.
\<close>

fun BitLen :: "Addr \<Rightarrow> nat" where
  "BitLen InvalidAddr = 0"
| "BitLen (V4 a b c d) = 32"
| "BitLen (V6 a b c d e f g h z) = 128"

fun addr_bytes :: "Addr \<Rightarrow> nat list" where
  "addr_bytes InvalidAddr = []"
| "addr_bytes (V4 a b c d) = [unat a, unat b, unat c, unat d]"
| "addr_bytes (V6 a b c d e f g h z) =
     [unat a, unat b, unat c, unat d, unat e, unat f, unat g, unat h]"

definition addr_key :: "Addr \<Rightarrow> nat \<times> nat list \<times> string" where
  "addr_key a = (BitLen a, addr_bytes a, Zone a)"

lemma addr_key_inj: "addr_key a = addr_key b \<Longrightarrow> a = b"
  by (cases a; cases b) (auto simp: addr_key_def word_unat_eq_iff)

instantiation Addr :: linorder
begin

definition less_eq_Addr :: "Addr \<Rightarrow> Addr \<Rightarrow> bool" where
  "less_eq_Addr a b \<longleftrightarrow> addr_key a \<le> addr_key b"

definition less_Addr :: "Addr \<Rightarrow> Addr \<Rightarrow> bool" where
  "less_Addr a b \<longleftrightarrow> addr_key a < addr_key b"

instance
  by standard (auto simp: less_eq_Addr_def less_Addr_def intro: addr_key_inj)

end

section \<open>Facts about the text form\<close>

lemma dec_1: "n < 10 \<Longrightarrow> dec n = [digit_char n]"
  by (subst dec.simps) simp

lemma dec_2: "10 \<le> n \<Longrightarrow> n < 100 \<Longrightarrow> dec n = [digit_char (n div 10), digit_char (n mod 10)]"
  by (subst dec.simps) (simp add: dec_1)

lemma dec_3:
  "100 \<le> n \<Longrightarrow> n < 1000 \<Longrightarrow>
   dec n = [digit_char (n div 100), digit_char (n div 10 mod 10), digit_char (n mod 10)]"
  by (subst dec.simps) (simp add: dec_2 div_mult2_eq [of n 10 10, simplified])

text \<open>Reading back one printed byte.\<close>

lemma parseIPv4Fields_dec:
  assumes "n < 256"
  shows "\<exists>k. 0 < k \<and> parseIPv4Fields (dec n @ cs) 0 0 fs = parseIPv4Fields cs n k fs"
proof -
  consider "n < 10" | "10 \<le> n" "n < 100" | "100 \<le> n" by linarith
  then show ?thesis
  proof cases
    case 1
    then show ?thesis by (intro exI [of _ 1]) (simp add: dec_1)
  next
    case 2
    have "n div 10 * 10 + n mod 10 = n" by simp
    moreover have "n div 10 < 10" "0 < n div 10" using 2 by auto
    ultimately show ?thesis using 2 assms
      by (intro exI [of _ 2]) (simp add: dec_2 Let_def numeral_2_eq_2)
  next
    case 3
    have "n div 100 * 10 + n div 10 mod 10 = n div 10"
      using div_mult2_eq [of n 10 10] by simp
    moreover have "n div 10 * 10 + n mod 10 = n" by simp
    moreover have "n div 100 < 10" "n div 10 < 26" "0 < n div 100" using 3 assms by auto
    ultimately show ?thesis using 3 assms
      by (intro exI [of _ 3]) (simp add: dec_3 Let_def numeral_3_eq_3)
  qed
qed

lemma not_digit_dot [simp]: "\<not> is_digit CHR ''.''"
  by (simp add: is_digit_def)

lemma unat_byte [simp]: "unat (a :: 8 word) < 256"
  using unsigned_less [of a] by simp

lemma parseIPv4Fields_string4:
  "parseIPv4Fields (string4 a b c d) 0 0 [] = Some [unat a, unat b, unat c, unat d]"
proof -
  have step: "parseIPv4Fields (dec (unat w) @ CHR ''.'' # cs) 0 0 fs =
      parseIPv4Fields cs 0 0 (fs @ [unat w])" if "length fs < 3" "cs \<noteq> []" for w :: "8 word" and cs fs
    using parseIPv4Fields_dec [of "unat w" "CHR ''.'' # cs" fs] that by auto
  have last: "parseIPv4Fields (dec (unat w)) 0 0 fs = Some (fs @ [unat w])" if "length fs = 3"
    for w :: "8 word" and fs
    using parseIPv4Fields_dec [of "unat w" "[]" fs] that by auto
  show ?thesis by (simp add: string4_def step last)
qed

lemma parseIPv4_string4: "parseIPv4 (string4 a b c d) = Some (V4 a b c d)"
  by (simp add: parseIPv4_def parseIPv4Fields_string4)

lemma is_digit_not_special: "is_digit c \<Longrightarrow> c \<noteq> CHR ''.'' \<and> c \<noteq> CHR '':'' \<and> c \<noteq> CHR ''%'' \<and> c \<noteq> CHR ''/''"
  by (auto simp: is_digit_def)

lemma ParseAddr_string4: "ParseAddr (string4 a b c d) = Some (V4 a b c d)"
proof -
  have "dropWhile (\<lambda>c. c \<noteq> CHR ''.'' \<and> c \<noteq> CHR '':'' \<and> c \<noteq> CHR ''%'') (dec n @ CHR ''.'' # r) =
      CHR ''.'' # r" for n r
    using dec_digits [of n] by (subst dropWhile_append2) (auto simp: list_all_iff dest: is_digit_not_special)
  then show ?thesis
    unfolding ParseAddr_def by (simp add: string4_def parseIPv4_string4 [unfolded string4_def, simplified])
qed

lemma Addr_String_V4_inj: "Is4 a \<Longrightarrow> Is4 b \<Longrightarrow> Addr_String a = Addr_String b \<Longrightarrow> a = b"
  by (cases a; cases b) (auto dest: arg_cong [where f = ParseAddr] simp: ParseAddr_string4)

lemma string4_nonempty: "string4 a b c d \<noteq> []"
  by (simp add: string4_def)

lemma UnmarshalText_MarshalText: "Is4 a \<Longrightarrow> UnmarshalText (MarshalText a) = Some a"
  by (cases a) (auto simp: UnmarshalText_def MarshalText_def ParseAddr_string4 string4_nonempty)

text \<open>
  The text of an address holds neither a closing angle bracket nor a semicolon, unless
  its zone does.
\<close>

definition key_safe :: "string \<Rightarrow> bool" where
  "key_safe s \<longleftrightarrow> CHR ''>'' \<notin> set s \<and> CHR '';'' \<notin> set s"

lemma key_safe_simps [simp]:
  "key_safe []"
  "key_safe (c # s) \<longleftrightarrow> c \<noteq> CHR ''>'' \<and> c \<noteq> CHR '';'' \<and> key_safe s"
  "key_safe (s @ t) \<longleftrightarrow> key_safe s \<and> key_safe t"
  by (auto simp: key_safe_def)

lemma key_safe_dec [simp]: "key_safe (dec n)"
  using dec_digits [of n] by (auto simp: key_safe_def list_all_iff is_digit_def)

lemma hex_digit_safe: "d < 16 \<Longrightarrow> hex_digit d \<noteq> CHR ''>'' \<and> hex_digit d \<noteq> CHR '';''"
  by (auto simp: hex_digit_def dest: arg_cong [where f = "of_char :: char \<Rightarrow> nat"])

lemma key_safe_hex [simp]: "key_safe (hex n)"
proof (induction n rule: hex.induct)
  case (1 n)
  then show ?case by (subst hex.simps) (simp add: hex_digit_safe)
qed

lemma key_safe_join: "key_safe sep \<Longrightarrow> \<forall>x \<in> set xs. key_safe x \<Longrightarrow> key_safe (join sep xs)"
  by (induction sep xs rule: join.induct) auto

lemma key_safe_string6: "key_safe (string6 ws)"
  by (simp add: string6_def Let_def split: prod.split)
    (intro conjI allI impI key_safe_join ballI; auto)

lemma key_safe_string4: "key_safe (string4 a b c d)"
  by (simp add: string4_def)

lemma key_safe_Addr_String: "key_safe (Zone a) \<Longrightarrow> key_safe (Addr_String a)"
  by (cases a) (simp_all add: key_safe_string4 key_safe_string6 zone_suffix_def)

end
