(* ===== verification/Go_Json.thy ===== *)
theory Go_Json
  imports Net_IP
begin

text \<open>
  The parts of Go's \<open>encoding/json\<close> that the program uses: the syntax of a document
  (the scanner behind \<open>Unmarshal\<close>), the indented printer \<open>MarshalIndent\<close> with
  two spaces, and the escaping of strings both apply. A number keeps its source text, as
  the decoder decides from the target type how to read it. The decoder's limit of 10000
  nested values is not modelled.
\<close>

section \<open>Values\<close>

datatype json =
    JNull
  | JBool bool
  | JNum string
  | JStr string
  | JArr "json list"
  | JObj "(string \<times> json) list"

section \<open>UTF-8\<close>

abbreviation code :: "char \<Rightarrow> nat" where
  "code c \<equiv> of_char c"

definition cont :: "char \<Rightarrow> bool" where
  "cont c \<longleftrightarrow> 128 \<le> code c \<and> code c \<le> 191"

definition second_ok :: "nat \<Rightarrow> char \<Rightarrow> bool" where
  "second_ok c0 c1 \<longleftrightarrow>
     (if c0 = 224 then 160 \<le> code c1 \<and> code c1 \<le> 191
      else if c0 = 237 then 128 \<le> code c1 \<and> code c1 \<le> 159
      else if c0 = 240 then 144 \<le> code c1 \<and> code c1 \<le> 191
      else if c0 = 244 then 128 \<le> code c1 \<and> code c1 \<le> 143
      else cont c1)"

text \<open>The length of the well-formed encoding a string starts with, 0 if there is none.\<close>

fun rune_len :: "string \<Rightarrow> nat" where
  "rune_len (c0 # c1 # c2 # c3 # cs) =
     (if code c0 < 128 then 1
      else if 194 \<le> code c0 \<and> code c0 \<le> 223 \<and> cont c1 then 2
      else if 224 \<le> code c0 \<and> code c0 \<le> 239 \<and> second_ok (code c0) c1 \<and> cont c2 then 3
      else if 240 \<le> code c0 \<and> code c0 \<le> 244 \<and> second_ok (code c0) c1 \<and> cont c2 \<and> cont c3 then 4
      else 0)"
| "rune_len [c0, c1, c2] =
     (if code c0 < 128 then 1
      else if 194 \<le> code c0 \<and> code c0 \<le> 223 \<and> cont c1 then 2
      else if 224 \<le> code c0 \<and> code c0 \<le> 239 \<and> second_ok (code c0) c1 \<and> cont c2 then 3
      else 0)"
| "rune_len [c0, c1] =
     (if code c0 < 128 then 1
      else if 194 \<le> code c0 \<and> code c0 \<le> 223 \<and> cont c1 then 2
      else 0)"
| "rune_len [c0] = (if code c0 < 128 then 1 else 0)"
| "rune_len [] = 0"

definition utf8_encode :: "nat \<Rightarrow> string" where
  "utf8_encode r =
     (if r < 128 then [char_of r]
      else if r < 2048 then [char_of (192 + r div 64), char_of (128 + r mod 64)]
      else if r < 65536 then
        [char_of (224 + r div 4096), char_of (128 + r div 64 mod 64), char_of (128 + r mod 64)]
      else [char_of (240 + r div 262144), char_of (128 + r div 4096 mod 64),
            char_of (128 + r div 64 mod 64), char_of (128 + r mod 64)])"

definition replacement_char :: string where
  "replacement_char = utf8_encode 65533"

function valid_utf8 :: "string \<Rightarrow> bool" where
  "valid_utf8 s \<longleftrightarrow> (if rune_len s = 0 then s = [] else valid_utf8 (drop (rune_len s) s))"
  by pat_completeness auto
termination
proof (relation "measure length", goal_cases)
  case (2 s)
  then show ?case by (cases s) auto
qed auto

declare valid_utf8.simps [simp del]

section \<open>Printing\<close>

definition esc :: "char \<Rightarrow> string" where
  "esc c =
     (if c = CHR 0x22 \<or> c = CHR 0x5C then [CHR 0x5C, c]
      else if code c = 8 then [CHR 0x5C, CHR ''b'']
      else if code c = 12 then [CHR 0x5C, CHR ''f'']
      else if code c = 10 then [CHR 0x5C, CHR ''n'']
      else if code c = 13 then [CHR 0x5C, CHR ''r'']
      else if code c = 9 then [CHR 0x5C, CHR ''t'']
      else if code c < 32 \<or> c = CHR ''<'' \<or> c = CHR ''>'' \<or> c = CHR ''&''
      then [CHR 0x5C, CHR ''u'', CHR ''0'', CHR ''0'',
            hex_digit (code c div 16), hex_digit (code c mod 16)]
      else [c])"

function quote_body :: "string \<Rightarrow> string" where
  "quote_body s =
     (case s of
        [] \<Rightarrow> []
      | c # cs \<Rightarrow>
          if code c < 128 then esc c @ quote_body cs
          else if rune_len s = 0 then CHR 0x5C # ''ufffd'' @ quote_body cs
          else if take 3 s = utf8_encode 0x2028 then CHR 0x5C # ''u2028'' @ quote_body (drop 3 s)
          else if take 3 s = utf8_encode 0x2029 then CHR 0x5C # ''u2029'' @ quote_body (drop 3 s)
          else take (rune_len s) s @ quote_body (drop (rune_len s) s))"
  by pat_completeness auto
termination
  by (relation "measure length") auto

declare quote_body.simps [simp del]

definition quote :: "string \<Rightarrow> string" where
  "quote s = CHR 0x22 # quote_body s @ [CHR 0x22]"

text \<open>A line break followed by \<open>d\<close> levels of indentation.\<close>

definition nl :: "nat \<Rightarrow> string" where
  "nl d = CHR 0x0A # replicate (2 * d) (CHR '' '')"

text \<open>
  The printer at indentation \<open>d\<close>; the two list functions print what follows the first
  element or member of a container whose contents are indented by \<open>d\<close>.
\<close>

fun indent :: "nat \<Rightarrow> json \<Rightarrow> string"
  and indent_elems :: "nat \<Rightarrow> json list \<Rightarrow> string"
  and indent_members :: "nat \<Rightarrow> (string \<times> json) list \<Rightarrow> string" where
  "indent d JNull = ''null''"
| "indent d (JBool b) = (if b then ''true'' else ''false'')"
| "indent d (JNum l) = l"
| "indent d (JStr s) = quote s"
| "indent d (JArr []) = ''[]''"
| "indent d (JArr (x # xs)) =
     CHR ''['' # nl (Suc d) @ indent (Suc d) x @ indent_elems (Suc d) xs"
| "indent d (JObj []) = ''{}''"
| "indent d (JObj ((k, x) # ms)) =
     CHR ''{'' # nl (Suc d) @ quote k @ '': '' @ indent (Suc d) x @ indent_members (Suc d) ms"
| "indent_elems d [] = nl (d - 1) @ '']''"
| "indent_elems d (x # xs) = CHR '','' # nl d @ indent d x @ indent_elems d xs"
| "indent_members d [] = nl (d - 1) @ ''}''"
| "indent_members d ((k, x) # ms) =
     CHR '','' # nl d @ quote k @ '': '' @ indent d x @ indent_members d ms"

definition MarshalIndent :: "json \<Rightarrow> string" where
  "MarshalIndent j = indent 0 j"

section \<open>Parsing\<close>

definition is_ws :: "char \<Rightarrow> bool" where
  "is_ws c \<longleftrightarrow> code c = 32 \<or> code c = 9 \<or> code c = 10 \<or> code c = 13"

definition skip_ws :: "string \<Rightarrow> string" where
  "skip_ws s = dropWhile is_ws s"

definition getu4 :: "string \<Rightarrow> nat option" where
  "getu4 s = (if length (take 4 s) = 4 \<and> list_all is_hex (take 4 s)
              then Some (hex_vals (take 4 s)) else None)"

definition prepend :: "string \<Rightarrow> (string \<times> 'a) option \<Rightarrow> (string \<times> 'a) option" where
  "prepend p x = map_option (\<lambda>(s, r). (p @ s, r)) x"

definition is_surrogate :: "nat \<Rightarrow> bool" where
  "is_surrogate r \<longleftrightarrow> 0xd800 \<le> r \<and> r < 0xe000"

text \<open>The low surrogate escape that completes the pair opened by \<open>r\<close>, if one follows.\<close>

definition low_surrogate :: "nat \<Rightarrow> string \<Rightarrow> nat option" where
  "low_surrogate r s =
     (if take 2 s = [CHR 0x5C, CHR ''u''] then
        (case getu4 (drop 2 s) of
           Some r2 \<Rightarrow> if r < 0xdc00 \<and> 0xdc00 \<le> r2 \<and> r2 < 0xe000
                      then Some ((r - 0xd800) * 1024 + (r2 - 0xdc00) + 0x10000) else None
         | None \<Rightarrow> None)
      else None)"

text \<open>A string after its opening quote: its value and the text after the closing quote.\<close>

function parse_str :: "string \<Rightarrow> (string \<times> string) option" where
  "parse_str s =
     (case s of
        [] \<Rightarrow> None
      | c # cs \<Rightarrow>
          if c = CHR 0x22 then Some ([], cs)
          else if code c < 32 then None
          else if c = CHR 0x5C then
            (case cs of
               [] \<Rightarrow> None
             | e # es \<Rightarrow>
                 if e = CHR 0x22 \<or> e = CHR 0x5C \<or> e = CHR ''/'' then prepend [e] (parse_str es)
                 else if e = CHR ''b'' then prepend [char_of (8 :: nat)] (parse_str es)
                 else if e = CHR ''f'' then prepend [char_of (12 :: nat)] (parse_str es)
                 else if e = CHR ''n'' then prepend [char_of (10 :: nat)] (parse_str es)
                 else if e = CHR ''r'' then prepend [char_of (13 :: nat)] (parse_str es)
                 else if e = CHR ''t'' then prepend [char_of (9 :: nat)] (parse_str es)
                 else if e = CHR ''u'' then
                   (case getu4 es of
                      None \<Rightarrow> None
                    | Some r \<Rightarrow>
                        if is_surrogate r then
                          (case low_surrogate r (drop 4 es) of
                             Some r' \<Rightarrow> prepend (utf8_encode r') (parse_str (drop 10 es))
                           | None \<Rightarrow> prepend replacement_char (parse_str (drop 4 es)))
                        else prepend (utf8_encode r) (parse_str (drop 4 es)))
                 else None)
          else if code c < 128 then prepend [c] (parse_str cs)
          else if rune_len s = 0 then prepend replacement_char (parse_str cs)
          else prepend (take (rune_len s) s) (parse_str (drop (rune_len s) s)))"
  by pat_completeness auto
termination
  by (relation "measure length") auto

declare parse_str.simps [simp del]

text \<open>A number: the source text of its sign, integer part, fraction and exponent, each
  with what follows it.\<close>

definition num_sign :: "string \<Rightarrow> string \<times> string" where
  "num_sign s = (if HasPrefix s ''-'' then (''-'', tl s) else ([], s))"

definition num_int :: "string \<Rightarrow> (string \<times> string) option" where
  "num_int s =
     (if HasPrefix s ''0'' then Some (''0'', tl s)
      else if takeWhile is_digit s = [] then None
      else Some (takeWhile is_digit s, dropWhile is_digit s))"

definition num_frac :: "string \<Rightarrow> (string \<times> string) option" where
  "num_frac s =
     (if HasPrefix s ''.'' then
        (if takeWhile is_digit (tl s) = [] then None
         else Some (CHR ''.'' # takeWhile is_digit (tl s), dropWhile is_digit (tl s)))
      else Some ([], s))"

definition num_exp :: "string \<Rightarrow> (string \<times> string) option" where
  "num_exp s =
     (if HasPrefix s ''e'' \<or> HasPrefix s ''E'' then
        (let sg = (if HasPrefix (tl s) ''+'' \<or> HasPrefix (tl s) ''-'' then take 1 (tl s) else []);
             ds = drop (length sg) (tl s)
         in if takeWhile is_digit ds = [] then None
            else Some (take 1 s @ sg @ takeWhile is_digit ds, dropWhile is_digit ds))
      else Some ([], s))"

definition parse_num :: "string \<Rightarrow> (string \<times> string) option" where
  "parse_num s =
     (case num_int (snd (num_sign s)) of
        None \<Rightarrow> None
      | Some (ip, s1) \<Rightarrow>
          (case num_frac s1 of
             None \<Rightarrow> None
           | Some (fp, s2) \<Rightarrow>
               (case num_exp s2 of
                  None \<Rightarrow> None
                | Some (ep, s3) \<Rightarrow> Some (fst (num_sign s) @ ip @ fp @ ep, s3))))"

definition parse_lit :: "string \<Rightarrow> (json \<times> string) option" where
  "parse_lit s =
     (if HasPrefix s ''null'' then Some (JNull, drop 4 s)
      else if HasPrefix s ''true'' then Some (JBool True, drop 4 s)
      else if HasPrefix s ''false'' then Some (JBool False, drop 5 s)
      else None)"

text \<open>Values, elements and members, with fuel; \<open>parse_fuel\<close> below is always enough.\<close>

fun parse_value :: "nat \<Rightarrow> string \<Rightarrow> (json \<times> string) option"
  and parse_elems :: "nat \<Rightarrow> string \<Rightarrow> (json list \<times> string) option"
  and parse_members :: "nat \<Rightarrow> string \<Rightarrow> ((string \<times> json) list \<times> string) option" where
  "parse_value 0 s = None"
| "parse_value (Suc f) s =
     (case skip_ws s of
        [] \<Rightarrow> None
      | c # cs \<Rightarrow>
          if c = CHR ''{'' then
            (if HasPrefix (skip_ws cs) ''}'' then Some (JObj [], tl (skip_ws cs))
             else map_option (\<lambda>(ms, r). (JObj ms, r)) (parse_members f cs))
          else if c = CHR ''['' then
            (if HasPrefix (skip_ws cs) '']'' then Some (JArr [], tl (skip_ws cs))
             else map_option (\<lambda>(xs, r). (JArr xs, r)) (parse_elems f cs))
          else if c = CHR 0x22 then map_option (\<lambda>(s, r). (JStr s, r)) (parse_str cs)
          else if c = CHR ''-'' \<or> is_digit c then
            map_option (\<lambda>(l, r). (JNum l, r)) (parse_num (c # cs))
          else parse_lit (c # cs))"
| "parse_elems 0 s = None"
| "parse_elems (Suc f) s =
     (case parse_value f s of
        None \<Rightarrow> None
      | Some (x, r) \<Rightarrow>
          (case skip_ws r of
             [] \<Rightarrow> None
           | c # r' \<Rightarrow>
               if c = CHR '']'' then Some ([x], r')
               else if c = CHR '','' then map_option (\<lambda>(xs, r). (x # xs, r)) (parse_elems f r')
               else None))"
| "parse_members 0 s = None"
| "parse_members (Suc f) s =
     (case skip_ws s of
        [] \<Rightarrow> None
      | c # cs \<Rightarrow>
          if c \<noteq> CHR 0x22 then None
          else case parse_str cs of
            None \<Rightarrow> None
          | Some (k, r) \<Rightarrow>
              (case skip_ws r of
                 [] \<Rightarrow> None
               | c \<comment> \<open>the colon\<close> # r1 \<Rightarrow>
                   if c \<noteq> CHR '':'' then None
                   else case parse_value f r1 of
                     None \<Rightarrow> None
                   | Some (x, r2) \<Rightarrow>
                       (case skip_ws r2 of
                          [] \<Rightarrow> None
                        | c # r3 \<Rightarrow>
                            if c = CHR ''}'' then Some ([(k, x)], r3)
                            else if c = CHR '','' then
                              map_option (\<lambda>(ms, r). ((k, x) # ms, r)) (parse_members f r3)
                            else None)))"

definition parse_fuel :: "string \<Rightarrow> nat" where
  "parse_fuel s = 2 * length s + 2"

definition json_parse :: "string \<Rightarrow> json option" where
  "json_parse s =
     (case parse_value (parse_fuel s) s of
        None \<Rightarrow> None
      | Some (j, r) \<Rightarrow> if skip_ws r = [] then Some j else None)"


section \<open>Reading back printed strings\<close>

lemma rune_len_0_Nil [simp]: "rune_len [] = 0"
  by simp

lemma rune_len_ascii [simp]: "code c < 128 \<Longrightarrow> rune_len (c # cs) = 1"
  by (cases cs rule: rune_len.cases) (auto split: list.split)

lemma is_hex_hex_digit [simp]: "d < 16 \<Longrightarrow> is_hex (hex_digit d)"
  by (auto simp: is_hex_def hex_digit_def)

lemma hex_val_hex_digit [simp]: "d < 16 \<Longrightarrow> hex_val (hex_digit d) = d"
  by (auto simp: hex_val_def hex_digit_def Let_def)

lemma rune_len_le: "rune_len s \<le> length s"
  by (cases s rule: rune_len.cases) auto

lemma rune_len_take: "rune_len s \<noteq> 0 \<Longrightarrow> rune_len (take (rune_len s) s @ t) = rune_len s"
  by (cases s rule: rune_len.cases; cases t rule: rune_len.cases) (auto simp: numeral_3_eq_3 numeral_2_eq_2 eval_nat_numeral split: if_splits)

lemma hex_0 [simp]: "is_hex CHR ''0''" "hex_val CHR ''0'' = 0"
  by (simp_all add: is_hex_def hex_val_def)

lemma getu4_esc:
  "n < 256 \<Longrightarrow>
   getu4 (CHR ''0'' # CHR ''0'' # hex_digit (n div 16) # hex_digit (n mod 16) # t) = Some n"
  by (simp add: getu4_def hex_vals_def)

lemma code_eqD: "code c = n \<Longrightarrow> c = char_of n"
  by auto

lemma parse_str_esc:
  assumes "code c < 128"
  shows "parse_str (esc c @ t) = prepend [c] (parse_str t)"
proof -
  consider "c = CHR 0x22 \<or> c = CHR 0x5C" | "code c \<in> {8, 9, 10, 12, 13}"
    | "c \<noteq> CHR 0x22 \<and> c \<noteq> CHR 0x5C" "code c \<notin> {8, 9, 10, 12, 13}" "code c < 32 \<or> c = CHR ''<'' \<or> c = CHR ''>'' \<or> c = CHR ''&''"
    | "c \<noteq> CHR 0x22 \<and> c \<noteq> CHR 0x5C" "code c \<notin> {8, 9, 10, 12, 13}" "32 \<le> code c" "c \<noteq> CHR ''<''" "c \<noteq> CHR ''>''" "c \<noteq> CHR ''&''"
    by fastforce
  then show ?thesis
  proof cases
    case 1
    then show ?thesis by (subst parse_str.simps) (auto simp: esc_def)
  next
    case 2
    then show ?thesis by (subst parse_str.simps) (auto simp: esc_def dest: code_eqD)
  next
    case 3
    then have "esc c = CHR 0x5C # CHR ''u'' # [CHR ''0'', CHR ''0'', hex_digit (code c div 16), hex_digit (code c mod 16)]"
      by (auto simp: esc_def)
    then show ?thesis using assms getu4_esc [of "code c"]
      by (subst parse_str.simps) (simp add: is_surrogate_def utf8_encode_def)
  next
    case 4
    then show ?thesis using assms by (subst parse_str.simps) (auto simp: esc_def)
  qed
qed

lemma utf8_2028: "utf8_encode 0x2028 = [CHR 0xE2, CHR 0x80, CHR 0xA8]" "utf8_encode 0x2029 = [CHR 0xE2, CHR 0x80, CHR 0xA9]"
  by (simp_all add: utf8_encode_def char_of_eq_iff)


lemma prepend_append: "prepend p (prepend q x) = prepend (p @ q) x"
  by (cases x) (auto simp: prepend_def)

lemma prepend_Some [simp]: "prepend p (Some (s, r)) = Some (p @ s, r)"
  by (simp add: prepend_def)

lemma parse_str_u2028: "parse_str (CHR 0x5C # ''u2028'' @ t) = prepend (utf8_encode 0x2028) (parse_str t)"
  "parse_str (CHR 0x5C # ''u2029'' @ t) = prepend (utf8_encode 0x2029) (parse_str t)"
  by (subst parse_str.simps, simp add: getu4_def is_hex_def hex_vals_def hex_val_def is_surrogate_def)+

lemma parse_str_multi:
  assumes "rune_len u \<noteq> 0" "\<not> code (hd u) < 128"
  shows "parse_str u = prepend (take (rune_len u) u) (parse_str (drop (rune_len u) u))"
proof (cases u)
  case (Cons c cs)
  with assms(2) have "c \<noteq> CHR 0x22" "c \<noteq> CHR 0x5C" "\<not> code c < 32" by auto
  with assms Cons show ?thesis by (subst parse_str.simps) simp
qed (use assms in simp)

lemma parse_str_rune:
  assumes "rune_len s \<noteq> 0" "\<not> code (hd s) < 128"
  shows "parse_str (take (rune_len s) s @ t) = prepend (take (rune_len s) s) (parse_str t)"
proof -
  have "rune_len (take (rune_len s) s @ t) = rune_len s"
    using assms(1) by (rule rune_len_take)
  moreover have "hd (take (rune_len s) s @ t) = hd s"
    using assms(1) by (cases s) auto
  moreover have "length (take (rune_len s) s) = rune_len s"
    using rune_len_le [of s] by simp
  ultimately show ?thesis
    using parse_str_multi [of "take (rune_len s) s @ t"] assms by simp
qed

lemma rune_len_3: "take 3 s = [a, b, c] \<Longrightarrow> 224 \<le> code a \<Longrightarrow> code a \<le> 239 \<Longrightarrow> rune_len s \<noteq> 0 \<Longrightarrow> rune_len s = 3"
  by (cases s rule: rune_len.cases) (auto split: if_splits)

lemma parse_str_quote_body:
  "valid_utf8 s \<Longrightarrow> parse_str (quote_body s @ CHR 0x22 # r) = Some (s, r)"
proof (induction s rule: quote_body.induct)
  case (1 s)
  show ?case
  proof (cases s)
    case Nil
    then show ?thesis by (subst quote_body.simps, subst parse_str.simps) simp
  next
    case (Cons c cs)
    show ?thesis
    proof (cases "code c < 128")
      case True
      then have "valid_utf8 cs" using 1(6) Cons by (subst (asm) valid_utf8.simps) simp
      with 1(1) [OF Cons True] Cons True show ?thesis
        by (subst quote_body.simps) (simp add: parse_str_esc)
    next
      case False
      have n: "rune_len s \<noteq> 0" using 1(6) Cons by (subst (asm) valid_utf8.simps) (auto split: if_splits)
      then have v: "valid_utf8 (drop (rune_len s) s)" using 1(6) by (subst (asm) valid_utf8.simps) simp
      have hd: "\<not> code (hd s) < 128" using False Cons by simp
      have v3: "valid_utf8 (drop 3 s)" if "take 3 s = [CHR 0xE2, CHR 0x80, b]" for b
        using v rune_len_3 [OF that _ _ n] by simp
      consider (ls) "take 3 s = utf8_encode 0x2028" | (ps) "take 3 s = utf8_encode 0x2029"
        | (other) "take 3 s \<noteq> utf8_encode 0x2028" "take 3 s \<noteq> utf8_encode 0x2029" by blast
      then show ?thesis
      proof cases
        case ls
        then have "utf8_encode 0x2028 @ drop 3 s = s" by (metis append_take_drop_id)
        moreover have "parse_str (quote_body (drop 3 s) @ CHR 0x22 # r) = Some (drop 3 s, r)"
          using 1(3) [OF Cons False n ls] v3 ls by (simp add: utf8_2028)
        ultimately show ?thesis using Cons False n ls
          by (subst quote_body.simps) (simp add: parse_str_u2028 [simplified])
      next
        case ps
        then have "utf8_encode 0x2029 @ drop 3 s = s" by (metis append_take_drop_id)
        moreover have "parse_str (quote_body (drop 3 s) @ CHR 0x22 # r) = Some (drop 3 s, r)"
          using 1(4) [OF Cons False n _ ps] v3 ps by (simp add: utf8_2028)
        ultimately show ?thesis using Cons False n ps
          by (subst quote_body.simps) (simp add: utf8_2028 parse_str_u2028 [simplified])
      next
        case other
        then have "parse_str (quote_body (drop (rune_len s) s) @ CHR 0x22 # r) =
            Some (drop (rune_len s) s, r)"
          using 1(5) [OF Cons False n] v by simp
        then have "parse_str (take (rune_len s) s @ quote_body (drop (rune_len s) s) @ CHR 0x22 # r)
            = Some (s, r)"
          using parse_str_rune [OF n hd] by simp
        then show ?thesis using Cons False n other
          by (subst quote_body.simps) simp
      qed
    qed
  qed
qed

section \<open>Reading back a printed document\<close>

text \<open>What may follow a number without being taken for a part of it.\<close>

definition num_stop :: "string \<Rightarrow> bool" where
  "num_stop r \<longleftrightarrow> (case r of [] \<Rightarrow> True
     | c # _ \<Rightarrow> \<not> is_digit c \<and> c \<noteq> CHR ''.'' \<and> c \<noteq> CHR ''e'' \<and> c \<noteq> CHR ''E'')"

lemma dec_hd_nonzero: "0 < n \<Longrightarrow> hd (dec n) \<noteq> CHR ''0''"
proof (induction n rule: dec.induct)
  case (1 n)
  show ?case
  proof (cases "n < 10")
    case True
    then show ?thesis using 1(2)
      by (subst dec.simps) (auto dest: arg_cong [where f = digit_val] simp: digit_val_def [of "CHR ''0''"])
  next
    case False
    then have "hd (dec n) = hd (dec (n div 10))" by (subst dec.simps) simp
    with 1(1) [OF False] False show ?thesis by simp
  qed
qed

lemma dec_0: "dec 0 = ''0''"
  by (simp add: dec_1 digit_char_def char_of_eq_iff)

lemma HasPrefix_Cons1 [simp]: "HasPrefix (c # s) [d] \<longleftrightarrow> c = d"
  by (auto simp: HasPrefix_def)

lemma HasPrefix_Nil1 [simp]: "\<not> HasPrefix [] [d]"
  by (simp add: HasPrefix_def)

lemma digits_dec:
  assumes "num_stop r"
  shows "takeWhile is_digit (dec n @ r) = dec n" "dropWhile is_digit (dec n @ r) = r"
proof -
  have d: "\<forall>c \<in> set (dec n). is_digit c" using dec_digits [of n] by (simp add: list_all_iff)
  from assms show "takeWhile is_digit (dec n @ r) = dec n" "dropWhile is_digit (dec n @ r) = r"
    using takeWhile_append2 [of "dec n" is_digit r] dropWhile_append2 [of "dec n" is_digit r] d
    by (auto simp: num_stop_def split: list.splits)
qed

lemma num_int_dec: "num_stop r \<Longrightarrow> num_int (dec n @ r) = Some (dec n, r)"
proof (cases "n = 0")
  case False
  assume r: "num_stop r"
  obtain c cs where "dec n = c # cs" by (cases "dec n") auto
  then have "\<not> HasPrefix (dec n @ r) ''0''" using False dec_hd_nonzero [of n] by simp
  then show ?thesis using digits_dec [OF r, of n] by (simp add: num_int_def)
qed (simp add: num_int_def dec_0)

lemma num_stop_rest: "num_stop r \<Longrightarrow> num_frac r = Some ([], r)" "num_stop r \<Longrightarrow> num_exp r = Some ([], r)"
  by (cases r; simp add: num_stop_def num_frac_def num_exp_def)+

lemma parse_num_dec:
  assumes "num_stop r"
  shows "parse_num (dec n @ r) = Some (dec n, r)"
    and "parse_num (CHR ''-'' # dec n @ r) = Some (CHR ''-'' # dec n, r)"
proof -
  obtain c cs where d: "dec n = c # cs" by (cases "dec n") auto
  then have "c \<noteq> CHR ''-''"
    using dec_hd_digit [of n] is_digit_not_sign [of c] by simp
  then have "num_sign (dec n @ r) = ([], dec n @ r)" by (simp add: d num_sign_def)
  then show "parse_num (dec n @ r) = Some (dec n, r)"
    and "parse_num (CHR ''-'' # dec n @ r) = Some (CHR ''-'' # dec n, r)"
    using assms by (simp_all add: parse_num_def num_int_dec num_stop_rest num_sign_def)
qed

lemma parse_num_Itoa: "num_stop r \<Longrightarrow> parse_num (Itoa n @ r) = Some (Itoa n, r)"
  by (simp add: Itoa_def parse_num_dec)

fun wf_json :: "json \<Rightarrow> bool" where
  "wf_json JNull \<longleftrightarrow> True"
| "wf_json (JBool b) \<longleftrightarrow> True"
| "wf_json (JNum l) \<longleftrightarrow> (\<exists>n. l = Itoa n)"
| "wf_json (JStr s) \<longleftrightarrow> valid_utf8 s"
| "wf_json (JArr xs) \<longleftrightarrow> (\<forall>x \<in> set xs. wf_json x)"
| "wf_json (JObj ms) \<longleftrightarrow> (\<forall>(k, x) \<in> set ms. valid_utf8 k \<and> wf_json x)"

fun need :: "json \<Rightarrow> nat" and need_elems :: "json list \<Rightarrow> nat" and need_members :: "(string \<times> json) list \<Rightarrow> nat" where
  "need (JArr xs) = Suc (need_elems xs)"
| "need (JObj ms) = Suc (need_members ms)"
| "need _ = 1"
| "need_elems [] = 0"
| "need_elems (x # xs) = Suc (need x + need_elems xs)"
| "need_members [] = 0"
| "need_members ((k, x) # ms) = Suc (need x + need_members ms)"

lemma need_indent:
  "need j \<le> 2 * length (indent d j) + 1"
  "need_elems xs \<le> 2 * length (indent_elems d xs)"
  "need_members ms \<le> 2 * length (indent_members d ms)"
  by (induction d j and d xs and d ms rule: indent_indent_elems_indent_members.induct)
    (auto simp: nl_def quote_def)

lemma skip_ws_nl [simp]: "skip_ws (nl d @ s) = skip_ws s"
proof -
  have "\<forall>c \<in> set (nl d). is_ws c" by (auto simp: nl_def is_ws_def)
  then show ?thesis by (simp add: skip_ws_def dropWhile_append2)
qed

lemma skip_ws_Cons [simp]: "skip_ws (c # s) = (if is_ws c then skip_ws s else c # s)"
  by (simp add: skip_ws_def)

lemma parse_value_ws: "parse_value f (nl d @ s) = parse_value f s"
  by (cases f) simp_all

lemma num_stop_tails [simp]:
  "num_stop (indent_elems d xs @ r)" "num_stop (indent_members d ms @ r)"
  by (cases xs; simp add: num_stop_def nl_def is_digit_def)
    (cases ms; auto simp: num_stop_def nl_def is_digit_def)



lemma is_ws_ascii [simp]:
  "\<not> is_ws CHR '':''" "\<not> is_ws CHR '',''" "\<not> is_ws CHR 0x22" "\<not> is_ws CHR ''['' "
  "\<not> is_ws CHR ''{''" "\<not> is_ws CHR '']''" "\<not> is_ws CHR ''}''" "\<not> is_ws CHR ''n''"
  "\<not> is_ws CHR ''t''" "\<not> is_ws CHR ''f''" "\<not> is_ws CHR ''-''" "is_ws CHR '' ''"
  by (simp_all add: is_ws_def)

lemma not_digit_ascii [simp]:
  "\<not> is_digit CHR 0x22" "\<not> is_digit CHR ''n''" "\<not> is_digit CHR ''t''" "\<not> is_digit CHR ''f''"
  by (simp_all add: is_digit_def)

lemma digit_not_ws: "is_digit c \<Longrightarrow> \<not> is_ws c"
  by (auto simp: is_digit_def is_ws_def)

lemma parse_value_space: "parse_value f (CHR '' '' # s) = parse_value f s"
  by (cases f) simp_all

lemma parse_value_str:
  "valid_utf8 s \<Longrightarrow> 0 < f \<Longrightarrow> parse_value f (quote s @ r) = Some (JStr s, r)"
  by (cases f) (simp_all add: quote_def parse_str_quote_body)

lemma Itoa_hd:
  obtains c cs where "Itoa n = c # cs" "c = CHR ''-'' \<or> is_digit c"
proof (cases "n < 0")
  case False
  then show ?thesis using that dec_hd_digit [of "nat n"]
    by (cases "dec (nat n)") (auto simp: Itoa_def)
qed (use that in \<open>simp add: Itoa_def\<close>)

lemma parse_value_num:
  assumes "num_stop r" "0 < f"
  shows "parse_value f (Itoa n @ r) = Some (JNum (Itoa n), r)"
proof -
  obtain c cs where d: "Itoa n = c # cs" and c: "c = CHR ''-'' \<or> is_digit c"
    by (rule Itoa_hd)
  then have "c \<noteq> CHR ''{''" "c \<noteq> CHR ''[''" "c \<noteq> CHR 0x22" "\<not> is_ws c"
    by (auto simp: is_digit_def is_ws_def)
  then show ?thesis using assms c parse_num_Itoa [OF assms(1), of n] d
    by (cases f) auto
qed

text \<open>A printed value starts with neither white space nor a closing bracket.\<close>

lemma indent_hd:
  assumes "wf_json j"
  obtains c cs where "indent d j = c # cs" "\<not> is_ws c" "c \<noteq> CHR '']''" "c \<noteq> CHR ''}''"
proof (cases j)
  case (JNum l)
  with assms obtain n where "l = Itoa n" by auto
  then obtain c cs where l: "l = c # cs" "c = CHR ''-'' \<or> is_digit c"
    by (metis Itoa_hd)
  then have "\<not> is_ws c" "c \<noteq> CHR '']''" "c \<noteq> CHR ''}''"
    by (auto simp: is_digit_def is_ws_def)
  with JNum l show ?thesis using that by simp
next
  case (JBool b)
  then show ?thesis using that by (cases b) auto
next
  case (JArr xs)
  then show ?thesis using that by (cases xs) auto
next
  case (JObj ms)
  then show ?thesis using that by (cases ms) auto
qed (use that in \<open>auto simp: quote_def split: if_splits\<close>)

lemma parse_indent:
  "wf_json j \<Longrightarrow> num_stop r \<Longrightarrow> need j \<le> f \<Longrightarrow> parse_value f (indent d j @ r) = Some (j, r)"
  "\<forall>x \<in> set xs. wf_json x \<Longrightarrow> need_elems xs \<le> f \<Longrightarrow>
   parse_value f pre = Some (x, indent_elems d xs @ r) \<Longrightarrow>
   parse_elems (Suc f) pre = Some (x # xs, r)"
  "\<forall>(k, x) \<in> set ms. valid_utf8 k \<and> wf_json x \<Longrightarrow> need_members ms \<le> f \<Longrightarrow>
   parse_value f r2 = Some (x, indent_members d ms @ r) \<Longrightarrow> valid_utf8 k \<Longrightarrow>
   parse_members (Suc f) (nl i @ quote k @ CHR '':'' # r2) = Some ((k, x) # ms, r)"
proof (induction d j and d xs and d ms arbitrary: r f and r f x pre and r f k x r2 i
    rule: indent_indent_elems_indent_members.induct)
  case (6 d x xs)
  then obtain g where f: "f = Suc (Suc g)" by (cases f; cases "f - 1") auto
  obtain c cs where c: "indent (Suc d) x = c # cs" "\<not> is_ws c" "c \<noteq> CHR '']''"
    using indent_hd [of x "Suc d"] 6(3) by (metis list.set_intros(1) wf_json.simps(5))
  have "parse_value g (indent (Suc d) x @ indent_elems (Suc d) xs @ r) =
      Some (x, indent_elems (Suc d) xs @ r)"
    using 6 f by (intro 6(1)) auto
  then have "parse_elems (Suc g) (nl (Suc d) @ indent (Suc d) x @ indent_elems (Suc d) xs @ r) =
      Some (x # xs, r)"
    using 6 f by (intro 6(2)) (auto simp: parse_value_ws)
  then show ?case using f c by simp
next
  case (8 d k x ms)
  then obtain g where f: "f = Suc (Suc g)" by (cases f; cases "f - 1") auto
  have "parse_value g (indent (Suc d) x @ indent_members (Suc d) ms @ r) =
      Some (x, indent_members (Suc d) ms @ r)"
    using 8 f by (intro 8(1)) auto
  then have "parse_members (Suc g) (nl (Suc d) @ quote k @ CHR '':'' # CHR '' '' #
      indent (Suc d) x @ indent_members (Suc d) ms @ r) = Some ((k, x) # ms, r)"
    using 8 f by (intro 8(2)) (auto simp: parse_value_space)
  then show ?case using f by (simp add: quote_def)
next
  case (10 d y ys)
  then obtain g where f: "f = Suc g" by (cases f) auto
  have "parse_value g (indent d y @ indent_elems d ys @ r) = Some (y, indent_elems d ys @ r)"
    using 10 f by (intro 10(1)) auto
  then have "parse_elems f (nl d @ indent d y @ indent_elems d ys @ r) = Some (y # ys, r)"
    unfolding f using 10 f by (intro 10(2)) (auto simp: parse_value_ws)
  then show ?case using 10 by simp
next
  case (12 d k' y ys)
  then obtain g where f: "f = Suc g" by (cases f) auto
  have "parse_value g (indent d y @ indent_members d ys @ r) = Some (y, indent_members d ys @ r)"
    using 12 f by (intro 12(1)) auto
  then have "parse_members f (nl d @ quote k' @ CHR '':'' # CHR '' '' #
      indent d y @ indent_members d ys @ r) = Some ((k', y) # ys, r)"
    unfolding f using 12 f by (intro 12(2)) (auto simp: parse_value_space)
  moreover have "parse_str (quote_body k @ CHR 0x22 # CHR '':'' # r2) = Some (k, CHR '':'' # r2)"
    using 12 by (simp add: parse_str_quote_body)
  ultimately show ?case using 12 by (simp add: quote_def)
next
  case (3 d l)
  then show ?case by (auto simp: parse_value_num)
next
  case (4 d s)
  then show ?case by (auto simp: parse_value_str)
next
  case (11 d)
  then show ?case by (simp add: quote_def parse_str_quote_body)
qed (auto simp: Suc_le_eq gr0_conv_Suc parse_lit_def HasPrefix_def)

lemma json_parse_MarshalIndent:
  assumes "wf_json j" "\<forall>c \<in> set w. is_ws c"
  shows "json_parse (MarshalIndent j @ w) = Some j"
proof -
  have "num_stop w"
    using assms(2) digit_not_ws by (cases w) (auto simp: num_stop_def is_ws_def)
  moreover have "need j \<le> parse_fuel (MarshalIndent j @ w)"
    using need_indent(1) [of j 0] by (simp add: parse_fuel_def MarshalIndent_def)
  ultimately have "parse_value (parse_fuel (MarshalIndent j @ w)) (MarshalIndent j @ w) = Some (j, w)"
    using assms(1) by (simp add: MarshalIndent_def parse_indent(1))
  moreover have "skip_ws w = []"
    using assms(2) by (simp add: skip_ws_def)
  ultimately show ?thesis by (simp add: json_parse_def)
qed

section \<open>The fuel is enough\<close>

lemma skip_ws_length: "length (skip_ws s) \<le> length s"
  by (simp add: skip_ws_def length_dropWhile_le)

lemma skip_ws_Cons_length: "skip_ws s = c # cs \<Longrightarrow> length cs < length s"
  using skip_ws_length [of s] by simp

lemma prepend_SomeD: "prepend p x = Some (s, r) \<Longrightarrow> \<exists>s'. x = Some (s', r)"
  by (auto simp: prepend_def)

lemma parse_str_length: "parse_str s = Some (k, r) \<Longrightarrow> length r < length s"
proof (induction "length s" arbitrary: s k rule: less_induct)
  case less
  have IH: "length r < length t" if "prepend p (parse_str t) = Some (k', r)" "length t < length s"
    for p t k'
    using that less.hyps [of t] by (auto dest: prepend_SomeD)
  show ?case
  proof (cases s)
    case (Cons c cs)
    then show ?thesis using less.prems
      by (subst (asm) parse_str.simps)
        (auto split: list.splits if_splits option.splits dest!: IH)
  qed (use less.prems in \<open>simp add: parse_str.simps\<close>)
qed

lemma length_dropWhile_drop: "length (dropWhile p (drop k (tl t))) \<le> length t"
  by (rule order_trans [OF length_dropWhile_le]) simp

lemma parse_num_length:
  assumes "parse_num s = Some (l, r)"
  shows "length r < length s"
proof -
  have 1: "length (snd (num_sign t)) \<le> length t" for t by (simp add: num_sign_def)
  have 2: "num_int t = Some (p, u) \<Longrightarrow> length u < length t" for t p u
    by (cases t) (auto simp: num_int_def length_dropWhile_le le_imp_less_Suc split: if_splits)
  have 3: "num_frac t = Some (p, u) \<Longrightarrow> length u \<le> length t" for t p u
    using length_dropWhile_drop [of is_digit 0 t] by (auto simp: num_frac_def split: if_splits)
  have 4: "num_exp t = Some (p, u) \<Longrightarrow> length u \<le> length t" for t p u
    using length_dropWhile_drop [of is_digit _ t] length_dropWhile_drop [of is_digit 0 t]
    by (auto simp: num_exp_def Let_def split: if_splits)
  from assms show ?thesis
    using 1 [of s] by (auto simp: parse_num_def split: option.splits prod.splits dest!: 2 3 4)
qed

lemma parse_lit_length: "parse_lit s = Some (j, r) \<Longrightarrow> length r < length s"
  by (cases s) (auto simp: parse_lit_def HasPrefix_def split: if_splits)

lemma parse_length:
  "parse_value f s = Some (j, r) \<Longrightarrow> length r < length s"
  "parse_elems f s = Some (xs, r) \<Longrightarrow> length r < length s"
  "parse_members f s = Some (ms, r) \<Longrightarrow> length r < length s"
proof (induction f s and f s and f s arbitrary: j r and xs r and ms r
    rule: parse_value_parse_elems_parse_members.induct)
  case (2 f s)
  show ?case
  proof (cases "skip_ws s")
    case (Cons c cs)
    have "length (tl (skip_ws cs)) \<le> length cs"
      using skip_ws_length [of cs] by simp
    moreover note len = skip_ws_Cons_length [OF Cons]
    moreover have "length (c # cs) \<le> length s"
      using skip_ws_length [of s] Cons by simp
    ultimately show ?thesis using "2.prems" "2.IH" [OF Cons] Cons
      by (auto split: if_splits dest!: parse_str_length parse_num_length parse_lit_length)
  qed (use "2.prems" in simp)
next
  case (4 f s)
  then obtain x r1 where x: "parse_value f s = Some (x, r1)"
    by (cases "parse_value f s") auto
  with 4 obtain c r2 where c: "skip_ws r1 = c # r2"
    by (cases "skip_ws r1") auto
  have "length r1 < length s" "length r2 < length r1"
    using "4.IH"(1) [OF x] skip_ws_Cons_length [OF c] by auto
  then show ?case using "4.prems" "4.IH"(2) [OF x refl c] x c
    by (fastforce split: if_splits)
next
  case (6 f s)
  then obtain cs where q: "skip_ws s = CHR 0x22 # cs"
    by (cases "skip_ws s") (auto split: if_splits)
  with 6 obtain k r1 where k: "parse_str cs = Some (k, r1)"
    by (cases "parse_str cs") auto
  with 6 q obtain r2 where col: "skip_ws r1 = CHR '':'' # r2"
    by (cases "skip_ws r1") (auto split: if_splits)
  with 6 q k obtain x r3 where x: "parse_value f r2 = Some (x, r3)"
    by (cases "parse_value f r2") auto
  with 6 q k col obtain c r4 where c: "skip_ws r3 = c # r4"
    by (cases "skip_ws r3") auto
  have "length cs < length s" "length r1 < length cs" "length r2 < length r1"
      "length r4 < length r3"
    using skip_ws_Cons_length q parse_str_length k col c by blast+
  moreover have "length r3 < length r2"
    using "6.IH"(1) [OF q _ k refl col _ x] by simp
  ultimately show ?case using "6.prems" "6.IH"(2) [OF q _ k refl col _ x refl c] q k col x c
    by (fastforce split: if_splits)
qed auto

text \<open>With enough fuel, more fuel changes nothing.\<close>

lemma parse_more_fuel:
  "(\<forall>s. 2 * length s + 1 \<le> f \<longrightarrow> parse_value (Suc f) s = parse_value f s) \<and>
   (\<forall>s. 2 * length s + 2 \<le> f \<longrightarrow> parse_elems (Suc f) s = parse_elems f s) \<and>
   (\<forall>s. 2 * length s + 2 \<le> f \<longrightarrow> parse_members (Suc f) s = parse_members f s)"
proof (induction f)
  case (Suc f)
  then have V: "2 * length s + 1 \<le> f \<Longrightarrow> parse_value (Suc f) s = parse_value f s"
    and E: "2 * length s + 2 \<le> f \<Longrightarrow> parse_elems (Suc f) s = parse_elems f s"
    and M: "2 * length s + 2 \<le> f \<Longrightarrow> parse_members (Suc f) s = parse_members f s" for s
    by blast+
  have "parse_value (Suc (Suc f)) s = parse_value (Suc f) s" if f: "2 * length s + 1 \<le> Suc f" for s
  proof (cases "skip_ws s")
    case (Cons c cs)
    with skip_ws_Cons_length [OF this] f E [of cs] M [of cs] show ?thesis
      by (simp only: parse_value.simps(2) [of f s] parse_value.simps(2) [of "Suc f" s] list.case)
  qed simp
  moreover have "parse_elems (Suc (Suc f)) s = parse_elems (Suc f) s"
    if f: "2 * length s + 2 \<le> Suc f" for s
  proof (cases "parse_value f s")
    case (Some p)
    obtain x r where p: "p = (x, r)" by (cases p)
    have "parse_elems (Suc f) r' = parse_elems f r'" if "skip_ws r = c # r'" for c r'
      using f parse_length(1) [of f s x r] skip_ws_Cons_length [OF that] Some p by (intro E) simp
    then show ?thesis using Some V [of s] f p
      by (simp only: parse_elems.simps(2) [of f s] parse_elems.simps(2) [of "Suc f" s])
        (simp split: list.split)
  next
    case None
    then show ?thesis using V [of s] f
      by (simp only: parse_elems.simps(2) [of f s] parse_elems.simps(2) [of "Suc f" s]) simp
  qed
  moreover have "parse_members (Suc (Suc f)) s = parse_members (Suc f) s"
    if f: "2 * length s + 2 \<le> Suc f" for s
  proof -
    have V': "parse_value (Suc f) r2 = parse_value f r2"
      if "skip_ws s = c # cs" "parse_str cs = Some (k, r1)" "skip_ws r1 = d # r2" for c cs k r1 d r2
      using f skip_ws_Cons_length [OF that(1)] parse_str_length [OF that(2)]
        skip_ws_Cons_length [OF that(3)] by (intro V) simp
    have M': "parse_members (Suc f) r4 = parse_members f r4"
      if "skip_ws s = c # cs" "parse_str cs = Some (k, r1)" "skip_ws r1 = d # r2"
        "parse_value f r2 = Some (x, r3)" "skip_ws r3 = e # r4" for c cs k r1 d r2 x r3 e r4
      using f skip_ws_Cons_length [OF that(1)] parse_str_length [OF that(2)]
        skip_ws_Cons_length [OF that(3)] parse_length(1) [OF that(4)]
        skip_ws_Cons_length [OF that(5)] by (intro M) simp
    show ?thesis
      by (simp only: parse_members.simps(2) [of f s] parse_members.simps(2) [of "Suc f" s])
        (auto split: list.split option.split simp: V' M' simp del: parse_value.simps parse_members.simps)
  qed
  ultimately show ?case by blast
qed simp

lemma parse_fuel_enough:
  assumes "parse_fuel s \<le> f"
  shows "parse_value f s = parse_value (parse_fuel s) s"
  using assms
proof (induction f rule: dec_induct)
  case (step f)
  then show ?case using parse_more_fuel [of f] by (simp add: parse_fuel_def)
qed simp

end
