(* ===== verification/Nat_Mapping.thy ===== *)
theory Nat_Mapping
  imports Go_Json
begin

text \<open>
  The NAT mapping (\<open>internal/netbox/types.go\<close>), the currency of the whole program,
  and its stored form: the JSON that \<open>encodeMappings\<close> and \<open>decodeMappings\<close> of
  \<open>internal/reconciler/backup.go\<close> write and read.
\<close>

section \<open>Mappings\<close>

record NATMapping =
  ExternalIP :: Addr
  InternalIP :: Addr
  VMProxmoxVMID :: int
  VMName :: string

definition zero_mapping :: NATMapping where
  "zero_mapping =
     \<lparr>ExternalIP = InvalidAddr, InternalIP = InvalidAddr, VMProxmoxVMID = 0, VMName = []\<rparr>"

section \<open>Encoding\<close>

text \<open>The fields in declaration order, under their Go names.\<close>

definition json_of_mapping :: "NATMapping \<Rightarrow> json" where
  "json_of_mapping m =
     JObj [(''ExternalIP'', JStr (MarshalText (ExternalIP m))),
           (''InternalIP'', JStr (MarshalText (InternalIP m))),
           (''VMProxmoxVMID'', JNum (Itoa (VMProxmoxVMID m))),
           (''VMName'', JStr (VMName m))]"

text \<open>A lone mapping is stored as an object, any other number as an array.\<close>

definition encodeMappings :: "NATMapping list \<Rightarrow> string" where
  "encodeMappings mappings =
     MarshalIndent (case mappings of [m] \<Rightarrow> json_of_mapping m
                                   | _ \<Rightarrow> JArr (map json_of_mapping mappings))
       @ [CHR 0x0A]"

section \<open>Decoding\<close>

text \<open>
  Decoding one member into a mapping: an unknown key is skipped, a key that names a field
  up to letter case sets it, \<open>null\<close> leaves the field as it is, and a value of the wrong
  kind (or an address or number that does not parse) is an error.
\<close>

definition decode_addr :: "json \<Rightarrow> Addr \<Rightarrow> Addr option" where
  "decode_addr j old =
     (case j of JNull \<Rightarrow> Some old | JStr s \<Rightarrow> UnmarshalText s | _ \<Rightarrow> None)"

definition decode_int :: "json \<Rightarrow> int \<Rightarrow> int option" where
  "decode_int j old =
     (case j of JNull \<Rightarrow> Some old | JNum l \<Rightarrow> Atoi l | _ \<Rightarrow> None)"

definition decode_string :: "json \<Rightarrow> string \<Rightarrow> string option" where
  "decode_string j old =
     (case j of JNull \<Rightarrow> Some old | JStr s \<Rightarrow> Some s | _ \<Rightarrow> None)"

definition decode_member :: "string \<times> json \<Rightarrow> NATMapping \<Rightarrow> NATMapping option" where
  "decode_member kj m =
     (case kj of (k, j) \<Rightarrow>
        if EqualFold k ''ExternalIP'' then
          map_option (\<lambda>a. m\<lparr>ExternalIP := a\<rparr>) (decode_addr j (ExternalIP m))
        else if EqualFold k ''InternalIP'' then
          map_option (\<lambda>a. m\<lparr>InternalIP := a\<rparr>) (decode_addr j (InternalIP m))
        else if EqualFold k ''VMProxmoxVMID'' then
          map_option (\<lambda>n. m\<lparr>VMProxmoxVMID := n\<rparr>) (decode_int j (VMProxmoxVMID m))
        else if EqualFold k ''VMName'' then
          map_option (\<lambda>s. m\<lparr>VMName := s\<rparr>) (decode_string j (VMName m))
        else Some m)"

fun decode_members :: "(string \<times> json) list \<Rightarrow> NATMapping \<Rightarrow> NATMapping option" where
  "decode_members [] m = Some m"
| "decode_members (kj # ms) m = Option.bind (decode_member kj m) (decode_members ms)"

definition decode_mapping :: "json \<Rightarrow> NATMapping option" where
  "decode_mapping j =
     (case j of JNull \<Rightarrow> Some zero_mapping
              | JObj ms \<Rightarrow> decode_members ms zero_mapping
              | _ \<Rightarrow> None)"

definition decode_mapping_list :: "json \<Rightarrow> NATMapping list option" where
  "decode_mapping_list j =
     (case j of JNull \<Rightarrow> Some []
              | JArr xs \<Rightarrow> those (map decode_mapping xs)
              | _ \<Rightarrow> None)"

text \<open>An array of mappings first, then a single mapping, else an error.\<close>

definition decodeMappings :: "string \<Rightarrow> NATMapping list option" where
  "decodeMappings data =
     (case json_parse data of
        None \<Rightarrow> None
      | Some j \<Rightarrow>
          (case decode_mapping_list j of
             Some ms \<Rightarrow> Some ms
           | None \<Rightarrow> map_option (\<lambda>m. [m]) (decode_mapping j)))"

section \<open>The round trip\<close>

text \<open>
  A mapping that survives storage: IPv4 addresses, a VMID that is a Go \<open>int\<close>, and a
  name that is UTF-8.
\<close>

definition storable :: "NATMapping \<Rightarrow> bool" where
  "storable m \<longleftrightarrow> Is4 (ExternalIP m) \<and> Is4 (InternalIP m) \<and> in_int64 (VMProxmoxVMID m) \<and>
     valid_utf8 (VMName m)"

lemma valid_utf8_ascii: "\<forall>c \<in> set s. code c < 128 \<Longrightarrow> valid_utf8 s"
  by (induction s) (simp_all add: valid_utf8.simps)

lemma MarshalText_ascii: "Is4 a \<Longrightarrow> valid_utf8 (MarshalText a)"
proof (cases a)
  case (V4 b c d e)
  have "\<forall>x \<in> set (dec n). code x < 128" for n
    using dec_digits [of n] by (auto simp: list_all_iff is_digit_def)
  then show ?thesis
    using V4 by (intro valid_utf8_ascii) (auto simp: MarshalText_def string4_def)
qed auto

lemma decode_json_of_mapping: "storable m \<Longrightarrow> decode_mapping (json_of_mapping m) = Some m"
  by (simp add: json_of_mapping_def decode_mapping_def decode_member_def decode_addr_def
      decode_int_def decode_string_def storable_def EqualFold_def to_lower_def zero_mapping_def
      UnmarshalText_MarshalText Atoi_Itoa)

lemma decode_list_object: "decode_mapping_list (json_of_mapping m) = None"
  by (simp add: decode_mapping_list_def json_of_mapping_def)

lemma wf_json_of_mapping: "storable m \<Longrightarrow> wf_json (json_of_mapping m)"
  by (auto simp: json_of_mapping_def storable_def MarshalText_ascii intro!: valid_utf8_ascii)

lemma those_map_Some: "\<forall>x \<in> set xs. f (g x) = Some x \<Longrightarrow> those (map f (map g xs)) = Some xs"
  by (induction xs) auto

lemma json_parse_encoded:
  assumes "wf_json j"
  shows "json_parse (MarshalIndent j @ [CHR 0x0A]) = Some j"
  using assms by (rule json_parse_MarshalIndent) (simp add: is_ws_def)

lemma decode_encode:
  assumes "\<forall>m \<in> set ms. storable m"
  shows "decodeMappings (encodeMappings ms) = Some ms"
proof (cases "\<exists>m. ms = [m]")
  case True
  then obtain m where m: "ms = [m]" by blast
  with assms have "storable m" by simp
  then have "decodeMappings (encodeMappings ms) =
      (case decode_mapping_list (json_of_mapping m) of Some ms \<Rightarrow> Some ms
         | None \<Rightarrow> map_option (\<lambda>m. [m]) (decode_mapping (json_of_mapping m)))"
    by (simp add: m encodeMappings_def decodeMappings_def json_parse_encoded wf_json_of_mapping)
  also have "\<dots> = Some ms"
    using \<open>storable m\<close> m by (simp add: decode_json_of_mapping decode_list_object)
  finally show ?thesis .
next
  case False
  let ?j = "JArr (map json_of_mapping ms)"
  have e: "encodeMappings ms = MarshalIndent ?j @ [CHR 0x0A]"
    using False by (auto simp: encodeMappings_def split: list.split)
  have "wf_json ?j" using assms by (auto simp: wf_json_of_mapping)
  moreover have "decode_mapping_list ?j = Some ms"
    using assms by (simp only: decode_mapping_list_def json.case)
      (rule those_map_Some, simp add: decode_json_of_mapping)
  ultimately show ?thesis by (simp add: e decodeMappings_def json_parse_encoded)
qed

lemma encodeMappings_nonempty: "encodeMappings ms \<noteq> []"
  by (simp add: encodeMappings_def)

end
