(* ===== verification/Frr.thy ===== *)
theory Frr
  imports Nat_Mapping
begin

text \<open>
  The loopback manager, \<open>internal/frr/manager.go\<close>: the addresses that back the BGP
  announcements. The \<open>ip\<close> and \<open>vtysh\<close> commands are a parameter: a function from the
  command line and the state of the host to the output, whether the command failed, and
  the new state. The interface the reconciler relies on (\<open>frrManager\<close> of
  \<open>reconciler.go\<close>) is the locale \<open>loopback\<close>; the manager provides it over any host
  whose \<open>ip\<close> command behaves as documented.
\<close>

section \<open>Commands\<close>

type_synonym 'w exec = "string list \<Rightarrow> 'w \<Rightarrow> (string \<times> bool) \<times> 'w"

record Manager =
  enabled :: bool
  loIface :: string

definition New_Frr :: "bool \<Rightarrow> string \<Rightarrow> Manager" where
  "New_Frr en lo = \<lparr>enabled = en, loIface = lo\<rparr>"

definition isAlreadyExists :: "string \<Rightarrow> bool" where
  "isAlreadyExists out \<longleftrightarrow>
     Contains out ''File exists'' \<or> Contains out ''RTNETLINK answers: File exists''"

definition isNoSuchProcess :: "string \<Rightarrow> bool" where
  "isNoSuchProcess out \<longleftrightarrow>
     Contains out ''No such process'' \<or> Contains out ''RTNETLINK answers: No such process''"

definition isAddrNotAssigned :: "string \<Rightarrow> bool" where
  "isAddrNotAssigned out \<longleftrightarrow>
     Contains out ''Cannot assign requested address''
     \<or> Contains out ''RTNETLINK answers: Cannot assign requested address''"

definition Advertise ::
  "'w exec \<Rightarrow> Manager \<Rightarrow> Addr \<Rightarrow> 'w \<Rightarrow> gerror option \<times> 'w" where
  "Advertise exec m extIP w =
     (if \<not> enabled m then (None, w)
      else
        let addr = Addr_String extIP @ ''/32'';
            ((out, failed), w') = exec [''ip'', ''addr'', ''add'', addr, ''dev'', loIface m] w
        in if failed then
             (if isAlreadyExists out then (None, w')
              else (Some (Errorf (''ip addr add '' @ addr)), w'))
           else (None, w'))"

definition Withdraw ::
  "'w exec \<Rightarrow> Manager \<Rightarrow> Addr \<Rightarrow> 'w \<Rightarrow> gerror option \<times> 'w" where
  "Withdraw exec m extIP w =
     (if \<not> enabled m then (None, w)
      else
        let addr = Addr_String extIP @ ''/32'';
            ((out, failed), w') = exec [''ip'', ''addr'', ''del'', addr, ''dev'', loIface m] w
        in if failed then
             (if isNoSuchProcess out \<or> isAddrNotAssigned out then (None, w')
              else (Some (Errorf (''ip addr del '' @ addr)), w'))
           else (None, w'))"

section \<open>Redistribution\<close>

definition parseRedistribution :: "string \<Rightarrow> bool" where
  "parseRedistribution config \<longleftrightarrow>
     fold (\<lambda>line r. let fields = Fields line in
             if length fields < 2 \<or> fields ! 0 \<noteq> ''redistribute'' then r
             else if fields ! 1 = ''connected'' then True else r)
       (Split (CHR 0x0A) config) False"

definition CheckRedistribution :: "'w exec \<Rightarrow> 'w \<Rightarrow> (gerror + bool) \<times> 'w" where
  "CheckRedistribution exec w =
     (let ((out, failed), w') = exec [''vtysh'', ''-c'', ''show running-config''] w
      in (if failed then Inl (Errorf ''vtysh -c show running-config'')
          else Inr (parseRedistribution out), w'))"

section \<open>Reading the kernel back\<close>

record ipAddrInfo =
  Family :: string
  Local :: string
  PrefixLen :: int

record ipAddrEntry =
  IFName :: string
  AddrInfo :: "ipAddrInfo list"

text \<open>Decoding an object into a struct, member by member, and an array into a slice.\<close>

fun decode_fields :: "(string \<times> json \<Rightarrow> 'r \<Rightarrow> 'r option) \<Rightarrow> (string \<times> json) list \<Rightarrow> 'r \<Rightarrow> 'r option"
where
  "decode_fields f [] r = Some r"
| "decode_fields f (kj # ms) r = Option.bind (f kj r) (decode_fields f ms)"

definition decode_struct ::
  "(string \<times> json \<Rightarrow> 'r \<Rightarrow> 'r option) \<Rightarrow> 'r \<Rightarrow> json \<Rightarrow> 'r option" where
  "decode_struct f zero j =
     (case j of JNull \<Rightarrow> Some zero | JObj ms \<Rightarrow> decode_fields f ms zero | _ \<Rightarrow> None)"

definition decode_array :: "(json \<Rightarrow> 'r option) \<Rightarrow> json \<Rightarrow> 'r list option" where
  "decode_array f j =
     (case j of JNull \<Rightarrow> Some [] | JArr xs \<Rightarrow> those (map f xs) | _ \<Rightarrow> None)"

definition info_field :: "string \<times> json \<Rightarrow> ipAddrInfo \<Rightarrow> ipAddrInfo option" where
  "info_field kj i =
     (case kj of (k, j) \<Rightarrow>
        if EqualFold k ''family'' then map_option (\<lambda>s. i\<lparr>Family := s\<rparr>) (decode_string j (Family i))
        else if EqualFold k ''local'' then map_option (\<lambda>s. i\<lparr>Local := s\<rparr>) (decode_string j (Local i))
        else if EqualFold k ''prefixlen'' then
          map_option (\<lambda>n. i\<lparr>PrefixLen := n\<rparr>) (decode_int j (PrefixLen i))
        else Some i)"

definition entry_field :: "string \<times> json \<Rightarrow> ipAddrEntry \<Rightarrow> ipAddrEntry option" where
  "entry_field kj e =
     (case kj of (k, j) \<Rightarrow>
        if EqualFold k ''ifname'' then map_option (\<lambda>s. e\<lparr>IFName := s\<rparr>) (decode_string j (IFName e))
        else if EqualFold k ''addr_info'' then
          map_option (\<lambda>infos. e\<lparr>AddrInfo := infos\<rparr>)
            (decode_array (decode_struct info_field \<lparr>Family = [], Local = [], PrefixLen = 0\<rparr>) j)
        else Some e)"

definition decode_entries :: "string \<Rightarrow> ipAddrEntry list option" where
  "decode_entries out =
     Option.bind (json_parse out) (decode_array (decode_struct entry_field \<lparr>IFName = [], AddrInfo = []\<rparr>))"

definition info_addr :: "ipAddrInfo \<Rightarrow> Addr option" where
  "info_addr info =
     (if PrefixLen info \<noteq> 32 then None
      else case ParseAddr (Local info) of
             None \<Rightarrow> None
           | Some addr \<Rightarrow> if IsLoopback addr then None else Some addr)"

definition entries_addrs :: "ipAddrEntry list \<Rightarrow> Addr list" where
  "entries_addrs entries = remdups (List.map_filter info_addr (concat (map AddrInfo entries)))"

definition ActiveIPs :: "'w exec \<Rightarrow> Manager \<Rightarrow> 'w \<Rightarrow> (gerror + Addr list) \<times> 'w" where
  "ActiveIPs exec m w =
     (if \<not> enabled m then (Inr [], w)
      else
        let ((out, failed), w') =
              exec [''ip'', ''-j'', ''-4'', ''addr'', ''show'', ''dev'', loIface m] w
        in if failed then (Inl (Errorf ''ip -j -4 addr show''), w')
           else case decode_entries out of
                  None \<Rightarrow> (Inl (Errorf ''parsing ip addr JSON''), w')
                | Some entries \<Rightarrow> (Inr (entries_addrs entries), w'))"

section \<open>The interface to the reconciler\<close>

text \<open>
  \<open>addrs w\<close> is the set of IPv4 addresses with a 32-bit prefix on the loopback
  interface; \<open>ok\<close> is what the provider needs of the host.
\<close>

locale loopback =
  fixes ok :: "'w \<Rightarrow> bool"
    and addrs :: "'w \<Rightarrow> Addr set"
    and advertise :: "Addr \<Rightarrow> 'w \<Rightarrow> gerror option \<times> 'w"
    and withdraw :: "Addr \<Rightarrow> 'w \<Rightarrow> gerror option \<times> 'w"
    and active :: "'w \<Rightarrow> (gerror + Addr list) \<times> 'w"
  assumes advertise: "ok w \<Longrightarrow> Is4 ip \<Longrightarrow> advertise ip w = (err, w') \<Longrightarrow>
      ok w' \<and> addrs w' = (if err = None then insert ip (addrs w) else addrs w)"
    and withdraw: "ok w \<Longrightarrow> Is4 ip \<Longrightarrow> withdraw ip w = (err, w') \<Longrightarrow>
      ok w' \<and> addrs w' = (if err = None then addrs w - {ip} else addrs w)"
    and active: "ok w \<Longrightarrow> active w = (res, w') \<Longrightarrow>
      ok w' \<and> addrs w' = addrs w \<and>
      (\<forall>ips. res = Inr ips \<longrightarrow> distinct ips \<and> set ips = {a \<in> addrs w. \<not> IsLoopback a})"

text \<open>
  The documented behaviour of \<open>ip addr\<close> on the interface: adding and deleting fail
  without effect, and fail with these messages only if there is nothing to do; the listing
  names the addresses.
\<close>

definition ip_add_ok :: "'w exec \<Rightarrow> string \<Rightarrow> ('w \<Rightarrow> Addr set) \<Rightarrow> bool" where
  "ip_add_ok exec lo addrs \<longleftrightarrow>
     (\<forall>w ip out failed w'. Is4 ip \<longrightarrow>
        exec [''ip'', ''addr'', ''add'', Addr_String ip @ ''/32'', ''dev'', lo] w = ((out, failed), w') \<longrightarrow>
        (if failed then addrs w' = addrs w \<and> (Contains out ''File exists'' \<longrightarrow> ip \<in> addrs w)
         else addrs w' = insert ip (addrs w)))"

definition ip_del_ok :: "'w exec \<Rightarrow> string \<Rightarrow> ('w \<Rightarrow> Addr set) \<Rightarrow> bool" where
  "ip_del_ok exec lo addrs \<longleftrightarrow>
     (\<forall>w ip out failed w'. Is4 ip \<longrightarrow>
        exec [''ip'', ''addr'', ''del'', Addr_String ip @ ''/32'', ''dev'', lo] w = ((out, failed), w') \<longrightarrow>
        (if failed then addrs w' = addrs w \<and>
           (Contains out ''No such process'' \<or> Contains out ''Cannot assign requested address''
            \<longrightarrow> ip \<notin> addrs w)
         else addrs w' = addrs w - {ip}))"

definition listed :: "ipAddrEntry list \<Rightarrow> Addr set" where
  "listed entries =
     {a. \<exists>e \<in> set entries. \<exists>i \<in> set (AddrInfo e). PrefixLen i = 32 \<and> ParseAddr (Local i) = Some a}"

definition ip_show_ok :: "'w exec \<Rightarrow> string \<Rightarrow> ('w \<Rightarrow> Addr set) \<Rightarrow> bool" where
  "ip_show_ok exec lo addrs \<longleftrightarrow>
     (\<forall>w out failed w'.
        exec [''ip'', ''-j'', ''-4'', ''addr'', ''show'', ''dev'', lo] w = ((out, failed), w') \<longrightarrow>
        addrs w' = addrs w \<and>
        (\<forall>entries. \<not> failed \<and> decode_entries out = Some entries \<longrightarrow> listed entries = addrs w))"

definition ip_tool :: "'w exec \<Rightarrow> string \<Rightarrow> ('w \<Rightarrow> Addr set) \<Rightarrow> bool" where
  "ip_tool exec lo addrs \<longleftrightarrow>
     ip_add_ok exec lo addrs \<and> ip_del_ok exec lo addrs \<and> ip_show_ok exec lo addrs"

lemma Contains_iff: "Contains s p \<longleftrightarrow> (\<exists>u v. s = u @ p @ v)"
proof (induction s)
  case (Cons c s)
  have "(\<exists>u v. c # s = u @ p @ v) \<longleftrightarrow> (\<exists>v. c # s = p @ v) \<or> (\<exists>u v. s = u @ p @ v)"
    by (auto simp: Cons_eq_append_conv)
  then show ?case by (auto simp: Cons HasPrefix_iff prefix_def)
qed auto

lemma Contains_append: "Contains s (p @ q) \<Longrightarrow> Contains s q"
  by (auto simp: Contains_iff) (metis append_assoc)

lemma isAlreadyExists_iff: "isAlreadyExists out \<longleftrightarrow> Contains out ''File exists''"
  using Contains_append [of out "''RTNETLINK answers: ''" "''File exists''"]
  by (auto simp: isAlreadyExists_def)

lemma isNoSuchProcess_iff: "isNoSuchProcess out \<longleftrightarrow> Contains out ''No such process''"
  using Contains_append [of out "''RTNETLINK answers: ''" "''No such process''"]
  by (auto simp: isNoSuchProcess_def)

lemma isAddrNotAssigned_iff:
  "isAddrNotAssigned out \<longleftrightarrow> Contains out ''Cannot assign requested address''"
  using Contains_append [of out "''RTNETLINK answers: ''" "''Cannot assign requested address''"]
  by (auto simp: isAddrNotAssigned_def)

lemmas tool_messages = isAlreadyExists_iff isNoSuchProcess_iff isAddrNotAssigned_iff

lemma set_map_filter: "set (List.map_filter f xs) = {y. \<exists>x \<in> set xs. f x = Some y}"
  by (force simp: List.map_filter_def)

lemma entries_addrs_set: "set (entries_addrs es) = {a \<in> listed es. \<not> IsLoopback a}"
proof -
  have "info_addr i = Some a \<longleftrightarrow> PrefixLen i = 32 \<and> ParseAddr (Local i) = Some a \<and> \<not> IsLoopback a"
    for i a
    by (auto simp: info_addr_def split: option.splits)
  then show ?thesis by (auto simp: entries_addrs_def set_map_filter listed_def)
qed

lemma Advertise_spec:
  assumes tool: "ip_add_ok exec (loIface m) addrs" and "enabled m" "Is4 ip"
    and call: "Advertise exec m ip w = (err, w')"
  shows "addrs w' = (if err = None then insert ip (addrs w) else addrs w)"
proof -
  obtain out failed w1 where
    e: "exec [''ip'', ''addr'', ''add'', Addr_String ip @ ''/32'', ''dev'', loIface m] w = ((out, failed), w1)"
    by (metis prod.exhaust)
  note tool [unfolded ip_add_ok_def, rule_format, OF \<open>Is4 ip\<close> e]
  moreover have "w' = w1" "err = None \<longleftrightarrow> \<not> failed \<or> Contains out ''File exists''"
    using call unfolding Advertise_def Let_def e prod.case isAlreadyExists_iff
    by (auto simp: assms(2) split: if_splits)
  ultimately show ?thesis by (auto split: if_splits)
qed

lemma Withdraw_spec:
  assumes tool: "ip_del_ok exec (loIface m) addrs" and "enabled m" "Is4 ip"
    and call: "Withdraw exec m ip w = (err, w')"
  shows "addrs w' = (if err = None then addrs w - {ip} else addrs w)"
proof -
  obtain out failed w1 where
    e: "exec [''ip'', ''addr'', ''del'', Addr_String ip @ ''/32'', ''dev'', loIface m] w = ((out, failed), w1)"
    by (metis prod.exhaust)
  note tool [unfolded ip_del_ok_def, rule_format, OF \<open>Is4 ip\<close> e]
  moreover have "w' = w1" "err = None \<longleftrightarrow> \<not> failed \<or>
      Contains out ''No such process'' \<or> Contains out ''Cannot assign requested address''"
    using call unfolding Withdraw_def Let_def e prod.case tool_messages
    by (auto simp: assms(2) split: if_splits)
  ultimately show ?thesis by (auto split: if_splits)
qed

lemma ActiveIPs_spec:
  assumes tool: "ip_show_ok exec (loIface m) addrs" and "enabled m"
    and call: "ActiveIPs exec m w = (res, w')"
  shows "addrs w' = addrs w \<and>
    (\<forall>ips. res = Inr ips \<longrightarrow> distinct ips \<and> set ips = {a \<in> addrs w. \<not> IsLoopback a})"
proof -
  obtain out failed w1 where
    e: "exec [''ip'', ''-j'', ''-4'', ''addr'', ''show'', ''dev'', loIface m] w = ((out, failed), w1)"
    by (metis prod.exhaust)
  note tool [unfolded ip_show_ok_def, rule_format, OF e]
  moreover have "w' = w1" and
    "\<And>ips. res = Inr ips \<Longrightarrow> \<exists>es. \<not> failed \<and> decode_entries out = Some es \<and> ips = entries_addrs es"
    using call unfolding ActiveIPs_def Let_def e prod.case
    by (auto simp: assms(2) split: if_splits option.splits)
  ultimately show ?thesis using entries_addrs_set by (auto simp: entries_addrs_def)
qed

definition frr_host :: "'w exec \<Rightarrow> Manager \<Rightarrow> ('w \<Rightarrow> Addr set) \<Rightarrow> bool" where
  "frr_host exec m addrs \<longleftrightarrow> enabled m \<and> ip_tool exec (loIface m) addrs"

interpretation frr: loopback "\<lambda>_. frr_host exec m addrs" addrs "Advertise exec m" "Withdraw exec m"
  "ActiveIPs exec m" for exec m addrs
proof unfold_locales
  fix ip w err w' res
  assume host: "frr_host exec m addrs"
  then have "enabled m" and add: "ip_add_ok exec (loIface m) addrs"
    and del: "ip_del_ok exec (loIface m) addrs" and list: "ip_show_ok exec (loIface m) addrs"
    by (simp_all add: frr_host_def ip_tool_def)
  show "frr_host exec m addrs \<and> addrs w' = (if err = None then insert ip (addrs w) else addrs w)"
    if "Is4 ip" "Advertise exec m ip w = (err, w')"
    using Advertise_spec [OF add \<open>enabled m\<close> that] host by (rule conjI [rotated])
  show "frr_host exec m addrs \<and> addrs w' = (if err = None then addrs w - {ip} else addrs w)"
    if "Is4 ip" "Withdraw exec m ip w = (err, w')"
    using Withdraw_spec [OF del \<open>enabled m\<close> that] host by (rule conjI [rotated])
  show "frr_host exec m addrs \<and> addrs w' = addrs w \<and>
      (\<forall>ips. res = Inr ips \<longrightarrow> distinct ips \<and> set ips = {a \<in> addrs w. \<not> IsLoopback a})"
    if "ActiveIPs exec m w = (res, w')"
    using ActiveIPs_spec [OF list \<open>enabled m\<close> that] host by (rule conjI [rotated])
qed

lemma disabled_manager:
  "\<not> enabled m \<Longrightarrow> Advertise exec m ip w = (None, w) \<and> Withdraw exec m ip w = (None, w) \<and>
   ActiveIPs exec m w = (Inr [], w)"
  by (simp add: Advertise_def Withdraw_def ActiveIPs_def)

section \<open>Properties\<close>

text \<open>
  The check of the bgpd configuration reports redistribution exactly if some line of it, with
  whatever indentation and spacing and whatever follows, is \<open>redistribute connected\<close>.
\<close>

theorem parseRedistribution_iff:
  "parseRedistribution config \<longleftrightarrow>
     (\<exists>line \<in> set (Split (CHR 0x0A) config). \<exists>rest.
        Fields line = ''redistribute'' # ''connected'' # rest)"
proof -
  have hit: "\<not> (length fs < 2 \<or> fs ! 0 \<noteq> a) \<and> fs ! 1 = b \<longleftrightarrow> (\<exists>rest. fs = a # b # rest)"
    for fs :: "string list" and a b
    by (cases fs rule: remdups_adj.cases) auto
  have "fold (\<lambda>line r. if P line then r else if Q line then True else r) ls r \<longleftrightarrow>
        r \<or> (\<exists>line \<in> set ls. \<not> P line \<and> Q line)" for P Q and ls :: "string list" and r
    by (induction ls arbitrary: r) auto
  then show ?thesis by (simp only: parseRedistribution_def Let_def hit simp_thms)
qed

end
