(* ===== verification/Nftables.thy ===== *)
theory Nftables
  imports Nat_Mapping
begin

text \<open>
  The nftables manager, \<open>internal/nftables/manager.go\<close>: the ruleset text that its
  template renders, and loading it with \<open>nft -f\<close>. The temporary file and the command are
  parameters: the outcome of each step of writing the file, and what \<open>nft\<close> does with a
  file of the given contents.
\<close>

section \<open>Rendering\<close>

definition tableName :: string where "tableName = ''network-reconciler''"

record ruleEntry =
  ExternalIP_str :: string
  InternalIP_str :: string

definition rule_entry :: "NATMapping \<Rightarrow> ruleEntry" where
  "rule_entry m = \<lparr>ExternalIP_str = Addr_String (ExternalIP m), InternalIP_str = Addr_String (InternalIP m)\<rparr>"

definition line :: "string \<Rightarrow> string" where
  "line s = s @ [CHR 0x0A]"

definition dnat_line :: "ruleEntry \<Rightarrow> string" where
  "dnat_line e = line (''        ip daddr '' @ ExternalIP_str e @ '' dnat to '' @ InternalIP_str e)"

definition snat_line :: "ruleEntry \<Rightarrow> string" where
  "snat_line e = line (''        ip saddr '' @ InternalIP_str e @ '' snat to '' @ ExternalIP_str e)"

definition render_entries :: "ruleEntry list \<Rightarrow> string" where
  "render_entries rules =
     line (''add table inet '' @ tableName) @
     line (''flush table inet '' @ tableName) @
     line (''table inet '' @ tableName @ '' {'') @
     line (''    chain prerouting {'') @
     line (''        type nat hook prerouting priority dstnat; policy accept;'') @
     concat (map dnat_line rules) @
     line (''    }'') @
     line (''    chain postrouting {'') @
     line (''        type nat hook postrouting priority srcnat; policy accept;'') @
     concat (map snat_line rules) @
     line (''    }'') @
     line (''}'')"

definition render :: "NATMapping list \<Rightarrow> string" where
  "render mappings = render_entries (map rule_entry mappings)"

section \<open>Loading\<close>

text \<open>
  The host: which step of writing the temporary file fails, if any; \<open>nft -f\<close> on a file
  with the given contents; and \<open>nft\<close> with plain arguments. The commands return the
  output, whether they failed, and the new state.
\<close>

datatype temp_outcome = TempOk | TempCreateErr | TempWriteErr | TempCloseErr

record 'w nft_host =
  temp_file :: "'w \<Rightarrow> temp_outcome"
  nft_file :: "string \<Rightarrow> 'w \<Rightarrow> (string \<times> bool) \<times> 'w"
  nft_args :: "string list \<Rightarrow> 'w \<Rightarrow> (string \<times> bool) \<times> 'w"

definition Apply :: "'w nft_host \<Rightarrow> NATMapping list \<Rightarrow> 'w \<Rightarrow> gerror option \<times> 'w" where
  "Apply h mappings w =
     (let rules = render mappings
      in case temp_file h w of
           TempCreateErr \<Rightarrow> (Some (Errorf ''creating temp rules file''), w)
         | TempWriteErr \<Rightarrow> (Some (Errorf ''writing nft rules to temp file''), w)
         | TempCloseErr \<Rightarrow> (Some (Errorf ''closing temp rules file''), w)
         | TempOk \<Rightarrow>
             (let ((out, failed), w') = nft_file h rules w
              in (if failed then Some (Errorf ''nft -f failed'') else None, w')))"

definition Flush :: "'w nft_host \<Rightarrow> 'w \<Rightarrow> gerror option \<times> 'w" where
  "Flush h w =
     (let ((out, failed), w') = nft_args h [''delete'', ''table'', ''inet'', tableName] w
      in if failed then
           (if Contains out ''No such file'' \<or> Contains out ''No such table''
               \<or> Contains out ''No such base chain'' then (None, w')
            else (Some (Errorf ''nft delete table inet''), w'))
         else (None, w'))"

section \<open>The interface to the reconciler\<close>

text \<open>\<open>table w\<close> is the text the managed table was last loaded from, if it exists.\<close>

locale ruleset_manager =
  fixes ok :: "'w \<Rightarrow> bool"
    and table :: "'w \<Rightarrow> string option"
    and apply_rules :: "NATMapping list \<Rightarrow> 'w \<Rightarrow> gerror option \<times> 'w"
    and flush_rules :: "'w \<Rightarrow> gerror option \<times> 'w"
  assumes apply_rules: "ok w \<Longrightarrow> apply_rules ms w = (err, w') \<Longrightarrow>
      ok w' \<and> table w' = (if err = None then Some (render ms) else table w)"
    and flush_rules: "ok w \<Longrightarrow> flush_rules w = (err, w') \<Longrightarrow>
      ok w' \<and> table w' = (if err = None then None else table w)"

text \<open>
  The documented behaviour of \<open>nft\<close>: a file is one transaction, and a rendered file
  replaces the table, which it flushes first; deleting the table fails with these messages
  only if there is no table.
\<close>

definition nft_file_ok :: "'w nft_host \<Rightarrow> ('w \<Rightarrow> string option) \<Rightarrow> bool" where
  "nft_file_ok h table \<longleftrightarrow>
     (\<forall>w ms out failed w'. nft_file h (render ms) w = ((out, failed), w') \<longrightarrow>
        table w' = (if failed then table w else Some (render ms)))"

definition nft_delete_ok :: "'w nft_host \<Rightarrow> ('w \<Rightarrow> string option) \<Rightarrow> bool" where
  "nft_delete_ok h table \<longleftrightarrow>
     (\<forall>w out failed w'.
        nft_args h [''delete'', ''table'', ''inet'', tableName] w = ((out, failed), w') \<longrightarrow>
        (if failed then table w' = table w \<and>
           (Contains out ''No such file'' \<or> Contains out ''No such table''
            \<or> Contains out ''No such base chain'' \<longrightarrow> table w = None)
         else table w' = None))"

definition nft_tool :: "'w nft_host \<Rightarrow> ('w \<Rightarrow> string option) \<Rightarrow> bool" where
  "nft_tool h table \<longleftrightarrow> nft_file_ok h table \<and> nft_delete_ok h table"

lemma Apply_spec:
  assumes tool: "nft_file_ok h table" and call: "Apply h ms w = (err, w')"
  shows "table w' = (if err = None then Some (render ms) else table w)"
proof -
  obtain out failed w1 where e: "nft_file h (render ms) w = ((out, failed), w1)"
    by (metis prod.exhaust)
  note tool [unfolded nft_file_ok_def, rule_format, OF e]
  then show ?thesis using call
    by (auto simp: Apply_def e split: temp_outcome.splits if_splits)
qed

lemma Flush_spec:
  assumes tool: "nft_delete_ok h table" and call: "Flush h w = (err, w')"
  shows "table w' = (if err = None then None else table w)"
proof -
  obtain out failed w1 where
    e: "nft_args h [''delete'', ''table'', ''inet'', tableName] w = ((out, failed), w1)"
    by (metis prod.exhaust)
  note tool [unfolded nft_delete_ok_def, rule_format, OF e]
  then show ?thesis using call unfolding Flush_def Let_def e prod.case
    by (auto split: if_splits)
qed

interpretation nft: ruleset_manager "\<lambda>_. nft_tool h table" table "Apply h" "Flush h" for h table
proof unfold_locales
  fix w ms err w'
  assume host: "nft_tool h table"
  then have load: "nft_file_ok h table" and del: "nft_delete_ok h table"
    by (simp_all add: nft_tool_def)
  show "nft_tool h table \<and> table w' = (if err = None then Some (render ms) else table w)"
    if "Apply h ms w = (err, w')"
    using Apply_spec [OF load that] host by (rule conjI [rotated])
  show "nft_tool h table \<and> table w' = (if err = None then None else table w)"
    if "Flush h w = (err, w')"
    using Flush_spec [OF del that] host by (rule conjI [rotated])
qed

end
