(* ===== verification/Backup.thy ===== *)
theory Backup
  imports Nat_Mapping
begin

text \<open>
  The backup store, \<open>internal/reconciler/backup.go\<close>: per-VM mappings kept in memory
  and written behind the caller's back to one file per VM. Each method's locked regions
  are atomic here. The file system is an argument: the result of reading a file or the
  directory, of each step of writing a file, of removing one. The \<open>select\<close>
  statements of the flusher are arguments too (which branch was taken).

  The second half of the theory interleaves the flusher with the other operations: taking
  a batch, each file operation and each bookkeeping step under the lock are separate steps
  of a transition relation.
\<close>

section \<open>The store\<close>

type_synonym bytes = string

text \<open>A Go byte slice that may be nil: \<open>None\<close> is nil. In \<open>pending\<close> it is a
  tombstone, in \<open>cache\<close> it means that the file is known to be absent.\<close>

type_synonym slice = "bytes option"

record backupStore =
  cache :: "(int, slice) gomap"
  known :: "(int, bool) gomap"
  dirScanned :: bool
  pending :: "(int, slice) gomap"
  started :: bool
  closed :: bool
  wake :: bool
  diskReads :: nat
  diskWrites :: nat
  allScans :: nat

definition newBackupStore :: backupStore where
  "newBackupStore =
     \<lparr>cache = [], known = [], dirScanned = False, pending = [], started = False, closed = False,
      wake = False, diskReads = 0, diskWrites = 0, allScans = 0\<rparr>"

text \<open>\<open>bytes.Equal\<close> does not tell nil from an empty slice.\<close>

definition bytesEqual :: "slice \<Rightarrow> slice \<Rightarrow> bool" where
  "bytesEqual a b \<longleftrightarrow>
     (case a of None \<Rightarrow> [] | Some x \<Rightarrow> x) = (case b of None \<Rightarrow> [] | Some y \<Rightarrow> y)"

section \<open>Writing\<close>

definition enqueue :: "int \<Rightarrow> slice \<Rightarrow> backupStore \<Rightarrow> backupStore" where
  "enqueue vmid data s =
     (if closed s then s
      else if (case mget (pending s) vmid of Some queued \<Rightarrow> bytesEqual queued data | None \<Rightarrow> False)
      then s
      else if mget (pending s) vmid = None \<and> mgetd False (known s) vmid
              \<and> bytesEqual (mgetd None (cache s) vmid) data
      then s
      else s\<lparr>pending := mput vmid data (pending s), started := True, wake := True\<rparr>)"

definition delete_backup :: "int \<Rightarrow> backupStore \<Rightarrow> backupStore" where
  "delete_backup vmid s = enqueue vmid None s"

definition save_backup :: "int \<Rightarrow> NATMapping list \<Rightarrow> backupStore \<Rightarrow> backupStore" where
  "save_backup vmid mappings s =
     (if mappings = [] then delete_backup vmid s
      else enqueue vmid (Some (encodeMappings mappings)) s)"

section \<open>Reading\<close>

datatype read_result = ReadOk bytes | ReadNotExist | ReadErr

type_synonym load_result = "gerror + NATMapping list option"

definition decode_load :: "bytes \<Rightarrow> load_result" where
  "decode_load data =
     (case decodeMappings data of
        Some ms \<Rightarrow> Inr (Some ms)
      | None \<Rightarrow> Inl (Errorf ''parsing backup file: invalid NATMapping JSON''))"

definition decode_slice :: "slice \<Rightarrow> load_result" where
  "decode_slice data = (case data of None \<Rightarrow> Inr None | Some d \<Rightarrow> decode_load d)"

text \<open>\<open>load\<close>, given what \<open>os.ReadFile\<close> would return for each VMID: pending
  bytes first, then the cache, then the verdict of the directory scan, then the disk.\<close>

definition load_backup ::
  "(int \<Rightarrow> read_result) \<Rightarrow> int \<Rightarrow> backupStore \<Rightarrow> load_result \<times> backupStore" where
  "load_backup readFile vmid s =
     (case mget (pending s) vmid of
        Some data \<Rightarrow> (decode_slice data, s)
      | None \<Rightarrow>
          if mgetd False (known s) vmid then (decode_slice (mgetd None (cache s) vmid), s)
          else if dirScanned s then (Inr None, s)
          else
            (let s1 = s\<lparr>diskReads := Suc (diskReads s)\<rparr>
             in case readFile vmid of
                  ReadNotExist \<Rightarrow>
                    (Inr None, s1\<lparr>cache := mput vmid None (cache s1),
                                  known := mput vmid True (known s1)\<rparr>)
                | ReadErr \<Rightarrow> (Inl (Errorf ''reading backup file''), s1)
                | ReadOk data \<Rightarrow>
                    (decode_load data,
                     s1\<lparr>cache := mput vmid (Some data) (cache s1),
                        known := mput vmid True (known s1)\<rparr>)))"

text \<open>\<open>all\<close>: the mappings of every VMID known when the scan starts; a file that cannot be
  read or decoded is skipped.\<close>

fun load_each ::
  "(int \<Rightarrow> read_result) \<Rightarrow> int list \<Rightarrow> backupStore \<Rightarrow> NATMapping list \<times> backupStore" where
  "load_each readFile [] s = ([], s)"
| "load_each readFile (vmid # vmids) s =
     (let (res, s1) = load_backup readFile vmid s;
          (rest, s2) = load_each readFile vmids s1
      in ((case res of Inr (Some ms) \<Rightarrow> ms @ rest | _ \<Rightarrow> rest), s2))"

definition all_backups ::
  "(int \<Rightarrow> read_result) \<Rightarrow> backupStore \<Rightarrow> NATMapping list \<times> backupStore" where
  "all_backups readFile s =
     load_each readFile (map fst (filter (\<lambda>(_, k). k) (known s)))
       (s\<lparr>allScans := Suc (allScans s)\<rparr>)"

text \<open>
  \<open>warm\<close>: the directory listing (name, and whether it is a directory) and the contents
  of each file, \<open>None\<close> when it cannot be read.
\<close>

datatype dir_result = DirOk "(string \<times> bool) list" | DirNotExist | DirErr

definition warm_vmid :: "string \<times> bool \<Rightarrow> int option" where
  "warm_vmid entry =
     (case entry of (name, isDir) \<Rightarrow>
        if isDir \<or> \<not> HasSuffix name ''.config'' then None
        else case Atoi (TrimSuffix name ''.config'') of
               None \<Rightarrow> None
             | Some vmid \<Rightarrow> if vmid \<le> 0 then None else Some vmid)"

fun warm_read ::
  "(string \<Rightarrow> bytes option) \<Rightarrow> (string \<times> bool) list \<Rightarrow> (int, bytes) gomap \<Rightarrow> nat
   \<Rightarrow> (int, bytes) gomap \<times> nat" where
  "warm_read readName [] loaded reads = (loaded, reads)"
| "warm_read readName (entry # entries) loaded reads =
     (case warm_vmid entry of
        None \<Rightarrow> warm_read readName entries loaded reads
      | Some vmid \<Rightarrow>
          (case readName (fst entry) of
             None \<Rightarrow> warm_read readName entries loaded (Suc reads)
           | Some data \<Rightarrow> warm_read readName entries (mput vmid data loaded) (Suc reads)))"

fun warm_merge :: "(int \<times> bytes) list \<Rightarrow> backupStore \<Rightarrow> backupStore" where
  "warm_merge [] s = s"
| "warm_merge ((vmid, data) # loaded) s =
     warm_merge loaded
       (if mget (pending s) vmid \<noteq> None then s
        else s\<lparr>cache := mput vmid (Some data) (cache s), known := mput vmid True (known s)\<rparr>)"

definition warm ::
  "dir_result \<Rightarrow> (string \<Rightarrow> bytes option) \<Rightarrow> backupStore \<Rightarrow> gerror option \<times> backupStore" where
  "warm dir readName s =
     (case dir of
        DirNotExist \<Rightarrow> (None, s\<lparr>dirScanned := True\<rparr>)
      | DirErr \<Rightarrow> (Some (Errorf ''scanning backup dir''), s)
      | DirOk entries \<Rightarrow>
          (let (loaded, reads) = warm_read readName entries [] 0
           in (None, (warm_merge loaded (s\<lparr>diskReads := diskReads s + reads\<rparr>))\<lparr>dirScanned := True\<rparr>)))"

section \<open>Flushing\<close>

text \<open>
  Writing a file: each step may fail, and the file changes only when the rename, the last
  step, succeeds. The disk maps a VMID to the contents of its file.
\<close>

datatype write_step = MkdirAll | CreateTemp | WriteTemp | ChmodTemp | CloseTemp | Rename

definition writeFile ::
  "(write_step \<Rightarrow> bool) \<Rightarrow> int \<Rightarrow> bytes \<Rightarrow> (int \<Rightarrow> slice) \<Rightarrow> gerror option \<times> (int \<Rightarrow> slice)" where
  "writeFile fails vmid data disk =
     (if fails MkdirAll then (Some (Errorf ''creating backup dir''), disk)
      else if fails CreateTemp then (Some (Errorf ''creating temp backup file''), disk)
      else if fails WriteTemp then (Some (Errorf ''writing temp backup file''), disk)
      else if fails ChmodTemp then (Some (Errorf ''setting backup file mode''), disk)
      else if fails CloseTemp then (Some (Errorf ''closing temp backup file''), disk)
      else if fails Rename then (Some (Errorf ''installing backup file''), disk)
      else (None, disk(vmid := Some data)))"

datatype remove_result = RemoveOk | RemoveNotExist | RemoveErr

definition removeFile ::
  "remove_result \<Rightarrow> int \<Rightarrow> (int \<Rightarrow> slice) \<Rightarrow> gerror option \<times> (int \<Rightarrow> slice)" where
  "removeFile res vmid disk =
     (case res of
        RemoveOk \<Rightarrow> (None, disk(vmid := None))
      | RemoveNotExist \<Rightarrow> (None, disk)
      | RemoveErr \<Rightarrow> (Some (Errorf ''removing backup file''), disk))"

text \<open>One entry of a batch after its file operation, under the lock; \<open>ok\<close> says whether
  the file operation succeeded, which also counts as a disk write.\<close>

definition flush_item :: "bool \<Rightarrow> int \<Rightarrow> slice \<Rightarrow> backupStore \<Rightarrow> backupStore" where
  "flush_item ok vmid data s =
     (if \<not> ok then
        s\<lparr>cache := mdel vmid (cache s), known := mdel vmid (known s),
          pending := (if mget (pending s) vmid = None then mput vmid data (pending s)
                      else pending s)\<rparr>
      else
        s\<lparr>cache := mput vmid data (cache s), known := mput vmid True (known s),
          diskWrites := Suc (diskWrites s)\<rparr>)"

fun flush_batch ::
  "(int \<Rightarrow> slice \<Rightarrow> bool) \<Rightarrow> (int \<times> slice) list \<Rightarrow> backupStore \<Rightarrow> bool \<times> backupStore" where
  "flush_batch writeOk [] s = (True, s)"
| "flush_batch writeOk ((vmid, data) # batch) s =
     (let ok = writeOk vmid data;
          (rest, s') = flush_batch writeOk batch (flush_item ok vmid data s)
      in (ok \<and> rest, s'))"

definition flush :: "(int \<Rightarrow> slice \<Rightarrow> bool) \<Rightarrow> backupStore \<Rightarrow> bool \<times> backupStore" where
  "flush writeOk s =
     (if pending s = [] then (True, s)
      else flush_batch writeOk (pending s) (s\<lparr>pending := []\<rparr>))"

definition flushNow ::
  "(int \<Rightarrow> slice \<Rightarrow> bool) \<Rightarrow> backupStore \<Rightarrow> gerror option \<times> backupStore" where
  "flushNow writeOk s =
     (let (ok, s') = flush writeOk s
      in (if ok then None else Some (Errorf ''one or more backup writes failed''), s'))"

definition lastFlushError :: "backupStore \<Rightarrow> gerror option" where
  "lastFlushError s =
     (if 0 < length (pending s) then Some (Errorf ''backup writes still pending'') else None)"

text \<open>
  The flusher's loop body. Its first \<open>select\<close> waits for a wake-up or for stop, its
  second for the timer or for stop; \<open>Inl\<close> is the final state after stop, \<open>Inr\<close>
  the backoff and the state for the next round. Nothing happens while there is no wake-up.
\<close>

definition writeDebounce :: duration where "writeDebounce = 50 * millisecond"
definition writeBackoffMin :: duration where "writeBackoffMin = 1 * second"
definition writeBackoffMax :: duration where "writeBackoffMax = 30 * second"

definition flush_delay :: "duration \<Rightarrow> duration" where
  "flush_delay backoff = (if writeDebounce < backoff then backoff else writeDebounce)"

definition next_backoff :: "duration \<Rightarrow> duration" where
  "next_backoff backoff =
     (if backoff = 0 then writeBackoffMin
      else if backoff < writeBackoffMax then
        (if writeBackoffMax < backoff * 2 then writeBackoffMax else backoff * 2)
      else backoff)"

datatype run_choice = StopWaiting | StopDelaying | TimerFired

definition run_round ::
  "(int \<Rightarrow> slice \<Rightarrow> bool) \<Rightarrow> run_choice \<Rightarrow> duration \<Rightarrow> backupStore
   \<Rightarrow> backupStore + (duration \<times> backupStore)" where
  "run_round writeOk choice backoff s =
     (case choice of
        StopWaiting \<Rightarrow> Inl (snd (flush writeOk s))
      | StopDelaying \<Rightarrow>
          if wake s then Inl (snd (flush writeOk (s\<lparr>wake := False\<rparr>))) else Inr (backoff, s)
      | TimerFired \<Rightarrow>
          if wake s then
            (let (ok, s') = flush writeOk (s\<lparr>wake := False\<rparr>)
             in if ok then Inr (0, s') else Inr (next_backoff backoff, s'\<lparr>wake := True\<rparr>))
          else Inr (backoff, s))"

text \<open>
  \<open>close\<close>: \<open>drained\<close> says whether the flusher finished before the context expired.
  Closing \<open>stop\<close> makes the flusher write everything once more before it ends.
\<close>

definition close_store ::
  "(int \<Rightarrow> slice \<Rightarrow> bool) \<Rightarrow> bool \<Rightarrow> backupStore \<Rightarrow> gerror option \<times> backupStore" where
  "close_store writeOk drained s =
     (let s1 = s\<lparr>closed := True\<rparr>
      in if \<not> started s then flushNow writeOk s1
         else if \<not> drained then (Some (Errorf ''context deadline exceeded''), s1)
         else let s2 = (if closed s then s1 else snd (flush writeOk s1))
              in (lastFlushError s2, s2))"

section \<open>What a load sees\<close>

text \<open>
  An open store without empty byte slices, over a disk without empty files: the encoder
  never produces an empty slice, so only a foreign empty file could break this.
\<close>

definition no_empty :: "backupStore \<Rightarrow> bool" where
  "no_empty s \<longleftrightarrow> (\<forall>v. mget (pending s) v \<noteq> Some (Some [])) \<and> (\<forall>v. mget (cache s) v \<noteq> Some (Some []))"

definition backup_ok :: "(int \<Rightarrow> read_result) \<Rightarrow> backupStore \<Rightarrow> bool" where
  "backup_ok readFile s \<longleftrightarrow> \<not> closed s \<and> no_empty s \<and> (\<forall>v. readFile v \<noteq> ReadOk [])"

lemma bytesEqual_iff: "a \<noteq> Some [] \<Longrightarrow> b \<noteq> Some [] \<Longrightarrow> bytesEqual a b \<longleftrightarrow> a = b"
  by (auto simp: bytesEqual_def split: option.splits)

lemma bytesEqual_refl [simp]: "bytesEqual a a"
  by (simp add: bytesEqual_def)

lemma mgetd_not_empty: "(\<And>v. mget m v \<noteq> Some (Some [])) \<Longrightarrow> mgetd None m v \<noteq> Some []"
  by (auto simp: mgetd_def split: option.splits)

text \<open>A load after an enqueue of the same VM returns what was enqueued.\<close>

lemma load_enqueue_same:
  assumes "backup_ok rd s" "data \<noteq> Some []"
  shows "fst (load_backup rd v (enqueue v data s)) = decode_slice data"
proof (cases "mget (pending s) v")
  case None
  then show ?thesis using assms mgetd_not_empty [of "cache s" v]
    by (auto simp: backup_ok_def no_empty_def enqueue_def load_backup_def bytesEqual_iff mget_mput)
next
  case (Some queued)
  then have "queued \<noteq> Some []" using assms(1) by (auto simp: backup_ok_def no_empty_def)
  with Some show ?thesis using assms
    by (auto simp: backup_ok_def no_empty_def enqueue_def load_backup_def bytesEqual_iff mget_mput)
qed

lemma load_enqueue_other:
  "w \<noteq> v \<Longrightarrow> fst (load_backup rd w (enqueue v data s)) = fst (load_backup rd w s)"
  by (auto simp: enqueue_def load_backup_def mget_mput Let_def
      split: option.splits read_result.splits)

lemma load_load:
  "fst (load_backup rd w (snd (load_backup rd v s))) = fst (load_backup rd w s)"
  by (auto simp: load_backup_def gomap_simps Let_def decode_slice_def
      split: option.splits read_result.splits)

lemma backup_ok_enqueue:
  "backup_ok rd s \<Longrightarrow> data \<noteq> Some [] \<Longrightarrow> backup_ok rd (enqueue v data s)"
  by (auto simp: backup_ok_def no_empty_def enqueue_def mget_mput)

lemma backup_ok_load: "backup_ok rd s \<Longrightarrow> backup_ok rd (snd (load_backup rd v s))"
  by (auto simp: backup_ok_def no_empty_def load_backup_def mget_mput Let_def
      split: option.splits read_result.splits)

lemma decode_load_encoded:
  "\<forall>m \<in> set ms. storable m \<Longrightarrow> decode_load (encodeMappings ms) = Inr (Some ms)"
  by (simp add: decode_load_def decode_encode)

section \<open>The contract with the reconciler\<close>

text \<open>
  What the reconciler relies on: a load returns the last mappings saved for the VM, nothing
  after a delete, and operations on one VM do not show in another.
\<close>

locale mapping_store =
  fixes load :: "int \<Rightarrow> 's \<Rightarrow> load_result \<times> 's"
    and save :: "int \<Rightarrow> NATMapping list \<Rightarrow> 's \<Rightarrow> 's"
    and delete :: "int \<Rightarrow> 's \<Rightarrow> 's"
    and ok :: "'s \<Rightarrow> bool"
  assumes ok_load: "ok s \<Longrightarrow> ok (snd (load v s))"
    and ok_save: "ok s \<Longrightarrow> ok (save v ms s)"
    and ok_delete: "ok s \<Longrightarrow> ok (delete v s)"
    and load_save: "ok s \<Longrightarrow> ms \<noteq> [] \<Longrightarrow> \<forall>m \<in> set ms. storable m \<Longrightarrow>
                      fst (load v (save v ms s)) = Inr (Some ms)"
    and load_delete: "ok s \<Longrightarrow> fst (load v (delete v s)) = Inr None"
    and load_save_other: "w \<noteq> v \<Longrightarrow> fst (load w (save v ms s)) = fst (load w s)"
    and load_delete_other: "w \<noteq> v \<Longrightarrow> fst (load w (delete v s)) = fst (load w s)"
    and load_twice: "fst (load w (snd (load v s))) = fst (load w s)"

datatype backup_op = BSave int "NATMapping list" | BDelete int | BLoad int

text \<open>Running operations on a store, and what they mean for the loads that follow.\<close>

fun run_ops ::
  "(int \<Rightarrow> 's \<Rightarrow> load_result \<times> 's) \<Rightarrow> (int \<Rightarrow> NATMapping list \<Rightarrow> 's \<Rightarrow> 's) \<Rightarrow> (int \<Rightarrow> 's \<Rightarrow> 's)
   \<Rightarrow> backup_op list \<Rightarrow> 's \<Rightarrow> 's" where
  "run_ops load save delete [] s = s"
| "run_ops load save delete (op # ops) s =
     run_ops load save delete ops
       (case op of BSave v ms \<Rightarrow> save v ms s | BDelete v \<Rightarrow> delete v s | BLoad v \<Rightarrow> snd (load v s))"

fun replay :: "backup_op list \<Rightarrow> (int \<Rightarrow> load_result) \<Rightarrow> int \<Rightarrow> load_result" where
  "replay [] view = view"
| "replay (BSave v ms # ops) view = replay ops (view(v := Inr (Some ms)))"
| "replay (BDelete v # ops) view = replay ops (view(v := Inr None))"
| "replay (BLoad v # ops) view = replay ops view"

fun op_storable :: "backup_op \<Rightarrow> bool" where
  "op_storable (BSave v ms) \<longleftrightarrow> ms \<noteq> [] \<and> (\<forall>m \<in> set ms. storable m)"
| "op_storable _ \<longleftrightarrow> True"

context mapping_store begin

lemma view_save:
  "ok s \<Longrightarrow> ms \<noteq> [] \<Longrightarrow> \<forall>m \<in> set ms. storable m \<Longrightarrow>
   (\<lambda>w. fst (load w (save v ms s))) = (\<lambda>w. fst (load w s))(v := Inr (Some ms))"
  by (auto simp: load_save load_save_other)

lemma view_delete: "ok s \<Longrightarrow> (\<lambda>w. fst (load w (delete v s))) = (\<lambda>w. fst (load w s))(v := Inr None)"
  by (auto simp: load_delete load_delete_other)

lemma view_run:
  "ok s \<Longrightarrow> \<forall>op \<in> set ops. op_storable op \<Longrightarrow>
   (\<lambda>w. fst (load w (run_ops load save delete ops s))) = replay ops (\<lambda>w. fst (load w s))"
proof (induction ops arbitrary: s)
  case (Cons op ops)
  show ?case
  proof (cases op)
    case (BSave v ms)
    then show ?thesis using Cons.prems Cons.IH [of "save v ms s"] by (simp add: ok_save view_save)
  next
    case (BDelete v)
    then show ?thesis using Cons.prems Cons.IH [of "delete v s"] by (simp add: ok_delete view_delete)
  next
    case (BLoad v)
    then show ?thesis using Cons.prems Cons.IH [of "snd (load v s)"] by (simp add: ok_load load_twice)
  qed
qed simp

end

interpretation bk: mapping_store "load_backup rd" save_backup delete_backup "backup_ok rd" for rd
proof unfold_locales
  fix s v w ms
  assume ok: "backup_ok rd s"
  show "backup_ok rd (snd (load_backup rd v s))" using ok by (rule backup_ok_load)
  show "backup_ok rd (delete_backup v s)"
    using ok by (simp add: delete_backup_def backup_ok_enqueue)
  then show "backup_ok rd (save_backup v ms s)"
    using ok by (simp add: save_backup_def backup_ok_enqueue encodeMappings_nonempty)
  show "fst (load_backup rd v (delete_backup v s)) = Inr None"
    using load_enqueue_same [OF ok, of None v] by (simp add: delete_backup_def decode_slice_def)
  show "fst (load_backup rd v (save_backup v ms s)) = Inr (Some ms)"
    if "ms \<noteq> []" "\<forall>m \<in> set ms. storable m"
    using that load_enqueue_same [OF ok, of "Some (encodeMappings ms)" v]
    by (simp add: save_backup_def encodeMappings_nonempty decode_slice_def decode_load_encoded)
qed (simp_all add: save_backup_def delete_backup_def load_enqueue_other load_load)

section \<open>The flusher and its clients, interleaved\<close>

text \<open>
  The state of one entry of the batch being written: its file operation has not run, or
  has run with the given outcome and waits for the bookkeeping under the lock.
\<close>

datatype entry_state = Unwritten | Written bool

record bsys =
  bst :: backupStore
  inflight :: "(int, slice \<times> entry_state) gomap"
  disk :: "int \<Rightarrow> slice"

text \<open>What reading a file returns, unless reading fails.\<close>

definition disk_read :: "(int \<Rightarrow> slice) \<Rightarrow> int \<Rightarrow> read_result" where
  "disk_read d v = (case d v of None \<Rightarrow> ReadNotExist | Some b \<Rightarrow> ReadOk b)"

definition file_op ::
  "(write_step \<Rightarrow> bool) \<Rightarrow> remove_result \<Rightarrow> int \<Rightarrow> slice \<Rightarrow> (int \<Rightarrow> slice)
   \<Rightarrow> gerror option \<times> (int \<Rightarrow> slice)" where
  "file_op fails res v data d =
     (case data of None \<Rightarrow> removeFile res v d | Some b \<Rightarrow> writeFile fails v b d)"

datatype bact = AEnqueue int slice | ALoad int | ATake | AFile int | ACommit int

text \<open>
  The steps: a client enqueues bytes or loads; the flusher takes everything pending as
  its batch, runs the file operation of an entry in any order, and records the outcome.
  Removing a file reports its absence only if it is absent.
\<close>

inductive bstep :: "bact \<Rightarrow> bsys \<Rightarrow> bsys \<Rightarrow> bool" where
  enqueue_step:
    "data \<noteq> Some [] \<Longrightarrow> bstep (AEnqueue v data) \<sigma> (\<sigma>\<lparr>bst := enqueue v data (bst \<sigma>)\<rparr>)"
| load_step:
    "rd v = disk_read (disk \<sigma>) v \<or> rd v = ReadErr \<Longrightarrow>
     bstep (ALoad v) \<sigma> (\<sigma>\<lparr>bst := snd (load_backup rd v (bst \<sigma>))\<rparr>)"
| take_step:
    "inflight \<sigma> = [] \<Longrightarrow> pending (bst \<sigma>) \<noteq> [] \<Longrightarrow>
     bstep ATake \<sigma> (\<sigma>\<lparr>inflight := map (\<lambda>(v, data). (v, (data, Unwritten))) (pending (bst \<sigma>)),
                     bst := (bst \<sigma>)\<lparr>pending := []\<rparr>\<rparr>)"
| file_step:
    "mget (inflight \<sigma>) v = Some (data, Unwritten) \<Longrightarrow>
     file_op fails res v data (disk \<sigma>) = (err, d') \<Longrightarrow>
     (res = RemoveNotExist \<longrightarrow> disk \<sigma> v = None) \<Longrightarrow>
     bstep (AFile v) \<sigma> (\<sigma>\<lparr>inflight := mput v (data, Written (err = None)) (inflight \<sigma>),
                         disk := d'\<rparr>)"
| commit_step:
    "mget (inflight \<sigma>) v = Some (data, Written ok) \<Longrightarrow>
     bstep (ACommit v) \<sigma> (\<sigma>\<lparr>inflight := mdel v (inflight \<sigma>),
                           bst := flush_item ok v data (bst \<sigma>)\<rparr>)"

inductive_cases bstep_enqueueE: "bstep (AEnqueue v data) \<sigma> \<tau>"
inductive_cases bstep_fileE: "bstep (AFile v) \<sigma> \<tau>"
inductive_cases bstep_commitE: "bstep (ACommit v) \<sigma> \<tau>"

inductive bsteps :: "bact list \<Rightarrow> bsys \<Rightarrow> bsys \<Rightarrow> bool" where
  bsteps_Nil: "bsteps [] \<sigma> \<sigma>"
| bsteps_Cons: "bstep a \<sigma> \<tau> \<Longrightarrow> bsteps as \<tau> \<rho> \<Longrightarrow> bsteps (a # as) \<sigma> \<rho>"

text \<open>
  The invariant of the interleaving. Unless the file operation of an entry has succeeded
  and is not recorded yet, what the store believes to be on disk is on disk; a recorded
  success is on disk; and after a directory scan an unknown VM has no file unless a write
  for it is under way.
\<close>

definition binv :: "bsys \<Rightarrow> bool" where
  "binv \<sigma> \<longleftrightarrow>
     mkeys_ok (pending (bst \<sigma>)) \<and> mkeys_ok (inflight \<sigma>) \<and>
     (\<forall>v. (\<nexists>data. mget (inflight \<sigma>) v = Some (data, Written True)) \<longrightarrow>
          mgetd False (known (bst \<sigma>)) v \<longrightarrow> mgetd None (cache (bst \<sigma>)) v = disk \<sigma> v) \<and>
     (\<forall>v data. mget (inflight \<sigma>) v = Some (data, Written True) \<longrightarrow> disk \<sigma> v = data) \<and>
     (\<forall>v. dirScanned (bst \<sigma>) \<longrightarrow> \<not> mgetd False (known (bst \<sigma>)) v \<longrightarrow>
          mget (pending (bst \<sigma>)) v \<noteq> None \<or> mget (inflight \<sigma>) v \<noteq> None \<or> disk \<sigma> v = None)"

lemma binvD:
  assumes "binv \<sigma>"
  shows "mkeys_ok (pending (bst \<sigma>))" "mkeys_ok (inflight \<sigma>)"
    and "(\<nexists>data. mget (inflight \<sigma>) v = Some (data, Written True)) \<Longrightarrow>
         mgetd False (known (bst \<sigma>)) v \<Longrightarrow> mgetd None (cache (bst \<sigma>)) v = disk \<sigma> v"
    and "mget (inflight \<sigma>) v = Some (data, Written True) \<Longrightarrow> disk \<sigma> v = data"
  using assms by (auto simp: binv_def)

lemma mget_take: "mget (map (\<lambda>(v, data). (v, (data, Unwritten))) m) v = map_option (\<lambda>d. (d, Unwritten)) (mget m v)"
  by (induction m) auto

lemma mkeys_ok_take: "mkeys_ok (map (\<lambda>(v, data). (v, (data, Unwritten))) m) = mkeys_ok m"
  by (simp add: mkeys_ok_def comp_def case_prod_unfold)

lemma file_op_disk:
  assumes "file_op fails res v data d = (err, d')" "res = RemoveNotExist \<longrightarrow> d v = None"
  shows "d' = (if err = None then d(v := data) else d)"
  using assms
  by (auto simp: file_op_def writeFile_def removeFile_def split: option.splits remove_result.splits if_splits)

lemma binv_step: "bstep a \<sigma> \<tau> \<Longrightarrow> binv \<sigma> \<Longrightarrow> binv \<tau>"
proof (induction rule: bstep.induct)
  case (enqueue_step data v \<sigma>)
  then show ?case by (auto simp: binv_def enqueue_def mget_mput)
next
  case (load_step rd v \<sigma>)
  then show ?case
    by (auto simp: binv_def load_backup_def gomap_simps Let_def disk_read_def
        split: option.splits read_result.splits)
next
  case (take_step \<sigma>)
  then show ?case by (auto simp: binv_def mget_take mkeys_ok_take)
next
  case (file_step \<sigma> v data fails res err d')
  then show ?case using file_op_disk [OF file_step(2,3)]
    by (auto simp: binv_def mget_mput)
next
  case (commit_step \<sigma> v data ok)
  then show ?case by (auto simp: binv_def flush_item_def gomap_simps)
qed

text \<open>The bytes the store is bound to write for a VM, or already has on disk.\<close>

definition wants :: "int \<Rightarrow> slice \<Rightarrow> bsys \<Rightarrow> bool" where
  "wants v data \<sigma> \<longleftrightarrow>
     mget (pending (bst \<sigma>)) v = Some data \<or>
     mget (pending (bst \<sigma>)) v = None \<and>
       ((\<exists>st. mget (inflight \<sigma>) v = Some (data, st)) \<or>
        mget (inflight \<sigma>) v = None \<and> mgetd False (known (bst \<sigma>)) v \<and>
          mgetd None (cache (bst \<sigma>)) v = data \<and> disk \<sigma> v = data)"

fun enqueues :: "int \<Rightarrow> bact \<Rightarrow> bool" where
  "enqueues v (AEnqueue w data) \<longleftrightarrow> w = v"
| "enqueues v _ \<longleftrightarrow> False"

lemma wants_step:
  "bstep a \<sigma> \<tau> \<Longrightarrow> binv \<sigma> \<Longrightarrow> \<not> enqueues v a \<Longrightarrow> wants v data \<sigma> \<Longrightarrow> wants v data \<tau>"
proof (induction rule: bstep.induct)
  case (enqueue_step data' w \<sigma>)
  then show ?case by (auto simp: wants_def enqueue_def mget_mput)
next
  case (load_step rd w \<sigma>)
  then show ?case
    by (auto simp: wants_def load_backup_def gomap_simps Let_def
        split: option.splits read_result.splits)
next
  case (take_step \<sigma>)
  then show ?case by (auto simp: wants_def mget_take)
next
  case (file_step \<sigma> w data' fails res err d')
  then show ?case using file_op_disk [OF file_step(2,3)]
    by (auto simp: wants_def mget_mput)
next
  case (commit_step \<sigma> w data' ok)
  then show ?case
    by (auto simp: wants_def flush_item_def gomap_simps dest: binvD(4))
qed

lemma wants_enqueue:
  assumes "binv \<sigma>" "\<not> closed (bst \<sigma>)" "mget (inflight \<sigma>) v = None"
    and "data \<noteq> Some []" "no_empty (bst \<sigma>)"
  shows "wants v data (\<sigma>\<lparr>bst := enqueue v data (bst \<sigma>)\<rparr>)"
proof -
  have "mgetd None (cache (bst \<sigma>)) v \<noteq> Some []"
    using assms(5) by (auto simp: mgetd_def no_empty_def split: option.splits)
  moreover have "mget (pending (bst \<sigma>)) v \<noteq> Some (Some [])"
    using assms(5) by (simp add: no_empty_def)
  ultimately show ?thesis
    using assms(2-4) binvD(3) [OF assms(1), of v]
    by (auto simp: wants_def enqueue_def mget_mput bytesEqual_iff split: option.splits)
qed

lemma bsteps_invariants:
  "bsteps as \<sigma> \<tau> \<Longrightarrow> binv \<sigma> \<Longrightarrow> wants v data \<sigma> \<Longrightarrow> \<forall>a \<in> set as. \<not> enqueues v a \<Longrightarrow>
   binv \<tau> \<and> wants v data \<tau>"
  by (induction rule: bsteps.induct) (auto intro: binv_step wants_step)

lemma bsteps_binv: "bsteps as \<sigma> \<tau> \<Longrightarrow> binv \<sigma> \<Longrightarrow> binv \<tau>"
  by (induction rule: bsteps.induct) (auto intro: binv_step)

text \<open>
  A schedule: an action together with the outcome of its file operation. Running one is a
  function, which agrees with the step relation.
\<close>

fun do_act :: "bact \<times> (write_step \<Rightarrow> bool) \<times> remove_result \<Rightarrow> bsys \<Rightarrow> bsys option" where
  "do_act (AEnqueue v data, _, _) \<sigma> =
     (if data = Some [] then None else Some (\<sigma>\<lparr>bst := enqueue v data (bst \<sigma>)\<rparr>))"
| "do_act (ALoad v, _, _) \<sigma> =
     Some (\<sigma>\<lparr>bst := snd (load_backup (disk_read (disk \<sigma>)) v (bst \<sigma>))\<rparr>)"
| "do_act (ATake, _, _) \<sigma> =
     (if inflight \<sigma> \<noteq> [] \<or> pending (bst \<sigma>) = [] then None
      else Some (\<sigma>\<lparr>inflight := map (\<lambda>(v, data). (v, (data, Unwritten))) (pending (bst \<sigma>)),
                   bst := (bst \<sigma>)\<lparr>pending := []\<rparr>\<rparr>))"
| "do_act (AFile v, fails, res) \<sigma> =
     (case mget (inflight \<sigma>) v of
        Some (data, Unwritten) \<Rightarrow>
          if res = RemoveNotExist \<and> disk \<sigma> v \<noteq> None then None
          else (let (err, d') = file_op fails res v data (disk \<sigma>)
                in Some (\<sigma>\<lparr>inflight := mput v (data, Written (err = None)) (inflight \<sigma>), disk := d'\<rparr>))
      | _ \<Rightarrow> None)"
| "do_act (ACommit v, _, _) \<sigma> =
     (case mget (inflight \<sigma>) v of
        Some (data, Written ok) \<Rightarrow>
          Some (\<sigma>\<lparr>inflight := mdel v (inflight \<sigma>), bst := flush_item ok v data (bst \<sigma>)\<rparr>)
      | _ \<Rightarrow> None)"

fun do_acts :: "(bact \<times> (write_step \<Rightarrow> bool) \<times> remove_result) list \<Rightarrow> bsys \<Rightarrow> bsys option" where
  "do_acts [] \<sigma> = Some \<sigma>"
| "do_acts (x # xs) \<sigma> = Option.bind (do_act x \<sigma>) (do_acts xs)"

lemma do_act_step: "do_act x \<sigma> = Some \<tau> \<Longrightarrow> bstep (fst x) \<sigma> \<tau>"
proof (induction x \<sigma> rule: do_act.induct)
  case (4 v fails res \<sigma>)
  then show ?case
    by (auto split: option.splits prod.splits entry_state.splits if_splits intro!: file_step)
qed (auto split: option.splits prod.splits entry_state.splits if_splits
    intro!: enqueue_step load_step take_step commit_step)

lemma do_acts_steps: "do_acts xs \<sigma> = Some \<tau> \<Longrightarrow> bsteps (map fst xs) \<sigma> \<tau>"
  by (induction xs arbitrary: \<sigma>) (auto simp: Option.bind_eq_Some_conv intro: bsteps.intros do_act_step)

section \<open>Properties\<close>

lemma flush_batch_Cons:
  "fst (flush_batch w ((v, d) # b) s) = (w v d \<and> fst (flush_batch w b (flush_item (w v d) v d s)))"
  "snd (flush_batch w ((v, d) # b) s) = snd (flush_batch w b (flush_item (w v d) v d s))"
  by (simp_all add: Let_def split: prod.splits)

lemma flush_item_pending:
  "pending (flush_item ok v d s) =
     (if ok \<or> mget (pending s) v \<noteq> None then pending s else mput v d (pending s))"
  by (auto simp: flush_item_def)

lemma flush_item_cache:
  "cache (flush_item ok v d s) = (if ok then mput v d (cache s) else mdel v (cache s))"
  by (simp add: flush_item_def)

lemma flush_batch_pending:
  "mget (pending (snd (flush_batch w batch s))) v =
     (case mget (pending s) v of
        Some d \<Rightarrow> Some d
      | None \<Rightarrow> mget (filter (\<lambda>(x, d). \<not> w x d) batch) v)"
  by (induction batch arbitrary: s)
    (auto simp: flush_batch_Cons flush_item_pending mget_mput
      simp del: flush_batch.simps(2) split: option.splits)

lemma flush_batch_ok: "fst (flush_batch w batch s) = (\<forall>(v, d) \<in> set batch. w v d)"
proof (induction batch arbitrary: s)
  case (Cons x batch)
  then show ?case by (cases x) (simp add: flush_batch_Cons del: flush_batch.simps(2))
qed simp

lemma flush_batch_cache:
  "mkeys_ok batch \<Longrightarrow> mget (cache (snd (flush_batch w batch s))) v =
     (case mget batch v of
        None \<Rightarrow> mget (cache s) v
      | Some d \<Rightarrow> if w v d then Some d else None)"
proof (induction batch arbitrary: s)
  case (Cons x batch)
  obtain u d where x: "x = (u, d)" by (cases x)
  have "mkeys_ok batch" "mget batch u = None"
    using Cons.prems x by (auto simp: mkeys_ok_def map_of_eq_None_iff)
  then show ?case using Cons.IH
    by (auto simp: x flush_batch_Cons flush_item_cache gomap_simps simp del: flush_batch.simps(2)
        split: option.splits)
qed simp

lemma flush_item_closed [simp]: "closed (flush_item ok v d s) = closed s"
  by (simp add: flush_item_def)

lemma flush_batch_closed: "closed (snd (flush_batch w b t)) = closed t"
proof (induction b arbitrary: t)
  case (Cons x b)
  then show ?case by (cases x) (simp add: flush_batch_Cons del: flush_batch.simps(2))
qed simp

lemma flush_closed [simp]: "closed (snd (flush w s)) = closed s"
  by (simp add: flush_def flush_batch_closed)

lemma flush_batch_all_ok:
  "fst (flush_batch w b s) \<Longrightarrow> pending (snd (flush_batch w b s)) = pending s"
proof (induction b arbitrary: s)
  case (Cons x b)
  obtain v d where x: "x = (v, d)" by (cases x)
  have "w v d" "fst (flush_batch w b (flush_item True v d s))"
    using Cons.prems by (auto simp: x flush_batch_Cons simp del: flush_batch.simps(2))
  then show ?case using Cons.IH [of "flush_item True v d s"]
    by (simp add: x flush_batch_Cons flush_item_pending del: flush_batch.simps(2))
qed simp

lemma flush_all_ok: "fst (flush w s) \<Longrightarrow> pending (snd (flush w s)) = []"
  by (auto simp: flush_def flush_batch_all_ok)

lemma enqueue_closed [simp]: "closed s \<Longrightarrow> enqueue v d s = s"
  by (simp add: enqueue_def)

lemma close_store_cases:
  "close_store w drained s =
     (if started s \<and> \<not> drained then (Some (Errorf ''context deadline exceeded''), s\<lparr>closed := True\<rparr>)
      else if started s \<and> closed s then (lastFlushError s, s)
      else let s' = snd (flush w (s\<lparr>closed := True\<rparr>))
           in if started s then (lastFlushError s', s')
              else (if fst (flush w (s\<lparr>closed := True\<rparr>)) then None
                    else Some (Errorf ''one or more backup writes failed''), s'))"
  by (cases s) (auto simp: close_store_def Let_def flushNow_def split: prod.splits)

primrec rounds ::
  "(int \<Rightarrow> slice \<Rightarrow> bool) \<Rightarrow> nat \<Rightarrow> duration \<Rightarrow> backupStore \<Rightarrow> (duration \<times> backupStore) option"
where
  "rounds writeOk 0 backoff s = Some (backoff, s)"
| "rounds writeOk (Suc n) backoff s =
     (case run_round writeOk TimerFired backoff s of
        Inl _ \<Rightarrow> None
      | Inr (backoff', s') \<Rightarrow> rounds writeOk n backoff' s')"

lemma failing_round:
  assumes "wake s" "pending s \<noteq> []"
  shows "\<exists>s'. run_round (\<lambda>_ _. False) TimerFired b s = Inr (next_backoff b, s') \<and> wake s' \<and>
              pending s' \<noteq> [] \<and> (\<forall>v. mget (pending s') v = mget (pending s) v)"
proof -
  let ?s = "s\<lparr>wake := False\<rparr>"
  obtain ok s' where f: "flush (\<lambda>_ _. False) ?s = (ok, s')" by fastforce
  have "\<not> ok" using f assms(2) flush_batch_ok [of "\<lambda>_ _. False" "pending s" "?s\<lparr>pending := []\<rparr>"]
    by (cases "pending s"; cases "hd (pending s)") (auto simp: flush_def)
  moreover have "\<forall>v. mget (pending s') v = mget (pending s) v"
    using f assms(2) flush_batch_pending [of "\<lambda>_ _. False" "pending s" "?s\<lparr>pending := []\<rparr>"]
    by (simp add: flush_def)
  moreover from this have "pending s' \<noteq> []"
    using assms(2) by (auto simp flip: fun_eq_iff)
  ultimately show ?thesis using assms(1) f by (simp add: run_round_def)
qed

lemma failing_rounds:
  "wake s \<Longrightarrow> pending s \<noteq> [] \<Longrightarrow>
   \<exists>s'. rounds (\<lambda>_ _. False) n b s = Some ((next_backoff ^^ n) b, s') \<and> wake s' \<and>
        (\<forall>v. mget (pending s') v = mget (pending s) v)"
proof (induction n arbitrary: b s)
  case (Suc n)
  obtain s1 where r: "run_round (\<lambda>_ _. False) TimerFired b s = Inr (next_backoff b, s1)"
    and s1: "wake s1" "pending s1 \<noteq> []" "\<forall>v. mget (pending s1) v = mget (pending s) v"
    using failing_round [OF Suc.prems] by blast
  from Suc.IH [OF s1(1,2), of "next_backoff b"] s1(3) show ?case
    by (auto simp: r funpow_swap1)
qed simp

lemma backoff_value: "(next_backoff ^^ Suc n) 0 = (if n < 5 then 2 ^ n * second else 30 * second)"
proof (induction n)
  case (Suc n)
  have step: "(next_backoff ^^ Suc (Suc n)) 0 =
      next_backoff (if n < 5 then 2 ^ n * second else 30 * second)"
    by (subst funpow.simps(2), unfold o_apply, subst Suc) (rule refl)
  consider "n \<in> {0, 1, 2, 3}" | "n = 4" | "4 < n" by force
  then show ?case unfolding step
    by cases (auto simp: next_backoff_def writeBackoffMin_def writeBackoffMax_def second_def)
qed (simp add: next_backoff_def writeBackoffMin_def)

lemma warm_merge_pending: "pending (warm_merge l s) = pending s"
  by (induction l s rule: warm_merge.induct) auto

lemma warm_merge_lookup:
  "mkeys_ok l \<Longrightarrow> mget (pending s) v = None \<Longrightarrow>
   mgetd False (known (warm_merge l s)) v = (mget l v \<noteq> None \<or> mgetd False (known s) v) \<and>
   mgetd None (cache (warm_merge l s)) v =
     (case mget l v of Some data \<Rightarrow> Some data | None \<Rightarrow> mgetd None (cache s) v)"
proof (induction l s rule: warm_merge.induct)
  case (2 u data l s)
  have "mkeys_ok l" "mget l u = None"
    using "2.prems"(1) by (auto simp: mkeys_ok_def map_of_eq_None_iff)
  with 2 show ?case
    by (cases "u = v") (auto simp: mgetd_mput split: option.splits)
qed simp

lemma warm_read_keys_ok:
  "mkeys_ok l \<Longrightarrow> mkeys_ok (fst (warm_read readName es l n))"
  by (induction readName es l n rule: warm_read.induct) (auto split: option.splits)

lemma warm_read_lookup:
  "\<forall>e' \<in> set es. warm_vmid e' = Some v \<longrightarrow> fst e' = name \<Longrightarrow>
   mget (fst (warm_read readName es l n)) v =
     (if (\<exists>e \<in> set es. warm_vmid e = Some v) \<and> readName name \<noteq> None
      then readName name else mget l v)"
  by (induction readName es l n rule: warm_read.induct)
    (auto simp: mget_mput split: option.splits)

lemma warm_vmid_Itoa: "0 < v \<Longrightarrow> in_int64 v \<Longrightarrow> warm_vmid (Itoa v @ ''.config'', False) = Some v"
  by (simp add: warm_vmid_def HasSuffix_def HasPrefix_def TrimSuffix_def Atoi_Itoa)

lemma warm_vmid_dir: "warm_vmid (name, True) = None"
  by (simp add: warm_vmid_def)

lemma dec_101: "dec 101 = ''101''"
  by (simp add: dec.simps digit_char_def) code_simp

text \<open>A file that exists but is empty cannot be deleted once it is cached: the request
  counts as a repetition of what is on disk.\<close>

lemma empty_file_not_deleted:
  "mget (pending s) v = None \<Longrightarrow> mgetd False (known s) v \<Longrightarrow> mgetd None (cache s) v = Some [] \<Longrightarrow>
   delete_backup v s = s"
  by (simp add: delete_backup_def enqueue_def bytesEqual_def)

text \<open>
  C22: What is saved comes back: decoding the file contents written for any mappings with
  IPv4 addresses, 64-bit VMIDs and UTF-8 names, one or several, yields these mappings.
\<close>

theorem encode_decode_roundtrip:
  assumes "\<forall>m \<in> set ms. storable m"
  shows "decodeMappings (encodeMappings ms) = Some ms"
  by (rule decode_encode [OF assms])

definition web_mapping :: NATMapping where
  "web_mapping = \<lparr>ExternalIP = V4 203 0 113 1, InternalIP = V4 10 0 1 100,
                  VMProxmoxVMID = 101, VMName = ''web<01>''\<rparr>"

lemma storable_web_mapping: "storable web_mapping"
  by (simp add: storable_def web_mapping_def in_int64_def valid_utf8.simps)

theorem encode_decode_roundtrip_witness:
  "decodeMappings (encodeMappings [web_mapping, web_mapping\<lparr>ExternalIP := V4 203 0 113 2\<rparr>]) =
     Some [web_mapping, web_mapping\<lparr>ExternalIP := V4 203 0 113 2\<rparr>]"
proof (rule encode_decode_roundtrip)
  show "\<forall>m \<in> set [web_mapping, web_mapping\<lparr>ExternalIP := V4 203 0 113 2\<rparr>]. storable m"
    using storable_web_mapping by (simp add: storable_def)
qed




definition bsys0 :: bsys where
  "bsys0 = \<lparr>bst = newBackupStore, inflight = [], disk = (\<lambda>_. None)\<rparr>"

lemma binv_bsys0: "binv bsys0"
  by (simp add: binv_def bsys0_def newBackupStore_def)


text \<open>
  A request that equals the cached bytes is dropped even while a different write of the
  same VM is under way: the delete below is lost, and the file stays for good.
\<close>

lemma contended_delete_is_lost:
  "\<exists>\<tau>. bsteps [ALoad 7, AEnqueue 7 (Some ''x''), ATake, AFile 7, AEnqueue 7 None, ACommit 7] bsys0 \<tau> \<and>
       pending (bst \<tau>) = [] \<and> inflight \<tau> = [] \<and> disk \<tau> 7 = Some ''x'' \<and> \<not> closed (bst \<tau>)"
proof -
  let ?ok = "\<lambda>_::write_step. False"
  let ?sched = "map (\<lambda>a. (a, ?ok, RemoveOk))
                  [ALoad 7, AEnqueue 7 (Some ''x''), ATake, AFile 7, AEnqueue 7 None, ACommit 7]"
  note ev = bsys0_def newBackupStore_def enqueue_def flush_item_def file_op_def writeFile_def
    load_backup_def disk_read_def mgetd_def bytesEqual_def
  obtain \<tau> where acts: "do_acts ?sched bsys0 = Some \<tau>"
    and "pending (bst \<tau>) = []" "inflight \<tau> = []" "disk \<tau> 7 = Some ''x''" "\<not> closed (bst \<tau>)"
    by (simp add: ev)
  then show ?thesis using do_acts_steps [OF acts] by auto
qed

text \<open>
  C23: A flush leaves queued exactly the entries whose file operation failed, and reports
  success exactly if there is none; it caches exactly what it wrote.
\<close>

theorem flush_exact:
  assumes "mkeys_ok (pending s)"
  shows "(let (ok, s') = flush writeOk s in
      (ok \<longleftrightarrow> (\<forall>(v, d) \<in> set (pending s). writeOk v d)) \<and>
      (\<forall>v. mget (pending s') v = mget (filter (\<lambda>(v, d). \<not> writeOk v d) (pending s)) v) \<and>
      (\<forall>v. mget (cache s') v =
            (case mget (pending s) v of
               None \<Rightarrow> mget (cache s) v
             | Some d \<Rightarrow> if writeOk v d then Some d else None)))"
proof (cases "pending s = []")
  case True
  then show ?thesis by (simp add: flush_def cong: option.case_cong)
next
  case False
  then show ?thesis
    using assms flush_batch_pending [of writeOk "pending s" "s\<lparr>pending := []\<rparr>"]
      flush_batch_ok [of writeOk "pending s" "s\<lparr>pending := []\<rparr>"]
      flush_batch_cache [of "pending s" writeOk "s\<lparr>pending := []\<rparr>"]
    by (cases "flush_batch writeOk (pending s) (s\<lparr>pending := []\<rparr>)") (simp add: flush_def cong: option.case_cong)
qed

theorem flush_exact_witness:
  "let (ok, s') = flush (\<lambda>v d. v \<noteq> 7) (newBackupStore\<lparr>pending := [(7, None), (8, Some ''b'')]\<rparr>)
   in \<not> ok \<and> mget (pending s') 7 = Some None \<and> mget (pending s') 8 = None \<and>
      mget (cache s') 8 = Some (Some ''b'')"
  using flush_exact [of "newBackupStore\<lparr>pending := [(7, None), (8, Some ''b'')]\<rparr>" "\<lambda>v d. v \<noteq> 7"]
  by (auto simp: mkeys_ok_def newBackupStore_def split: prod.splits)

text \<open>
  C24: What \<open>warm\<close> loads is what later loads answer with, without touching the disk: for
  a VM with nothing pending whose only backup file is \<open>name\<close>, the answer is the decoded
  file and the store, with its count of disk reads, stays as it is. A file that cannot be
  read is skipped, and the VM then counts as having none (unless it was known before).
\<close>

theorem warm_answers_loads:
  assumes "(name, isDir) \<in> set entries" and "warm_vmid (name, isDir) = Some v"
    and "\<forall>e \<in> set entries. warm_vmid e = Some v \<longrightarrow> fst e = name"
    and "mget (pending s) v = None"
  shows "(let s' = snd (warm (DirOk entries) readName s) in
            load_backup rd v s' =
              (case readName name of
                 Some data \<Rightarrow> decode_load data
               | None \<Rightarrow> if mgetd False (known s) v
                         then decode_slice (mgetd None (cache s) v) else Inr None, s'))"
proof -
  let ?l = "fst (warm_read readName entries [] 0)"
  have "mget ?l v = readName name"
    using warm_read_lookup [OF assms(3), of readName "[]" 0] assms(1,2) by auto
  then show ?thesis
    using assms(4) warm_read_keys_ok [of "[]" readName entries 0]
      warm_merge_lookup [of ?l "s\<lparr>diskReads := diskReads s + snd (warm_read readName entries [] 0)\<rparr>" v]
    by (auto simp: warm_def Let_def load_backup_def warm_merge_pending decode_slice_def
        split: prod.splits option.splits)
qed

theorem warm_answers_loads_witness:
  "fst (load_backup (\<lambda>_. ReadErr) 101
     (snd (warm (DirOk [(''sub'', True), (''101.config'', False)])
                (\<lambda>_. Some (encodeMappings [web_mapping])) newBackupStore))) = Inr (Some [web_mapping])"
  using warm_answers_loads [of "''101.config''" False "[(''sub'', True), (''101.config'', False)]" 101
      newBackupStore "\<lambda>_. Some (encodeMappings [web_mapping])" "\<lambda>_. ReadErr"]
    warm_vmid_Itoa [of 101] dec_101
  by (auto simp: decode_load_encoded storable_web_mapping newBackupStore_def warm_vmid_dir
      Itoa_def in_int64_def Let_def)

text \<open>
  Closing. If the flusher, or the final flush, gets everything to disk, \<open>close\<close>
  reports success and nothing stays queued; otherwise it reports an error whenever
  something is still queued. Afterwards every save and delete is refused.
\<close>

theorem close_reports_the_truth:
  "(let (err, s') = close_store writeOk drained s in
      (err = None \<longrightarrow> pending s' = []) \<and>
      ((\<forall>v d. writeOk v d) \<and> drained \<and> \<not> closed s \<longrightarrow> err = None) \<and>
      save_backup v ms s' = s' \<and> delete_backup v s' = s')"
proof -
  let ?f = "flush writeOk (s\<lparr>closed := True\<rparr>)"
  have "fst ?f \<longrightarrow> pending (snd ?f) = []" using flush_all_ok by blast
  moreover have "(\<forall>v d. writeOk v d) \<longrightarrow> fst ?f" by (simp add: flush_def flush_batch_ok)
  ultimately show ?thesis
    by (auto simp: close_store_cases Let_def lastFlushError_def save_backup_def delete_backup_def)
qed

theorem close_reports_the_truth_witness:
  "let (err, s') = close_store (\<lambda>_ _. True) True
       (newBackupStore\<lparr>pending := [(7, None), (8, None)], started := True\<rparr>)
   in err = None \<and> pending s' = [] \<and> save_backup 8 [] s' = s'"
  using close_reports_the_truth [of "\<lambda>_ _. True" True
      "newBackupStore\<lparr>pending := [(7, None), (8, None)], started := True\<rparr>" 8 "[]"]
  by (auto simp: Let_def newBackupStore_def split: prod.splits)

text \<open>
  C25: A broken disk loses nothing: however many rounds fail in a row, every entry stays
  queued, the flusher stays armed, and the next delay is 1, 2, 4, 8, 16 and then 30 seconds.
\<close>

theorem broken_disk_loses_nothing:
  assumes "wake s" and "pending s \<noteq> []"
  shows "\<exists>s'. rounds (\<lambda>_ _. False) (Suc n) 0 s =
                Some (if n < 5 then 2 ^ n * second else 30 * second, s') \<and>
              wake s' \<and> (\<forall>v. mget (pending s') v = mget (pending s) v)"
  using failing_rounds [OF assms, of "Suc n" 0] unfolding backoff_value .

theorem broken_disk_loses_nothing_witness:
  "\<exists>s'. rounds (\<lambda>_ _. False) 9 0 (newBackupStore\<lparr>pending := [(7, None)], wake := True\<rparr>) =
          Some (30 * second, s') \<and> mget (pending s') 7 = Some None"
  using broken_disk_loses_nothing
    [of "newBackupStore\<lparr>pending := [(7, None)], wake := True\<rparr>" 8]
  by (auto simp: eval_nat_numeral simp del: rounds.simps)

end
