(* ===== verification/Host.thy ===== *)
theory Host
  imports Frr Nftables Backup
begin

text \<open>
  What the reconciler is wired to: the interfaces \<open>netboxClient\<close>,
  \<open>nftablesManager\<close> and \<open>frrManager\<close> of \<open>internal/reconciler/reconciler.go\<close> as a
  record of functions over the state \<open>'w\<close> of the outside world, and reading backup
  files. The locale \<open>host\<close> says what the reconciler relies on; the managers of
  \<open>Frr\<close> and \<open>Nftables\<close> provide it. A simulated host, on which every assumption
  about the commands holds, serves to evaluate the theorems.
\<close>

section \<open>The interfaces\<close>

record 'w deps =
  FetchNATMappings :: "'w \<Rightarrow> (gerror + NATMapping list) \<times> 'w"
  NftApply :: "NATMapping list \<Rightarrow> 'w \<Rightarrow> gerror option \<times> 'w"
  NftFlush :: "'w \<Rightarrow> gerror option \<times> 'w"
  FrrAdvertise :: "Addr \<Rightarrow> 'w \<Rightarrow> gerror option \<times> 'w"
  FrrWithdraw :: "Addr \<Rightarrow> 'w \<Rightarrow> gerror option \<times> 'w"
  FrrActiveIPs :: "'w \<Rightarrow> (gerror + Addr list) \<times> 'w"
  ReadBackup :: "'w \<Rightarrow> int \<Rightarrow> read_result"

locale host =
  lo: loopback ok addrs "FrrAdvertise d" "FrrWithdraw d" "FrrActiveIPs d" +
  nf: ruleset_manager ok table "NftApply d" "NftFlush d"
  for d :: "'w deps" and ok :: "'w \<Rightarrow> bool" and addrs :: "'w \<Rightarrow> Addr set"
    and table :: "'w \<Rightarrow> string option" +
  assumes advertise_table: "ok w \<Longrightarrow> FrrAdvertise d ip w = (err, w') \<Longrightarrow> table w' = table w"
    and withdraw_table: "ok w \<Longrightarrow> FrrWithdraw d ip w = (err, w') \<Longrightarrow> table w' = table w"
    and active_table: "ok w \<Longrightarrow> FrrActiveIPs d w = (res, w') \<Longrightarrow> table w' = table w"
    and apply_addrs: "ok w \<Longrightarrow> NftApply d ms w = (err, w') \<Longrightarrow> addrs w' = addrs w"
    and flush_addrs: "ok w \<Longrightarrow> NftFlush d w = (err, w') \<Longrightarrow> addrs w' = addrs w"
    and fetch_frame: "ok w \<Longrightarrow> FetchNATMappings d w = (ms_err, w') \<Longrightarrow>
      ok w' \<and> addrs w' = addrs w \<and> table w' = table w"

section \<open>The production wiring\<close>

definition live_deps ::
  "'w exec \<Rightarrow> Manager \<Rightarrow> 'w nft_host \<Rightarrow> ('w \<Rightarrow> (gerror + NATMapping list) \<times> 'w)
   \<Rightarrow> ('w \<Rightarrow> int \<Rightarrow> read_result) \<Rightarrow> 'w deps" where
  "live_deps exec m h fetch rd =
     \<lparr>FetchNATMappings = fetch, NftApply = Apply h, NftFlush = Flush h,
      FrrAdvertise = Advertise exec m, FrrWithdraw = Withdraw exec m,
      FrrActiveIPs = ActiveIPs exec m, ReadBackup = rd\<rparr>"

text \<open>Commands on addresses leave the table alone, those on the table the addresses, and
  fetching leaves both alone.\<close>

definition separate ::
  "'w exec \<Rightarrow> 'w nft_host \<Rightarrow> ('w \<Rightarrow> (gerror + NATMapping list) \<times> 'w) \<Rightarrow>
   ('w \<Rightarrow> Addr set) \<Rightarrow> ('w \<Rightarrow> string option) \<Rightarrow> bool" where
  "separate exec h fetch addrs table \<longleftrightarrow>
     (\<forall>args w. table (snd (exec args w)) = table w) \<and>
     (\<forall>s w. addrs (snd (nft_file h s w)) = addrs w) \<and>
     (\<forall>args w. addrs (snd (nft_args h args w)) = addrs w) \<and>
     (\<forall>w. addrs (snd (fetch w)) = addrs w \<and> table (snd (fetch w)) = table w)"

definition live_host ::
  "'w exec \<Rightarrow> Manager \<Rightarrow> 'w nft_host \<Rightarrow> ('w \<Rightarrow> (gerror + NATMapping list) \<times> 'w) \<Rightarrow>
   ('w \<Rightarrow> Addr set) \<Rightarrow> ('w \<Rightarrow> string option) \<Rightarrow> bool" where
  "live_host exec m h fetch addrs table \<longleftrightarrow>
     frr_host exec m addrs \<and> nft_tool h table \<and> separate exec h fetch addrs table"

lemma live_table:
  assumes "separate exec h fetch addrs table"
  shows "table (snd (Advertise exec m ip w)) = table w"
    and "table (snd (Withdraw exec m ip w)) = table w"
    and "table (snd (ActiveIPs exec m w)) = table w"
    and "addrs (snd (Apply h ms w)) = addrs w"
    and "addrs (snd (Flush h w)) = addrs w"
proof -
  have t: "table w' = table w" if "exec args w = (out, w')" for args w out w'
    using assms that unfolding separate_def by (metis snd_conv)
  have a: "addrs w' = addrs w" if "nft_file h s w = (out, w')" for s w out w'
    using assms that unfolding separate_def by (metis snd_conv)
  show "table (snd (Advertise exec m ip w)) = table w"
    by (auto simp: Advertise_def Let_def split: prod.splits dest!: t)
  show "table (snd (Withdraw exec m ip w)) = table w"
    by (auto simp: Withdraw_def Let_def split: prod.splits dest!: t)
  show "table (snd (ActiveIPs exec m w)) = table w"
    by (auto simp: ActiveIPs_def Let_def split: prod.splits option.splits dest!: t)
  show "addrs (snd (Apply h ms w)) = addrs w"
    by (auto simp: Apply_def Let_def split: prod.splits temp_outcome.splits dest!: a)
  have f: "addrs w' = addrs w" if "nft_args h args w = (out, w')" for args w out w'
    using assms that unfolding separate_def by (metis snd_conv)
  show "addrs (snd (Flush h w)) = addrs w"
    by (auto simp: Flush_def Let_def split: prod.splits dest!: f)
qed

interpretation live: host "live_deps exec m h fetch rd" "\<lambda>_. live_host exec m h fetch addrs table"
  addrs table for exec m h fetch rd addrs table
proof (unfold_locales, unfold live_deps_def deps.simps)
  fix w ip ms err w' res ms_err
  assume host: "live_host exec m h fetch addrs table"
  then have frr: "frr_host exec m addrs" and nft: "nft_tool h table"
    and sep: "separate exec h fetch addrs table"
    by (simp_all add: live_host_def)
  note frame = live_table [OF sep]
  show "live_host exec m h fetch addrs table \<and>
      addrs w' = (if err = None then insert ip (addrs w) else addrs w)"
    if "Is4 ip" "Advertise exec m ip w = (err, w')"
    using frr.advertise [OF frr that] host by blast
  show "live_host exec m h fetch addrs table \<and>
      addrs w' = (if err = None then addrs w - {ip} else addrs w)"
    if "Is4 ip" "Withdraw exec m ip w = (err, w')"
    using frr.withdraw [OF frr that] host by blast
  show "live_host exec m h fetch addrs table \<and> addrs w' = addrs w \<and>
      (\<forall>ips. res = Inr ips \<longrightarrow> distinct ips \<and> set ips = {a \<in> addrs w. \<not> IsLoopback a})"
    if "ActiveIPs exec m w = (res, w')"
    using frr.active [OF frr that] host by blast
  show "live_host exec m h fetch addrs table \<and>
      table w' = (if err = None then Some (render ms) else table w)"
    if "Apply h ms w = (err, w')"
    using nft.apply_rules [OF nft that] host by blast
  show "live_host exec m h fetch addrs table \<and> table w' = (if err = None then None else table w)"
    if "Flush h w = (err, w')"
    using nft.flush_rules [OF nft that] host by blast
  show "table w' = table w" if "Advertise exec m ip w = (err, w')"
    using frame(1) [of m ip w] that by simp
  show "table w' = table w" if "Withdraw exec m ip w = (err, w')"
    using frame(2) [of m ip w] that by simp
  show "table w' = table w" if "ActiveIPs exec m w = (res, w')"
    using frame(3) [of m w] that by simp
  show "addrs w' = addrs w" if "Apply h ms w = (err, w')"
    using frame(4) [of ms w] that by simp
  show "addrs w' = addrs w" if "Flush h w = (err, w')"
    using frame(5) [of w] that by simp
  show "live_host exec m h fetch addrs table \<and> addrs w' = addrs w \<and> table w' = table w"
    if "fetch w = (ms_err, w')"
    using sep that host unfolding separate_def by (metis snd_conv)
qed

section \<open>A simulated host\<close>

text \<open>
  A host on which the assumptions hold, to evaluate the theorems on: addresses, the loaded
  ruleset, NetBox's answer, the \<open>ip addr\<close> verbs that fail, and whether \<open>nft\<close> fails.
\<close>

type_synonym quad = "8 word \<times> 8 word \<times> 8 word \<times> 8 word"

record sim =
  sim_quads :: "quad list"
  sim_table :: "string option"
  sim_netbox :: "gerror + NATMapping list"
  sim_down :: "string list"
  sim_nft_down :: bool

fun quad_addr :: "quad \<Rightarrow> Addr" where
  "quad_addr (a, b, c, d) = V4 a b c d"

definition sim_addrs :: "sim \<Rightarrow> Addr set" where
  "sim_addrs w = set (map quad_addr (sim_quads w))"

definition arg_quad :: "string \<Rightarrow> quad option" where
  "arg_quad s =
     (case ParseAddr (TrimSuffix s ''/32'') of Some (V4 a b c d) \<Rightarrow> Some (a, b, c, d) | _ \<Rightarrow> None)"

definition quad_json :: "quad \<Rightarrow> json" where
  "quad_json q =
     JObj [(''family'', JStr ''inet''), (''local'', JStr (Addr_String (quad_addr q))),
           (''prefixlen'', JNum (Itoa 32))]"

definition sim_listing :: "quad list \<Rightarrow> string" where
  "sim_listing qs =
     MarshalIndent (JArr [JObj [(''ifname'', JStr ''lo''), (''addr_info'', JArr (map quad_json qs))]])"

definition sim_add :: "quad \<Rightarrow> sim \<Rightarrow> (string \<times> bool) \<times> sim" where
  "sim_add q w =
     (if q \<in> set (sim_quads w) then ((''RTNETLINK answers: File exists'', True), w)
      else (('''', False), w\<lparr>sim_quads := q # sim_quads w\<rparr>))"

definition sim_del :: "quad \<Rightarrow> sim \<Rightarrow> (string \<times> bool) \<times> sim" where
  "sim_del q w =
     (if q \<in> set (sim_quads w) then (('''', False), w\<lparr>sim_quads := removeAll q (sim_quads w)\<rparr>)
      else ((''RTNETLINK answers: Cannot assign requested address'', True), w))"

definition sim_exec :: "sim exec" where
  "sim_exec args w =
     (if args ! 2 \<in> set (sim_down w) then ((''Operation not permitted'', True), w)
      else if length args = 7 then ((sim_listing (sim_quads w), False), w)
      else case arg_quad (args ! 3) of
             None \<Rightarrow> ((''Error: inet prefix is expected'', True), w)
           | Some q \<Rightarrow> if args ! 2 = ''add'' then sim_add q w else sim_del q w)"

definition sim_nft :: "sim nft_host" where
  "sim_nft =
     \<lparr>temp_file = (\<lambda>w. TempOk),
      nft_file = (\<lambda>s w. if sim_nft_down w then ((''Error'', True), w)
                        else (('''', False), w\<lparr>sim_table := Some s\<rparr>)),
      nft_args = (\<lambda>args w. if sim_table w = None then ((''No such file or directory'', True), w)
                           else (('''', False), w\<lparr>sim_table := None\<rparr>))\<rparr>"

definition sim_fetch :: "sim \<Rightarrow> (gerror + NATMapping list) \<times> sim" where
  "sim_fetch w = (sim_netbox w, w)"

abbreviation sim_frr :: Manager where
  "sim_frr \<equiv> \<lparr>enabled = True, loIface = ''lo''\<rparr>"

abbreviation sim_live :: "(int \<Rightarrow> read_result) \<Rightarrow> sim deps" where
  "sim_live rd \<equiv> live_deps sim_exec sim_frr sim_nft sim_fetch (\<lambda>_. rd)"

abbreviation sim_ok :: "sim \<Rightarrow> bool" where
  "sim_ok \<equiv> \<lambda>_. live_host sim_exec sim_frr sim_nft sim_fetch sim_addrs sim_table"

lemma arg_quad_addr: "arg_quad (Addr_String (quad_addr q) @ ''/32'') = Some q"
  by (cases q) (simp add: arg_quad_def TrimSuffix_def ParseAddr_string4)

lemma quad_addr_inj: "quad_addr p = quad_addr q \<longleftrightarrow> p = q"
  by (cases p; cases q) simp

lemma Is4_quad: "Is4 ip \<Longrightarrow> \<exists>q. ip = quad_addr q"
  by (cases ip) (auto intro: exI [of _ "(_, _, _, _)"])

lemma decode_listing:
  "decode_entries (sim_listing qs) =
     Some [\<lparr>IFName = ''lo'', AddrInfo = map (\<lambda>q. \<lparr>Family = ''inet'', Local = Addr_String (quad_addr q),
                                               PrefixLen = 32\<rparr>) qs\<rparr>]"
proof -
  let ?zero = "\<lparr>Family = [], Local = [], PrefixLen = 0\<rparr>"
  let ?info = "\<lambda>q. \<lparr>Family = ''inet'', Local = Addr_String (quad_addr q), PrefixLen = 32\<rparr>"
  let ?j = "JArr [JObj [(''ifname'', JStr ''lo''), (''addr_info'', JArr (map quad_json qs))]]"
  have one: "decode_struct info_field ?zero (quad_json q) = Some (?info q)" for q
    by (simp add: decode_struct_def quad_json_def info_field_def EqualFold_def to_lower_def
        decode_string_def decode_int_def Atoi_Itoa in_int64_def)
  have "those (map (decode_struct info_field ?zero) (map quad_json qs)) = Some (map ?info qs)"
    by (induction qs) (simp_all add: one)
  moreover have "valid_utf8 (Addr_String (quad_addr q))" for q
    using MarshalText_ascii [of "quad_addr q"] by (cases q) (simp add: MarshalText_def)
  then have "wf_json ?j" by (auto simp: quad_json_def valid_utf8_ascii)
  then have "json_parse (MarshalIndent ?j) = Some ?j"
    using json_parse_MarshalIndent [of ?j "[]"] by simp
  ultimately show ?thesis
    by (simp add: decode_entries_def sim_listing_def decode_array_def decode_struct_def
        entry_field_def EqualFold_def to_lower_def decode_string_def)
qed

lemma listed_listing: "listed [\<lparr>IFName = n, AddrInfo = map (\<lambda>q. \<lparr>Family = f, Local = Addr_String (quad_addr q),
    PrefixLen = 32\<rparr>) qs\<rparr>] = set (map quad_addr qs)"
proof -
  have "ParseAddr (Addr_String (quad_addr q)) = Some (quad_addr q)" for q
    by (cases q) (simp add: ParseAddr_string4)
  then show ?thesis by (auto simp: listed_def)
qed

lemma sim_exec_simps:
  "sim_exec [''ip'', ''addr'', ''add'', Addr_String (quad_addr q) @ ''/32'', ''dev'', lo] w =
     (if ''add'' \<in> set (sim_down w) then ((''Operation not permitted'', True), w) else sim_add q w)"
  "sim_exec [''ip'', ''addr'', ''del'', Addr_String (quad_addr q) @ ''/32'', ''dev'', lo] w =
     (if ''del'' \<in> set (sim_down w) then ((''Operation not permitted'', True), w) else sim_del q w)"
  by (simp_all add: sim_exec_def arg_quad_addr del: quad_addr.simps Addr_String.simps)

lemma sim_ip_tool: "ip_tool sim_exec lo sim_addrs"
proof -
  have "ip_add_ok sim_exec lo sim_addrs"
    unfolding ip_add_ok_def
    by (auto dest!: Is4_quad simp: sim_exec_simps sim_add_def sim_addrs_def quad_addr_inj
        HasPrefix_def simp del: quad_addr.simps split: if_splits)
  moreover have "ip_del_ok sim_exec lo sim_addrs"
    unfolding ip_del_ok_def
    by (auto dest!: Is4_quad simp: sim_exec_simps sim_del_def sim_addrs_def quad_addr_inj
        HasPrefix_def simp del: quad_addr.simps split: if_splits)
  moreover have "ip_show_ok sim_exec lo sim_addrs"
    unfolding ip_show_ok_def
    by (auto simp: sim_exec_def decode_listing listed_listing sim_addrs_def)
  ultimately show ?thesis by (simp add: ip_tool_def)
qed

lemma sim_host: "sim_ok w"
proof -
  have "nft_tool sim_nft sim_table"
    by (auto simp: nft_tool_def nft_file_ok_def nft_delete_ok_def sim_nft_def)
  moreover have "separate sim_exec sim_nft sim_fetch sim_addrs sim_table"
    by (auto simp: separate_def sim_exec_def sim_nft_def sim_fetch_def sim_addrs_def sim_add_def
        sim_del_def split: option.splits)
  ultimately show ?thesis by (simp add: live_host_def frr_host_def sim_ip_tool)
qed

text \<open>What the managers compute on the simulated host.\<close>

lemma sim_Advertise:
  "Advertise sim_exec sim_frr (V4 a b c e) w =
     (if ''add'' \<in> set (sim_down w)
      then (Some (Errorf (''ip addr add '' @ Addr_String (V4 a b c e) @ ''/32'')), w)
      else (None, if (a, b, c, e) \<in> set (sim_quads w) then w
                  else w\<lparr>sim_quads := (a, b, c, e) # sim_quads w\<rparr>))"
proof -
  have x: "sim_exec [''ip'', ''addr'', ''add'', Addr_String (V4 a b c e) @ ''/32'', ''dev'', ''lo''] w =
     (if ''add'' \<in> set (sim_down w) then ((''Operation not permitted'', True), w)
      else sim_add (a, b, c, e) w)"
    using sim_exec_simps(1) [of "(a, b, c, e)" "''lo''" w] by (simp only: quad_addr.simps)
  show ?thesis unfolding Advertise_def Let_def
    by (simp add: x sim_add_def isAlreadyExists_iff HasPrefix_def del: Addr_String.simps)
qed

lemma sim_Withdraw:
  "Withdraw sim_exec sim_frr (V4 a b c e) w =
     (if ''del'' \<in> set (sim_down w)
      then (Some (Errorf (''ip addr del '' @ Addr_String (V4 a b c e) @ ''/32'')), w)
      else (None, if (a, b, c, e) \<in> set (sim_quads w)
                  then w\<lparr>sim_quads := removeAll (a, b, c, e) (sim_quads w)\<rparr> else w))"
proof -
  have x: "sim_exec [''ip'', ''addr'', ''del'', Addr_String (V4 a b c e) @ ''/32'', ''dev'', ''lo''] w =
     (if ''del'' \<in> set (sim_down w) then ((''Operation not permitted'', True), w)
      else sim_del (a, b, c, e) w)"
    using sim_exec_simps(2) [of "(a, b, c, e)" "''lo''" w] by (simp only: quad_addr.simps)
  show ?thesis unfolding Withdraw_def Let_def
    by (simp add: x sim_del_def isNoSuchProcess_iff isAddrNotAssigned_iff HasPrefix_def
        del: Addr_String.simps)
qed

lemma sim_ActiveIPs:
  "''-4'' \<notin> set (sim_down w) \<Longrightarrow> ActiveIPs sim_exec sim_frr w =
     (Inr (remdups (filter (\<lambda>a. \<not> IsLoopback a) (map quad_addr (sim_quads w)))), w)"
proof -
  have p: "ParseAddr (Addr_String (quad_addr q)) = Some (quad_addr q)" for q
    by (cases q) (simp add: ParseAddr_string4)
  have "List.map_filter info_addr
      (map (\<lambda>q. \<lparr>Family = ''inet'', Local = Addr_String (quad_addr q), PrefixLen = 32\<rparr>) qs) =
    filter (\<lambda>a. \<not> IsLoopback a) (map quad_addr qs)" for qs
    by (induction qs) (simp_all add: info_addr_def p List.map_filter_simps)
  moreover assume "''-4'' \<notin> set (sim_down w)"
  ultimately show ?thesis
    by (simp add: ActiveIPs_def sim_exec_def decode_listing entries_addrs_def)
qed

lemma sim_Apply:
  "Apply sim_nft ms w =
     (if sim_nft_down w then (Some (Errorf ''nft -f failed''), w)
      else (None, w\<lparr>sim_table := Some (render ms)\<rparr>))"
  by (simp add: Apply_def sim_nft_def)

lemmas sim_simps = sim_Advertise sim_Withdraw sim_ActiveIPs sim_Apply live_deps_def sim_fetch_def

section \<open>Properties\<close>

text \<open>
  Against a host whose \<open>ip\<close> command behaves as documented, a nil error of \<open>Advertise\<close>
  or \<open>Withdraw\<close> means that the address is, or is not, on the interface afterwards, whether
  the command succeeded or found nothing to do; any other result leaves the interface as it was.
\<close>

theorem advertise_withdraw_effect:
  assumes "frr_host exec m addrs" and "Is4 ip"
  shows "(let (err, w') = Advertise exec m ip w
          in addrs w' = (if err = None then insert ip (addrs w) else addrs w)) \<and>
         (let (err, w') = Withdraw exec m ip w
          in addrs w' = (if err = None then addrs w - {ip} else addrs w))"
  using frr.advertise [OF assms] frr.withdraw [OF assms] by (simp add: split_beta)

definition sim_empty :: sim where
  "sim_empty = \<lparr>sim_quads = [], sim_table = None, sim_netbox = Inr [], sim_down = [],
                sim_nft_down = False\<rparr>"

theorem advertise_withdraw_effect_witness:
  "sim_addrs (snd (Advertise sim_exec sim_frr (V4 203 0 113 9) sim_empty)) = {V4 203 0 113 9}"
proof -
  have "frr_host sim_exec sim_frr sim_addrs" using sim_host by (simp add: live_host_def)
  from advertise_withdraw_effect [OF this, of "V4 203 0 113 9" sim_empty] show ?thesis
    by (simp add: sim_Advertise sim_empty_def sim_addrs_def split: prod.splits)
qed

end
