(* ===== verification/Reconciler_State.thy ===== *)
theory Reconciler_State
  imports Host State_Store
begin

text \<open>
  The state of the reconciler, \<open>internal/reconciler/reconciler.go\<close>: the struct
  \<open>Reconciler\<close> without its interfaces (the record \<open>deps\<close>) and its mutexes. The channel
  of reconcile requests holds at most one, that of webhook deltas at most 32. The Go set
  \<open>advertisedIPs\<close> is a list without duplicates, like every Go map in an order that stands
  for the order of iteration.
\<close>

section \<open>Constants\<close>

datatype apply_source =
  sourceFullFetch | sourceBackupFallback | sourceWebhookDelta | sourceCached string

definition stagedTTL :: duration where "stagedTTL = 15 * minute"
definition defaultReconcileInterval :: duration where "defaultReconcileInterval = 60 * second"
definition webhookDeltaCap :: nat where "webhookDeltaCap = 32"

section \<open>State\<close>

record WebhookDelta =
  Event :: string
  Model :: string
  DeltaVMName :: string
  DeltaVMID :: int
  HasVMID :: bool
  DeltaInternalIP :: string
  NATOutside :: "string list"

record Reconciler =
  node :: string
  store :: Store
  reconcileCh :: bool
  webhookDeltaCh :: "WebhookDelta list"
  backup :: backupStore
  lastRulesetKey :: string
  rulesetKeyValid :: bool
  lastAppliedByVMID :: "(int, NATMapping list) gomap"
  unresolvedStreak :: nat
  mappingCacheReady :: bool
  mappingByVMID :: "(int, NATMapping list) gomap"
  mappingPendingByName :: "(string, NATMapping list) gomap"
  vmIDByName :: "(string, int) gomap"
  verifyPending :: bool
  lastFullFetch :: gtime
  lastActiveKey :: string
  intervalNs :: int
  advertisedIPs :: "Addr list"
  kernelSynced :: bool

definition newReconciler :: "string \<Rightarrow> Store \<Rightarrow> Reconciler" where
  "newReconciler n st =
     \<lparr>node = n, store = st, reconcileCh = False, webhookDeltaCh = [], backup = newBackupStore,
      lastRulesetKey = [], rulesetKeyValid = False, lastAppliedByVMID = [], unresolvedStreak = 0,
      mappingCacheReady = False, mappingByVMID = [], mappingPendingByName = [], vmIDByName = [],
      verifyPending = False, lastFullFetch = 0, lastActiveKey = [], intervalNs = 0,
      advertisedIPs = [], kernelSynced = False\<rparr>"

lemma newReconciler_simps [simp]:
  "node (newReconciler n st) = n" "store (newReconciler n st) = st"
  "backup (newReconciler n st) = newBackupStore" "rulesetKeyValid (newReconciler n st) = False"
  "lastAppliedByVMID (newReconciler n st) = []" "mappingCacheReady (newReconciler n st) = False"
  "mappingByVMID (newReconciler n st) = []" "mappingPendingByName (newReconciler n st) = []"
  "vmIDByName (newReconciler n st) = []" "advertisedIPs (newReconciler n st) = []"
  "kernelSynced (newReconciler n st) = False" "reconcileCh (newReconciler n st) = False"
  "webhookDeltaCh (newReconciler n st) = []" "verifyPending (newReconciler n st) = False"
  by (simp_all add: newReconciler_def)

section \<open>Signals\<close>

definition ApplyWebhookDelta :: "WebhookDelta \<Rightarrow> Reconciler \<Rightarrow> bool \<times> Reconciler" where
  "ApplyWebhookDelta d R =
     (if length (webhookDeltaCh R) < webhookDeltaCap
      then (True, R\<lparr>webhookDeltaCh := webhookDeltaCh R @ [d]\<rparr>)
      else (False, R))"

definition TriggerReconcile :: "Reconciler \<Rightarrow> Reconciler" where
  "TriggerReconcile R = R\<lparr>reconcileCh := True\<rparr>"

text \<open>\<open>verifyLater\<close> sets a timer unless one is set; \<open>verify_fires\<close> is its callback.\<close>

definition verifyLater :: "Reconciler \<Rightarrow> Reconciler" where
  "verifyLater R = (if verifyPending R then R else R\<lparr>verifyPending := True\<rparr>)"

definition verify_fires :: "Reconciler \<Rightarrow> Reconciler" where
  "verify_fires R = TriggerReconcile (R\<lparr>verifyPending := False\<rparr>)"

definition reconcileIntervalOrDefault :: "Reconciler \<Rightarrow> duration" where
  "reconcileIntervalOrDefault R = (if 0 < intervalNs R then intervalNs R else defaultReconcileInterval)"

section \<open>The gate for snapshot-driven fetches\<close>

definition activeStateKey :: "Reconciler \<Rightarrow> string" where
  "activeStateKey R =
     concat (map (\<lambda>n. Itoa n @ '','')
       (sort (map VMID (GetActive (store R) @ GetStaged (store R)))))"

definition shouldFullFetchForSnapshot :: "gtime \<Rightarrow> duration \<Rightarrow> Reconciler \<Rightarrow> bool" where
  "shouldFullFetchForSnapshot now interval R \<longleftrightarrow>
     activeStateKey R \<noteq> lastActiveKey R \<or>
     interval \<le> 0 \<or> interval \<le> now - lastFullFetch R"

definition expireStagedVMs :: "gtime \<Rightarrow> Reconciler \<Rightarrow> Reconciler" where
  "expireStagedVMs now R = R\<lparr>store := snd (ExpireStaged (now - stagedTTL) (store R))\<rparr>"

end
