(* ===== verification/Bgp.thy ===== *)
theory Bgp
  imports Reconciler_State
begin

text \<open>
  Converging the addresses on the loopback interface: \<open>reconcileBGP\<close>,
  \<open>adoptKernelStateLocked\<close>, \<open>hasNewAdvertisements\<close> and \<open>FlushRoutes\<close> of
  \<open>internal/reconciler/reconciler.go\<close>. The state that is passed on is the reconciler and
  the outside world. The lemmas about the kernel are proved from the contract \<open>host\<close> of
  the managers.
\<close>

section \<open>Operations\<close>

definition hasNewAdvertisements :: "Addr list \<Rightarrow> Reconciler \<Rightarrow> bool" where
  "hasNewAdvertisements desired R \<longleftrightarrow> list_ex (\<lambda>ip. ip \<notin> set (advertisedIPs R)) desired"

fun advertise_new :: "'w deps \<Rightarrow> Addr list \<Rightarrow> Reconciler \<times> 'w \<Rightarrow> gerror list \<times> Reconciler \<times> 'w"
where
  "advertise_new d [] (R, w) = ([], R, w)"
| "advertise_new d (ip # ips) (R, w) =
     (if ip \<in> set (advertisedIPs R) then advertise_new d ips (R, w)
      else case FrrAdvertise d ip w of
             (Some err, w') \<Rightarrow>
               (let (errs, R', w'') = advertise_new d ips (R, w')
                in (Wrapf (''advertise '' @ Addr_String ip) err # errs, R', w''))
           | (None, w') \<Rightarrow>
               advertise_new d ips (R\<lparr>advertisedIPs := advertisedIPs R @ [ip]\<rparr>, w'))"

fun withdraw_old ::
  "'w deps \<Rightarrow> Addr list \<Rightarrow> Addr list \<Rightarrow> Reconciler \<times> 'w \<Rightarrow> gerror list \<times> Reconciler \<times> 'w"
where
  "withdraw_old d desired [] (R, w) = ([], R, w)"
| "withdraw_old d desired (ip # ips) (R, w) =
     (if ip \<in> set desired then withdraw_old d desired ips (R, w)
      else case FrrWithdraw d ip w of
             (Some err, w') \<Rightarrow>
               (let (errs, R', w'') = withdraw_old d desired ips (R, w')
                in (Wrapf (''withdraw '' @ Addr_String ip) err # errs, R', w''))
           | (None, w') \<Rightarrow>
               withdraw_old d desired ips
                 (R\<lparr>advertisedIPs := filter (\<lambda>a. a \<noteq> ip) (advertisedIPs R)\<rparr>, w'))"

definition adoptKernelStateLocked ::
  "'w deps \<Rightarrow> Addr list \<Rightarrow> Reconciler \<times> 'w \<Rightarrow> Reconciler \<times> 'w" where
  "adoptKernelStateLocked d managed s =
     (case s of (R, w) \<Rightarrow>
        case FrrActiveIPs d w of
          (Inl err, w') \<Rightarrow> (R, w')
        | (Inr act, w') \<Rightarrow>
            (R\<lparr>advertisedIPs := advertisedIPs R @
                 filter (\<lambda>ip. ip \<in> set managed \<and> ip \<notin> set (advertisedIPs R)) act,
               kernelSynced := True\<rparr>, w'))"

definition reconcileBGP ::
  "'w deps \<Rightarrow> Addr list \<Rightarrow> Addr list \<Rightarrow> Reconciler \<times> 'w \<Rightarrow> gerror option \<times> Reconciler \<times> 'w" where
  "reconcileBGP d desired managed s0 =
     (let s1 = (if \<not> kernelSynced (fst s0) \<and> 0 < length managed
                then adoptKernelStateLocked d managed s0 else s0);
          (errs1, s2) = advertise_new d desired s1;
          (errs2, s3) = withdraw_old d desired (advertisedIPs (fst s2)) s2
      in (if 0 < length (errs1 @ errs2) then Some (Errs (errs1 @ errs2)) else None, s3))"

definition FlushRoutes :: "'w deps \<Rightarrow> Reconciler \<times> 'w \<Rightarrow> gerror option \<times> Reconciler \<times> 'w" where
  "FlushRoutes d s = reconcileBGP d [] [] s"

section \<open>What each step does\<close>

text \<open>The addresses the reconciler believes to be on the interface are there, and are
  IPv4 addresses (the only ones a 32-bit prefix is meant for).\<close>

definition adv_inv :: "('w \<Rightarrow> Addr set) \<Rightarrow> Reconciler \<Rightarrow> 'w \<Rightarrow> bool" where
  "adv_inv addrs R w \<longleftrightarrow>
     distinct (advertisedIPs R) \<and> set (advertisedIPs R) \<subseteq> addrs w \<and> (\<forall>ip \<in> set (advertisedIPs R). Is4 ip)"

text \<open>Only these two fields of the reconciler change.\<close>

definition bgp_frame :: "Reconciler \<Rightarrow> Reconciler \<Rightarrow> bool" where
  "bgp_frame R R' \<longleftrightarrow> R' = R\<lparr>advertisedIPs := advertisedIPs R', kernelSynced := kernelSynced R'\<rparr>"

lemma bgp_frame_refl [simp]: "bgp_frame R R"
  by (simp add: bgp_frame_def)

lemma bgp_frame_trans: "bgp_frame R R' \<Longrightarrow> bgp_frame R' R'' \<Longrightarrow> bgp_frame R R''"
  unfolding bgp_frame_def by (cases R; cases R'; cases R'') simp

lemma bgp_frame_simps [simp]:
  "bgp_frame R (R\<lparr>advertisedIPs := as\<rparr>)" "bgp_frame R (R\<lparr>advertisedIPs := as, kernelSynced := k\<rparr>)"
  by (simp_all add: bgp_frame_def)

context host
begin

lemma advertise_new_spec:
  assumes "advertise_new d ips (R, w) = (errs, R', w')"
    and "ok w" "adv_inv addrs R w" "\<forall>ip \<in> set ips. Is4 ip"
  shows "ok w' \<and> table w' = table w \<and> bgp_frame R R' \<and> kernelSynced R' = kernelSynced R \<and>
    adv_inv addrs R' w' \<and> addrs w' = addrs w \<union> set (advertisedIPs R') \<and>
    set (advertisedIPs R) \<subseteq> set (advertisedIPs R') \<and>
    set (advertisedIPs R') \<subseteq> set (advertisedIPs R) \<union> set ips \<and>
    (errs = [] \<longrightarrow> set ips \<subseteq> set (advertisedIPs R'))"
  using assms
proof (induction ips arbitrary: R w errs R' w')
  case Nil
  then show ?case by (auto simp: adv_inv_def)
next
  case (Cons ip ips)
  show ?case
  proof (cases "ip \<in> set (advertisedIPs R)")
    case True
    then have "advertise_new d ips (R, w) = (errs, R', w')" using Cons.prems(1) by simp
    with Cons.IH [OF this] Cons.prems True show ?thesis by auto
  next
    case False
    obtain err w1 where call: "FrrAdvertise d ip w = (err, w1)" by fastforce
    have lo: "ok w1" "addrs w1 = (if err = None then insert ip (addrs w) else addrs w)"
      "table w1 = table w"
      using lo.advertise [OF _ _ call] advertise_table [OF _ call] Cons.prems by auto
    show ?thesis
    proof (cases err)
      case None
      let ?R = "R\<lparr>advertisedIPs := advertisedIPs R @ [ip]\<rparr>"
      have "advertise_new d ips (?R, w1) = (errs, R', w')"
        using Cons.prems(1) False call None by simp
      moreover have "adv_inv addrs ?R w1"
        using Cons.prems(3,4) lo(2) None False by (auto simp: adv_inv_def)
      ultimately have "ok w' \<and> table w' = table w1 \<and> bgp_frame ?R R' \<and> kernelSynced R' = kernelSynced R \<and>
        adv_inv addrs R' w' \<and> addrs w' = addrs w1 \<union> set (advertisedIPs R') \<and>
        insert ip (set (advertisedIPs R)) \<subseteq> set (advertisedIPs R') \<and>
        set (advertisedIPs R') \<subseteq> insert ip (set (advertisedIPs R)) \<union> set ips \<and>
        (errs = [] \<longrightarrow> set ips \<subseteq> set (advertisedIPs R'))"
        using Cons.IH [of ?R w1 errs R' w'] lo(1) Cons.prems(4) by simp
      then show ?thesis using lo None bgp_frame_trans [of R ?R R'] by auto
    next
      case (Some e)
      obtain errs1 where "advertise_new d ips (R, w1) = (errs1, R', w')" "errs \<noteq> []"
        using Cons.prems(1) False call Some by (auto split: prod.splits)
      with Cons.IH [of R w1 errs1 R' w'] lo Some Cons.prems(3,4) show ?thesis
        by (auto simp: adv_inv_def)
    qed
  qed
qed

lemma withdraw_old_spec:
  assumes "withdraw_old d desired ips (R, w) = (errs, R', w')"
    and "ok w" "adv_inv addrs R w" "set ips \<subseteq> set (advertisedIPs R)" "distinct ips"
  shows "ok w' \<and> table w' = table w \<and> bgp_frame R R' \<and> kernelSynced R' = kernelSynced R \<and>
    adv_inv addrs R' w' \<and> set (advertisedIPs R') \<subseteq> set (advertisedIPs R) \<and>
    set (advertisedIPs R) - set (advertisedIPs R') \<subseteq> set ips - set desired \<and>
    addrs w' = addrs w - (set (advertisedIPs R) - set (advertisedIPs R')) \<and>
    (errs = [] \<longrightarrow> set ips \<inter> set (advertisedIPs R') \<subseteq> set desired)"
  using assms
proof (induction ips arbitrary: R w errs R' w')
  case Nil
  then show ?case by (auto simp: adv_inv_def)
next
  case (Cons ip ips)
  show ?case
  proof (cases "ip \<in> set desired")
    case True
    then have "withdraw_old d desired ips (R, w) = (errs, R', w')" using Cons.prems(1) by simp
    with Cons.IH [OF this] Cons.prems True show ?thesis by auto
  next
    case False
    have ip: "Is4 ip" using Cons.prems(3,4) by (auto simp: adv_inv_def)
    obtain err w1 where call: "FrrWithdraw d ip w = (err, w1)" by fastforce
    have lo: "ok w1" "addrs w1 = (if err = None then addrs w - {ip} else addrs w)"
      "table w1 = table w"
      using lo.withdraw [OF _ ip call] withdraw_table [OF _ call] Cons.prems by auto
    show ?thesis
    proof (cases err)
      case None
      let ?R = "R\<lparr>advertisedIPs := filter (\<lambda>a. a \<noteq> ip) (advertisedIPs R)\<rparr>"
      have call': "withdraw_old d desired ips (?R, w1) = (errs, R', w')"
        using Cons.prems(1) False call None by simp
      moreover have "adv_inv addrs ?R w1"
        using Cons.prems(3) lo(2) None by (auto simp: adv_inv_def)
      moreover have "set ips \<subseteq> set (advertisedIPs ?R)" "distinct ips"
        using Cons.prems(4,5) by auto
      ultimately have *: "ok w' \<and> table w' = table w1 \<and> bgp_frame ?R R' \<and> kernelSynced R' = kernelSynced R \<and>
        adv_inv addrs R' w' \<and> set (advertisedIPs R') \<subseteq> set (advertisedIPs R) - {ip} \<and>
        set (advertisedIPs R) - {ip} - set (advertisedIPs R') \<subseteq> set ips - set desired \<and>
        addrs w' = addrs w1 - (set (advertisedIPs R) - {ip} - set (advertisedIPs R')) \<and>
        (errs = [] \<longrightarrow> set ips \<inter> set (advertisedIPs R') \<subseteq> set desired)"
        using Cons.IH [of ?R w1 errs R' w'] lo(1) by (simp add: set_diff_eq [symmetric] set_minus_filter_out)
      have "ip \<in> addrs w" using Cons.prems(3,4) by (auto simp: adv_inv_def)
      with * show ?thesis using lo None False bgp_frame_trans [of R ?R R'] Cons.prems(4) by auto
    next
      case (Some e)
      obtain errs1 where "withdraw_old d desired ips (R, w1) = (errs1, R', w')" "errs \<noteq> []"
        using Cons.prems(1) False call Some by (auto split: prod.splits)
      with Cons.IH [of R w1 errs1 R' w'] lo Some Cons.prems(3-5) show ?thesis
        by (auto simp: adv_inv_def)
    qed
  qed
qed

lemma adopt_spec:
  assumes "adoptKernelStateLocked d managed (R, w) = (R', w')" and "ok w" "adv_inv addrs R w"
    and "\<forall>a \<in> set managed. Is4 a"
  shows "ok w' \<and> table w' = table w \<and> addrs w' = addrs w \<and> bgp_frame R R' \<and> adv_inv addrs R' w' \<and>
    (if kernelSynced R' \<and> \<not> kernelSynced R
     then set (advertisedIPs R') = set (advertisedIPs R) \<union> {a \<in> addrs w. \<not> IsLoopback a \<and> a \<in> set managed}
     else kernelSynced R' = kernelSynced R \<and>
       (set (advertisedIPs R') = set (advertisedIPs R) \<or>
        set (advertisedIPs R') = set (advertisedIPs R) \<union> {a \<in> addrs w. \<not> IsLoopback a \<and> a \<in> set managed}))"
proof -
  obtain res w1 where call: "FrrActiveIPs d w = (res, w1)" by fastforce
  note lo = lo.active [OF assms(2) call] active_table [OF assms(2) call]
  show ?thesis
    using assms lo call
    by (cases res) (auto simp: adoptKernelStateLocked_def adv_inv_def)
qed

end

section \<open>Convergence\<close>

text \<open>The addresses taken over from the kernel before the first convergence.\<close>

definition adopted :: "('w \<Rightarrow> Addr set) \<Rightarrow> Addr list \<Rightarrow> Reconciler \<Rightarrow> Reconciler \<Rightarrow> 'w \<Rightarrow> Addr set" where
  "adopted addrs managed R R' w =
     (if kernelSynced R' \<and> \<not> kernelSynced R
      then {a \<in> addrs w. \<not> IsLoopback a \<and> a \<in> set managed} else {})"

context host
begin

lemma reconcileBGP_spec:
  assumes "reconcileBGP d desired managed (R, w) = (err, R', w')" and "ok w" "adv_inv addrs R w"
    and "\<forall>a \<in> set desired. Is4 a" "\<forall>a \<in> set managed. Is4 a"
  shows "ok w' \<and> table w' = table w \<and> bgp_frame R R' \<and> adv_inv addrs R' w' \<and>
    set (advertisedIPs R) \<inter> set desired \<subseteq> set (advertisedIPs R') \<and>
    (\<forall>a. a \<notin> set (advertisedIPs R) \<and> a \<notin> set desired \<and> a \<notin> set managed \<longrightarrow>
         (a \<in> addrs w') = (a \<in> addrs w)) \<and>
    (err = None \<and> (kernelSynced R \<or> kernelSynced R' \<or> managed = []) \<longrightarrow>
       set (advertisedIPs R') = set desired \<and>
       addrs w' = (addrs w - (set (advertisedIPs R) \<union> adopted addrs managed R R' w)) \<union> set desired)"
proof -
  define s1 where "s1 = (if \<not> kernelSynced R \<and> 0 < length managed
                         then adoptKernelStateLocked d managed (R, w) else (R, w))"
  obtain R1 w1 where s1: "s1 = (R1, w1)" by fastforce
  obtain errs1 R2 w2 where a: "advertise_new d desired (R1, w1) = (errs1, R2, w2)"
    by (metis prod.exhaust)
  obtain errs2 R3 w3 where b3: "withdraw_old d desired (advertisedIPs R2) (R2, w2) = (errs2, R3, w3)"
    by (metis prod.exhaust)
  have "R3 = R'" "w3 = w'" and err: "err = None \<longleftrightarrow> errs1 = [] \<and> errs2 = []"
    using assms(1) b3
    unfolding reconcileBGP_def fst_conv s1_def [symmetric] s1 Let_def a prod.case
    by (auto split: if_splits)
  with b3 have b: "withdraw_old d desired (advertisedIPs R2) (R2, w2) = (errs2, R', w')" by simp
  let ?K = "{a \<in> addrs w. \<not> IsLoopback a \<and> a \<in> set managed}"
  have adopt: "ok w1" "table w1 = table w" "addrs w1 = addrs w" "bgp_frame R R1" "adv_inv addrs R1 w1"
    "set (advertisedIPs R) \<subseteq> set (advertisedIPs R1)"
    "set (advertisedIPs R1) \<subseteq> set (advertisedIPs R) \<union> ?K"
    "kernelSynced R \<or> kernelSynced R1 \<or> managed = [] \<Longrightarrow>
     set (advertisedIPs R1) = set (advertisedIPs R) \<union> (if kernelSynced R1 \<and> \<not> kernelSynced R then ?K else {})"
    using adopt_spec [of managed R w R1 w1] assms(2,3,5) s1
    by (auto simp: s1_def split: if_splits)
  have adv: "ok w2" "table w2 = table w1" "bgp_frame R1 R2" "kernelSynced R2 = kernelSynced R1"
    "adv_inv addrs R2 w2" "addrs w2 = addrs w1 \<union> set (advertisedIPs R2)"
    "set (advertisedIPs R1) \<subseteq> set (advertisedIPs R2)"
    "set (advertisedIPs R2) \<subseteq> set (advertisedIPs R1) \<union> set desired"
    "errs1 = [] \<Longrightarrow> set desired \<subseteq> set (advertisedIPs R2)"
    using advertise_new_spec [OF a adopt(1,5) assms(4)] by simp_all
  have dist: "distinct (advertisedIPs R2)" using adv(5) by (simp add: adv_inv_def)
  have wd: "ok w'" "table w' = table w2" "bgp_frame R2 R'" "kernelSynced R' = kernelSynced R2"
    "adv_inv addrs R' w'" "set (advertisedIPs R') \<subseteq> set (advertisedIPs R2)"
    "set (advertisedIPs R2) - set (advertisedIPs R') \<subseteq> set (advertisedIPs R2) - set desired"
    "addrs w' = addrs w2 - (set (advertisedIPs R2) - set (advertisedIPs R'))"
    "errs2 = [] \<Longrightarrow> set (advertisedIPs R2) \<inter> set (advertisedIPs R') \<subseteq> set desired"
    using withdraw_old_spec [OF b adv(1,5) subset_refl dist] by simp_all
  have frame: "bgp_frame R R'" using adopt(4) adv(3) wd(3) bgp_frame_trans by blast
  have kept: "set (advertisedIPs R) \<inter> set desired \<subseteq> set (advertisedIPs R')"
    using adopt(6) adv(7) wd(7) by blast
  have tbl: "table w' = table w" using adopt(2) adv(2) wd(2) by simp
  have foreign: "\<forall>a. a \<notin> set (advertisedIPs R) \<and> a \<notin> set desired \<and> a \<notin> set managed \<longrightarrow>
      (a \<in> addrs w') = (a \<in> addrs w)"
  proof (intro allI impI)
    fix a
    assume that: "a \<notin> set (advertisedIPs R) \<and> a \<notin> set desired \<and> a \<notin> set managed"
    then have "a \<notin> set (advertisedIPs R2)" using adopt(7) adv(8) by auto
    then show "(a \<in> addrs w') = (a \<in> addrs w)" using adopt(3) adv(6) wd(8) by auto
  qed
  have conv: "err = None \<and> (kernelSynced R \<or> kernelSynced R' \<or> managed = []) \<longrightarrow>
      set (advertisedIPs R') = set desired \<and>
      addrs w' = (addrs w - (set (advertisedIPs R) \<union> adopted addrs managed R R' w)) \<union> set desired"
  proof
    assume that: "err = None \<and> (kernelSynced R \<or> kernelSynced R' \<or> managed = [])"
    then have e: "errs1 = []" "errs2 = []" using err by auto
    have adv': "set (advertisedIPs R') = set desired" using adv(9) [OF e(1)] wd(6,7) wd(9) [OF e(2)] by blast
    have R1: "set (advertisedIPs R1) = set (advertisedIPs R) \<union> adopted addrs managed R R' w"
      using adopt(8) that adv(4) wd(4) by (simp add: adopted_def)
    have R2: "set (advertisedIPs R2) = set (advertisedIPs R1) \<union> set desired"
      using adv(7,8) adv(9) [OF e(1)] by blast
    have "addrs w' = (addrs w \<union> set (advertisedIPs R2)) - (set (advertisedIPs R2) - set desired)"
      using adopt(3) adv(6) wd(8) adv' by simp
    also have "\<dots> = (addrs w - set (advertisedIPs R1)) \<union> set desired" using R2 by blast
    finally show "set (advertisedIPs R') = set desired \<and>
      addrs w' = (addrs w - (set (advertisedIPs R) \<union> adopted addrs managed R R' w)) \<union> set desired"
      using adv' R1 by simp
  qed
  show ?thesis by (intro conjI) (fact wd tbl frame kept foreign conv)+
qed

end

section \<open>The calls that are made\<close>

text \<open>Any wiring can be made to record its calls with their outcomes.\<close>

datatype call =
  CFetch bool
| CNftApply "NATMapping list" bool
| CNftFlush bool
| CAdvertise Addr bool
| CWithdraw Addr bool
| CActiveIPs bool

definition recorded :: "('a \<Rightarrow> call) \<Rightarrow> ('w \<Rightarrow> 'a \<times> 'w) \<Rightarrow> call list \<times> 'w \<Rightarrow> 'a \<times> call list \<times> 'w" where
  "recorded c f s = (case s of (l, w) \<Rightarrow> (case f w of (res, w') \<Rightarrow> (res, l @ [c res], w')))"

definition recording :: "'w deps \<Rightarrow> (call list \<times> 'w) deps" where
  "recording d =
     \<lparr>FetchNATMappings = recorded (\<lambda>res. CFetch (\<not> isl res)) (FetchNATMappings d),
      NftApply = (\<lambda>ms. recorded (\<lambda>err. CNftApply ms (err = None)) (NftApply d ms)),
      NftFlush = recorded (\<lambda>err. CNftFlush (err = None)) (NftFlush d),
      FrrAdvertise = (\<lambda>ip. recorded (\<lambda>err. CAdvertise ip (err = None)) (FrrAdvertise d ip)),
      FrrWithdraw = (\<lambda>ip. recorded (\<lambda>err. CWithdraw ip (err = None)) (FrrWithdraw d ip)),
      FrrActiveIPs = recorded (\<lambda>res. CActiveIPs (\<not> isl res)) (FrrActiveIPs d),
      ReadBackup = (\<lambda>(l, w). ReadBackup d w)\<rparr>"

lemmas recording_simps = recording_def recorded_def deps.simps

lemma advertise_new_calls:
  assumes "advertise_new (recording d) ips (R, l, w) = (errs, R', l', w')" and "distinct ips"
  shows "\<exists>succ. l' = l @ map (\<lambda>ip. CAdvertise ip (succ ip)) (filter (\<lambda>ip. ip \<notin> set (advertisedIPs R)) ips) \<and>
    advertisedIPs R' = advertisedIPs R @ filter (\<lambda>ip. ip \<notin> set (advertisedIPs R) \<and> succ ip) ips \<and>
    (errs = [] \<longleftrightarrow> (\<forall>ip \<in> set ips. ip \<notin> set (advertisedIPs R) \<longrightarrow> succ ip))"
  using assms
proof (induction ips arbitrary: R l w errs R' l' w')
  case (Cons ip ips)
  obtain err w1 where call: "FrrAdvertise d ip w = (err, w1)" by fastforce
  have fresh: "ip \<notin> set ips" "distinct ips" using Cons.prems(2) by auto
  show ?case
  proof (cases "ip \<in> set (advertisedIPs R)")
    case True
    then have "advertise_new (recording d) ips (R, l, w) = (errs, R', l', w')" using Cons.prems(1) by simp
    from Cons.IH [OF this fresh(2)] True show ?thesis by auto
  next
    case new: False
    let ?R = "if err = None then R\<lparr>advertisedIPs := advertisedIPs R @ [ip]\<rparr> else R"
    obtain errs1 where rest: "advertise_new (recording d) ips (?R, l @ [CAdvertise ip (err = None)], w1) =
        (errs1, R', l', w')" and e: "errs = [] \<longleftrightarrow> err = None \<and> errs1 = []"
      using Cons.prems(1) new call
      by (cases err) (auto simp: recording_simps split: prod.splits)
    obtain succ where s:
      "l' = l @ [CAdvertise ip (err = None)] @
         map (\<lambda>ip. CAdvertise ip (succ ip)) (filter (\<lambda>ip. ip \<notin> set (advertisedIPs ?R)) ips)"
      "advertisedIPs R' = advertisedIPs ?R @ filter (\<lambda>ip. ip \<notin> set (advertisedIPs ?R) \<and> succ ip) ips"
      "errs1 = [] \<longleftrightarrow> (\<forall>ip \<in> set ips. ip \<notin> set (advertisedIPs ?R) \<longrightarrow> succ ip)"
      using Cons.IH [OF rest fresh(2)] by auto
    have *: "x \<notin> set (advertisedIPs ?R) \<longleftrightarrow> x \<notin> set (advertisedIPs R)" if "x \<in> set ips" for x
      using that fresh(1) by auto
    let ?succ = "succ(ip := err = None)"
    have "filter (\<lambda>ip. ip \<notin> set (advertisedIPs ?R)) ips = filter (\<lambda>ip. ip \<notin> set (advertisedIPs R)) ips"
      "filter (\<lambda>ip. ip \<notin> set (advertisedIPs ?R) \<and> succ ip) ips =
       filter (\<lambda>ip. ip \<notin> set (advertisedIPs R) \<and> ?succ ip) ips"
      using * fresh(1) by (auto intro!: filter_cong)
    moreover have "map (\<lambda>ip. CAdvertise ip (succ ip)) (filter P ips) =
       map (\<lambda>ip. CAdvertise ip (?succ ip)) (filter P ips)" for P
      using fresh(1) by (auto intro!: map_cong)
    ultimately show ?thesis using s new e *
      by (intro exI [of _ ?succ]) (auto simp: fresh(1))
  qed
qed auto

lemma withdraw_old_calls:
  assumes "withdraw_old (recording d) desired ips (R, l, w) = (errs, R', l', w')" and "distinct ips"
  shows "\<exists>succ. l' = l @ map (\<lambda>ip. CWithdraw ip (succ ip)) (filter (\<lambda>ip. ip \<notin> set desired) ips) \<and>
    advertisedIPs R' = filter (\<lambda>a. \<not> (a \<in> set ips \<and> a \<notin> set desired \<and> succ a)) (advertisedIPs R) \<and>
    (errs = [] \<longleftrightarrow> (\<forall>ip \<in> set ips. ip \<notin> set desired \<longrightarrow> succ ip))"
  using assms
proof (induction ips arbitrary: R l w errs R' l' w')
  case (Cons ip ips)
  obtain err w1 where call: "FrrWithdraw d ip w = (err, w1)" by fastforce
  have fresh: "ip \<notin> set ips" "distinct ips" using Cons.prems(2) by auto
  show ?case
  proof (cases "ip \<in> set desired")
    case True
    then have "withdraw_old (recording d) desired ips (R, l, w) = (errs, R', l', w')"
      using Cons.prems(1) by simp
    from Cons.IH [OF this fresh(2)] obtain succ where
      "l' = l @ map (\<lambda>ip. CWithdraw ip (succ ip)) (filter (\<lambda>ip. ip \<notin> set desired) ips)"
      "advertisedIPs R' = filter (\<lambda>a. \<not> (a \<in> set ips \<and> a \<notin> set desired \<and> succ a)) (advertisedIPs R)"
      "errs = [] \<longleftrightarrow> (\<forall>ip \<in> set ips. ip \<notin> set desired \<longrightarrow> succ ip)"
      by auto
    then show ?thesis using True by (intro exI [of _ succ]) (auto intro!: filter_cong)
  next
    case old: False
    let ?R = "if err = None then R\<lparr>advertisedIPs := filter (\<lambda>a. a \<noteq> ip) (advertisedIPs R)\<rparr> else R"
    obtain errs1 where rest: "withdraw_old (recording d) desired ips (?R, l @ [CWithdraw ip (err = None)], w1) =
        (errs1, R', l', w')" and e: "errs = [] \<longleftrightarrow> err = None \<and> errs1 = []"
      using Cons.prems(1) old call
      by (cases err) (auto simp: recording_simps split: prod.splits)
    obtain succ where s:
      "l' = l @ [CWithdraw ip (err = None)] @
         map (\<lambda>ip. CWithdraw ip (succ ip)) (filter (\<lambda>ip. ip \<notin> set desired) ips)"
      "advertisedIPs R' = filter (\<lambda>a. \<not> (a \<in> set ips \<and> a \<notin> set desired \<and> succ a)) (advertisedIPs ?R)"
      "errs1 = [] \<longleftrightarrow> (\<forall>ip \<in> set ips. ip \<notin> set desired \<longrightarrow> succ ip)"
      using Cons.IH [OF rest fresh(2)] by auto
    let ?succ = "succ(ip := err = None)"
    have "map (\<lambda>ip. CWithdraw ip (succ ip)) (filter P ips) =
       map (\<lambda>ip. CWithdraw ip (?succ ip)) (filter P ips)" for P
      using fresh(1) by (auto intro!: map_cong)
    moreover have "filter (\<lambda>a. \<not> (a \<in> set ips \<and> a \<notin> set desired \<and> succ a)) (advertisedIPs ?R) =
       filter (\<lambda>a. \<not> (a \<in> set (ip # ips) \<and> a \<notin> set desired \<and> ?succ a)) (advertisedIPs R)"
      using fresh(1) old by (auto intro!: filter_cong)
    ultimately show ?thesis using s old e
      by (intro exI [of _ ?succ]) (auto simp: fresh(1))
  qed
qed auto

lemma reconcileBGP_calls:
  assumes "distinct desired" and "kernelSynced R \<or> managed = []" and "distinct (advertisedIPs R)"
    and "reconcileBGP (recording d) desired managed (R, l, w) = (err, R', l', w')"
  shows "\<exists>adv_ok wd_ok.
      (let fresh = filter (\<lambda>ip. ip \<notin> set (advertisedIPs R)) desired;
           live = advertisedIPs R @ filter adv_ok fresh;
           stale = filter (\<lambda>ip. ip \<notin> set desired) live
       in l' = l @ map (\<lambda>ip. CAdvertise ip (adv_ok ip)) fresh
                 @ map (\<lambda>ip. CWithdraw ip (wd_ok ip)) stale \<and>
          advertisedIPs R' = filter (\<lambda>ip. ip \<in> set desired \<or> \<not> wd_ok ip) live \<and>
          (err = None \<longleftrightarrow> list_all adv_ok fresh \<and> list_all wd_ok stale))"
proof -
  obtain errs1 R1 l1 w1 where a: "advertise_new (recording d) desired (R, l, w) = (errs1, R1, l1, w1)"
    by (metis prod.exhaust)
  obtain errs2 where b: "withdraw_old (recording d) desired (advertisedIPs R1) (R1, l1, w1) = (errs2, R', l', w')"
    and err: "err = None \<longleftrightarrow> errs1 = [] \<and> errs2 = []"
    using assms(2,4) a by (auto simp: reconcileBGP_def split: prod.splits)
  obtain sa where sa: "l1 = l @ map (\<lambda>ip. CAdvertise ip (sa ip)) (filter (\<lambda>ip. ip \<notin> set (advertisedIPs R)) desired)"
    "advertisedIPs R1 = advertisedIPs R @ filter (\<lambda>ip. ip \<notin> set (advertisedIPs R) \<and> sa ip) desired"
    "errs1 = [] \<longleftrightarrow> (\<forall>ip \<in> set desired. ip \<notin> set (advertisedIPs R) \<longrightarrow> sa ip)"
    using advertise_new_calls [OF a assms(1)] by blast
  have "distinct (advertisedIPs R1)" using assms(1,3) sa(2) by auto
  then obtain sw where sw: "l' = l1 @ map (\<lambda>ip. CWithdraw ip (sw ip)) (filter (\<lambda>ip. ip \<notin> set desired) (advertisedIPs R1))"
    "advertisedIPs R' = filter (\<lambda>a. \<not> (a \<in> set (advertisedIPs R1) \<and> a \<notin> set desired \<and> sw a)) (advertisedIPs R1)"
    "errs2 = [] \<longleftrightarrow> (\<forall>ip \<in> set (advertisedIPs R1). ip \<notin> set desired \<longrightarrow> sw ip)"
    using withdraw_old_calls [OF b] by blast
  let ?live = "advertisedIPs R @ filter sa (filter (\<lambda>ip. ip \<notin> set (advertisedIPs R)) desired)"
  have live: "advertisedIPs R1 = ?live" using sa(2) by (simp add: filter_filter)
  have "advertisedIPs R' = filter (\<lambda>ip. ip \<in> set desired \<or> \<not> sw ip) ?live"
    unfolding sw(2) live by (rule filter_cong) auto
  moreover have "l' = l @ map (\<lambda>ip. CAdvertise ip (sa ip)) (filter (\<lambda>ip. ip \<notin> set (advertisedIPs R)) desired)
      @ map (\<lambda>ip. CWithdraw ip (sw ip)) (filter (\<lambda>ip. ip \<notin> set desired) ?live)"
    unfolding sw(1) sa(1) live by simp
  moreover have "errs1 = [] \<longleftrightarrow> list_all sa (filter (\<lambda>ip. ip \<notin> set (advertisedIPs R)) desired)"
    unfolding sa(3) list_all_iff by auto
  moreover have "errs2 = [] \<longleftrightarrow> list_all sw (filter (\<lambda>ip. ip \<notin> set desired) ?live)"
    unfolding sw(3) list_all_iff live by auto
  ultimately show ?thesis
    unfolding Let_def err by blast
qed

section \<open>Properties\<close>

text \<open>
  C17: Convergence. If \<open>reconcileBGP\<close> reports no error on a host whose commands behave as
  documented, then exactly the desired addresses count as advertised, and of the addresses on
  the interface precisely those that were advertised and are no longer desired are gone, the
  desired ones present, all others untouched.
\<close>

theorem bgp_converges:
  assumes "live_host exec m h fetch addrs table" and "adv_inv addrs R w"
    and "\<forall>a \<in> set desired. Is4 a" and "\<forall>a \<in> set managed. Is4 a" and "kernelSynced R"
    and "reconcileBGP (live_deps exec m h fetch rd) desired managed (R, w) = (None, R', w')"
  shows "set (advertisedIPs R') = set desired \<and>
         addrs w' = (addrs w - set (advertisedIPs R)) \<union> set desired"
  using live.reconcileBGP_spec [OF assms(6,1,2,3,4)] assms(5) by (simp add: adopted_def)

abbreviation sim_rd :: "int \<Rightarrow> read_result" where
  "sim_rd \<equiv> \<lambda>_. ReadNotExist"

definition anycast :: quad where "anycast = (198, 51, 100, 7)"

definition sim1 :: sim where
  "sim1 = \<lparr>sim_quads = [(203, 0, 113, 1), anycast], sim_table = None, sim_netbox = Inr [],
           sim_down = [], sim_nft_down = False\<rparr>"

definition synced1 :: Reconciler where
  "synced1 = (newReconciler ''pve1'' New_Store)\<lparr>advertisedIPs := [V4 203 0 113 1], kernelSynced := True\<rparr>"

lemma adv_inv_synced1: "adv_inv sim_addrs synced1 sim1"
  by (simp add: adv_inv_def synced1_def sim_addrs_def sim1_def)

lemma sim_bgp_run:
  "\<exists>R' w'. reconcileBGP (sim_live sim_rd) [V4 203 0 113 2] [] (synced1, sim1) = (None, R', w') \<and>
           kernelSynced R'"
  by (simp add: reconcileBGP_def sim_simps synced1_def sim1_def anycast_def newReconciler_def)

lemma reconcileBGP_adopt:
  "\<not> kernelSynced R \<Longrightarrow> managed \<noteq> [] \<Longrightarrow>
   reconcileBGP d desired managed (R, w) =
     reconcileBGP d desired [] (adoptKernelStateLocked d managed (R, w))"
  by (simp add: reconcileBGP_def)

theorem bgp_converges_witness:
  "\<exists>R' w'. reconcileBGP (sim_live sim_rd) [V4 203 0 113 2] [] (synced1, sim1) = (None, R', w') \<and>
     sim_addrs w' = {quad_addr anycast, V4 203 0 113 2}"
proof -
  obtain R' w' where call:
    "reconcileBGP (sim_live sim_rd) [V4 203 0 113 2] [] (synced1, sim1) = (None, R', w')"
    using sim_bgp_run by blast
  have "sim_addrs w' = (sim_addrs sim1 - set (advertisedIPs synced1)) \<union> set [V4 203 0 113 2]"
    using bgp_converges [OF sim_host adv_inv_synced1 _ _ _ call] by (simp add: synced1_def)
  moreover have "sim_addrs sim1 - set (advertisedIPs synced1) = {quad_addr anycast}"
    by (simp add: sim_addrs_def sim1_def synced1_def anycast_def insert_Diff_if)
  ultimately show ?thesis using call by auto
qed

text \<open>
  C19: Restart. The first convergence after a start that reads the kernel and reports no error
  leaves, of the addresses that this service manages, only the desired ones: what a crashed
  predecessor announced is withdrawn. (Addresses in 127.0.0.0/8 are never read back.)
\<close>

theorem restart_withdraws_leftovers:
  assumes "live_host exec m h fetch addrs table" and "adv_inv addrs R w"
    and "\<forall>a \<in> set desired. Is4 a" and "\<forall>a \<in> set managed. Is4 a \<and> \<not> IsLoopback a"
    and "\<not> kernelSynced R" and "kernelSynced R'"
    and "reconcileBGP (live_deps exec m h fetch rd) desired managed (R, w) = (None, R', w')"
  shows "addrs w' \<inter> set managed = set desired \<inter> set managed"
  using live.reconcileBGP_spec [OF assms(7,1,2,3)] assms(4,5,6) by (auto simp: adopted_def)

theorem restart_withdraws_leftovers_witness:
  "\<exists>R' w'. reconcileBGP (sim_live sim_rd) [V4 203 0 113 2] [V4 203 0 113 1, V4 203 0 113 2]
       (newReconciler ''pve1'' New_Store, sim1) = (None, R', w') \<and>
     V4 203 0 113 1 \<notin> sim_addrs w'"
proof -
  let ?R = "newReconciler ''pve1'' New_Store"
  have inv: "adv_inv sim_addrs ?R sim1" by (simp add: adv_inv_def newReconciler_def)
  have adopt: "adoptKernelStateLocked (sim_live sim_rd) [V4 203 0 113 1, V4 203 0 113 2] (?R, sim1) =
      (synced1, sim1)"
    by (simp add: adoptKernelStateLocked_def sim_simps newReconciler_def synced1_def sim1_def anycast_def)
  obtain R' w' where call:
    "reconcileBGP (sim_live sim_rd) [V4 203 0 113 2] [V4 203 0 113 1, V4 203 0 113 2] (?R, sim1) =
       (None, R', w')" and "kernelSynced R'"
    using sim_bgp_run by (auto simp: reconcileBGP_adopt adopt)
  have *: "sim_addrs w' \<inter> set [V4 203 0 113 1, V4 203 0 113 2] =
        set [V4 203 0 113 2] \<inter> set [V4 203 0 113 1, V4 203 0 113 2]"
    by (rule restart_withdraws_leftovers [OF sim_host inv _ _ _ \<open>kernelSynced R'\<close> call])
      (simp_all add: newReconciler_def)
  have "V4 203 0 113 1 \<notin> set [V4 203 0 113 2] \<inter> set [V4 203 0 113 1, V4 203 0 113 2]" by simp
  then have "V4 203 0 113 1 \<notin> sim_addrs w'"
    unfolding * [symmetric] by (metis IntI list.set_intros(1))
  with call show ?thesis by blast
qed

text \<open>
  Foreign addresses. Whatever fails, an address on the interface that this process has
  not advertised, does not want and does not manage stays as it is, as does the nftables table.
\<close>

theorem bgp_leaves_foreign_addresses:
  assumes "live_host exec m h fetch addrs table" and "adv_inv addrs R w"
    and "\<forall>a \<in> set desired. Is4 a" and "\<forall>a \<in> set managed. Is4 a"
    and "reconcileBGP (live_deps exec m h fetch rd) desired managed (R, w) = (err, R', w')"
    and "a \<notin> set (advertisedIPs R)" and "a \<notin> set desired" and "a \<notin> set managed"
  shows "(a \<in> addrs w') = (a \<in> addrs w) \<and> table w' = table w"
  using live.reconcileBGP_spec [OF assms(5,1-4)] assms(6-8) by blast

theorem bgp_leaves_foreign_addresses_witness:
  "\<exists>err R' w'. reconcileBGP (sim_live sim_rd) [] [V4 203 0 113 1] (synced1, sim1) = (err, R', w') \<and>
     quad_addr anycast \<in> sim_addrs w'"
proof -
  obtain err R' w' where call:
    "reconcileBGP (sim_live sim_rd) [] [V4 203 0 113 1] (synced1, sim1) = (err, R', w')"
    by (metis prod.exhaust)
  have "(quad_addr anycast \<in> sim_addrs w') = (quad_addr anycast \<in> sim_addrs sim1)"
    using bgp_leaves_foreign_addresses [OF sim_host adv_inv_synced1 _ _ call, of "quad_addr anycast"]
    by (simp add: synced1_def anycast_def)
  with call show ?thesis by (simp add: sim_addrs_def sim1_def)
qed

text \<open>
  C18: Make before break, and exact bookkeeping. Once the kernel has been adopted, the calls
  are: one advertisement for each desired address not yet advertised, then one withdrawal for
  each advertised address not desired, and nothing else, whatever fails. Afterwards an
  address counts as advertised exactly if it was and its withdrawal was not due or failed, or
  its advertisement succeeded; and the result is nil exactly if no call failed.
\<close>

theorem bgp_calls_exact:
  assumes "distinct desired" and "kernelSynced R \<or> managed = []" and "distinct (advertisedIPs R)"
    and "reconcileBGP (recording d) desired managed (R, l, w) = (err, R', l', w')"
  shows "\<exists>adv_ok wd_ok.
      (let fresh = filter (\<lambda>ip. ip \<notin> set (advertisedIPs R)) desired;
           live = advertisedIPs R @ filter adv_ok fresh;
           stale = filter (\<lambda>ip. ip \<notin> set desired) live
       in l' = l @ map (\<lambda>ip. CAdvertise ip (adv_ok ip)) fresh
                 @ map (\<lambda>ip. CWithdraw ip (wd_ok ip)) stale \<and>
          advertisedIPs R' = filter (\<lambda>ip. ip \<in> set desired \<or> \<not> wd_ok ip) live \<and>
          (err = None \<longleftrightarrow> list_all adv_ok fresh \<and> list_all wd_ok stale))"
  by (rule reconcileBGP_calls [OF assms])

theorem bgp_calls_exact_witness:
  "\<exists>err R' l' w' adv_ok wd_ok.
     reconcileBGP (recording (sim_live sim_rd)) [V4 203 0 113 2] [] (synced1, [], sim1) = (err, R', l', w') \<and>
     l' = [CAdvertise (V4 203 0 113 2) (adv_ok (V4 203 0 113 2)),
           CWithdraw (V4 203 0 113 1) (wd_ok (V4 203 0 113 1))]"
proof -
  obtain err R' l' w' where call:
    "reconcileBGP (recording (sim_live sim_rd)) [V4 203 0 113 2] [] (synced1, [], sim1) = (err, R', l', w')"
    by (metis prod.exhaust)
  have fresh: "filter (\<lambda>ip. ip \<notin> set (advertisedIPs synced1)) [V4 203 0 113 2] = [V4 203 0 113 2]"
    and adv: "advertisedIPs synced1 = [V4 203 0 113 1]" "kernelSynced synced1"
    by (simp_all add: synced1_def)
  obtain adv_ok wd_ok where "l' = [] @ map (\<lambda>ip. CAdvertise ip (adv_ok ip)) [V4 203 0 113 2] @
      map (\<lambda>ip. CWithdraw ip (wd_ok ip)) (filter (\<lambda>ip. ip \<notin> set [V4 203 0 113 2])
        ([V4 203 0 113 1] @ filter adv_ok [V4 203 0 113 2]))"
    using bgp_calls_exact [OF _ _ _ call] unfolding Let_def fresh adv by (simp add: adv) blast
  with call show ?thesis by (auto split: if_splits)
qed

end
