(* ===== verification/Mapping_Cache.thy ===== *)
theory Mapping_Cache
  imports Reconciler_State
begin

text \<open>
  The mapping cache of the reconciler and the webhook deltas that edit it, the VM state and
  the backups (\<open>internal/reconciler/reconciler.go\<close>): rebuilding the cache from a fetch,
  listing it, and \<open>applyDeltaToState\<close>, \<open>applyDeltaToCache\<close> and
  \<open>syncBackupFromDelta\<close>.
\<close>

section \<open>The cache\<close>

definition mappend :: "'k \<Rightarrow> 'v \<Rightarrow> ('k, 'v list) gomap \<Rightarrow> ('k, 'v list) gomap" where
  "mappend k v m = mput k (mgetd [] m k @ [v]) m"

definition group_mappings :: "NATMapping list \<Rightarrow> (int, NATMapping list) gomap" where
  "group_mappings ms = fold (\<lambda>m. mappend (VMProxmoxVMID m) m) ms []"

definition rebuildMappingCache :: "NATMapping list \<Rightarrow> Reconciler \<Rightarrow> Reconciler" where
  "rebuildMappingCache ms R =
     R\<lparr>mappingByVMID := group_mappings ms,
       mappingPendingByName := [],
       vmIDByName := fold (\<lambda>m ids. if VMName m \<noteq> [] then mput (VMName m) (VMProxmoxVMID m) ids
                                   else ids) ms [],
       mappingCacheReady := True\<rparr>"

definition cachedMappings :: "Reconciler \<Rightarrow> NATMapping list" where
  "cachedMappings R =
     concat (map snd (mappingByVMID R)) @ concat (map snd (mappingPendingByName R))"

text \<open>The external IPs this service may adopt from the kernel: those of the cache and of
  the backups. Listing the backups may read files.\<close>

definition managedIPs ::
  "(int \<Rightarrow> read_result) \<Rightarrow> Reconciler \<Rightarrow> Addr list \<times> Reconciler" where
  "managedIPs readFile R =
     (let (backups, b) = all_backups readFile (backup R)
      in (remdups (map ExternalIP (cachedMappings R @ backups)), R\<lparr>backup := b\<rparr>))"

section \<open>Webhook deltas\<close>

definition parseIPorCIDR :: "string \<Rightarrow> Addr option" where
  "parseIPorCIDR value =
     (let v = TrimSpace value
      in if v = [] then None
         else case ParsePrefix v of
                Some (addr, bits) \<Rightarrow> Some addr
              | None \<Rightarrow> ParseAddr v)"

definition normalized :: "string \<Rightarrow> string" where
  "normalized s = ToLower (TrimSpace s)"

definition applyDeltaToState :: "gtime \<Rightarrow> WebhookDelta \<Rightarrow> Reconciler \<Rightarrow> Reconciler" where
  "applyDeltaToState now d R =
     (if \<not> HasVMID d \<or> TrimSpace (DeltaVMName d) = [] then R
      else if normalized (Model d) \<noteq> ''virtualmachine'' then R
      else if normalized (Event d) = ''deleted'' then
        R\<lparr>store := SetAbsent (DeltaVMID d) now (store R)\<rparr>
      else R\<lparr>store := SetActive (DeltaVMID d) (DeltaVMName d) now (store R)\<rparr>)"

text \<open>A delta that names a VM by both ID and name moves what was pending under the name.\<close>

definition claim_pending :: "WebhookDelta \<Rightarrow> Reconciler \<Rightarrow> Reconciler" where
  "claim_pending d R =
     (if HasVMID d \<and> DeltaVMName d \<noteq> [] then
        (let R1 = R\<lparr>vmIDByName := mput (DeltaVMName d) (DeltaVMID d) (vmIDByName R)\<rparr>
         in case mget (mappingPendingByName R1) (DeltaVMName d) of
              None \<Rightarrow> R1
            | Some pend \<Rightarrow>
                R1\<lparr>mappingByVMID := mput (DeltaVMID d)
                     (map (\<lambda>m. m\<lparr>VMProxmoxVMID := DeltaVMID d\<rparr>) pend) (mappingByVMID R1),
                   mappingPendingByName := mdel (DeltaVMName d) (mappingPendingByName R1)\<rparr>)
      else R)"

definition delta_vmid :: "WebhookDelta \<Rightarrow> string \<Rightarrow> Reconciler \<Rightarrow> int" where
  "delta_vmid d name R =
     (if HasVMID d then DeltaVMID d
      else if name \<noteq> [] then mgetd 0 (vmIDByName R) name else 0)"

definition forget_vm :: "int \<Rightarrow> Reconciler \<Rightarrow> Reconciler" where
  "forget_vm vmID R =
     (let names = map fst (filter (\<lambda>(_, mappedID). mappedID = vmID) (vmIDByName R))
      in R\<lparr>mappingByVMID := mdel vmID (mappingByVMID R),
           vmIDByName := filter (\<lambda>(_, mappedID). mappedID \<noteq> vmID) (vmIDByName R),
           mappingPendingByName := filter (\<lambda>(name, _). name \<notin> set names) (mappingPendingByName R)\<rparr>)"

definition drop_entries :: "int \<Rightarrow> string \<Rightarrow> Reconciler \<Rightarrow> Reconciler" where
  "drop_entries vmID vmName R =
     R\<lparr>mappingByVMID := (if 0 < vmID then mdel vmID (mappingByVMID R) else mappingByVMID R),
       mappingPendingByName := (if vmName \<noteq> [] then mdel vmName (mappingPendingByName R)
                                else mappingPendingByName R)\<rparr>"

definition delta_entries :: "WebhookDelta \<Rightarrow> Addr \<Rightarrow> int \<Rightarrow> string \<Rightarrow> NATMapping list" where
  "delta_entries d internalIP vmID vmName =
     map (\<lambda>extIP. \<lparr>ExternalIP = extIP, InternalIP = internalIP, VMProxmoxVMID = vmID, VMName = vmName\<rparr>)
       (List.map_filter parseIPorCIDR (NATOutside d))"

definition store_entries :: "int \<Rightarrow> string \<Rightarrow> NATMapping list \<Rightarrow> Reconciler \<Rightarrow> Reconciler" where
  "store_entries vmID vmName entries R =
     (let R1 = (if 0 < vmID then R\<lparr>mappingByVMID := mput vmID entries (mappingByVMID R)\<rparr>
                else if vmName \<noteq> [] then
                  R\<lparr>mappingPendingByName := mput vmName entries (mappingPendingByName R)\<rparr>
                else R)
      in if 0 < vmID \<and> vmName \<noteq> [] then R1\<lparr>vmIDByName := mput vmName vmID (vmIDByName R1)\<rparr> else R1)"

definition applyDeltaToCache :: "WebhookDelta \<Rightarrow> Reconciler \<Rightarrow> Reconciler" where
  "applyDeltaToCache d R0 =
     (let model = normalized (Model d); event = normalized (Event d); R = claim_pending d R0
      in if model = ''virtualmachine'' then
           (if event = ''deleted'' then
              let vmID = delta_vmid d (DeltaVMName d) R;
                  R1 = (if 0 < vmID then forget_vm vmID R else R)
              in if DeltaVMName d \<noteq> [] then
                   R1\<lparr>mappingPendingByName := mdel (DeltaVMName d) (mappingPendingByName R1)\<rparr>
                 else R1
            else R)
         else if model \<noteq> ''ipaddress'' then R
         else
           let vmName = TrimSpace (DeltaVMName d); vmID = delta_vmid d vmName R
           in if vmID \<le> 0 \<and> vmName = [] then R
              else if event = ''deleted'' \<or> TrimSpace (DeltaInternalIP d) = [] \<or> NATOutside d = []
              then drop_entries vmID vmName R
              else case parseIPorCIDR (DeltaInternalIP d) of
                     None \<Rightarrow> R
                   | Some internalIP \<Rightarrow>
                       (let entries = delta_entries d internalIP vmID vmName
                        in if entries = [] then drop_entries vmID vmName R
                           else store_entries vmID vmName entries R))"

definition sync_keep :: "WebhookDelta \<Rightarrow> Addr \<Rightarrow> NATMapping \<Rightarrow> bool" where
  "sync_keep d internalIP m \<longleftrightarrow>
     InternalIP m \<noteq> internalIP
     \<and> \<not> list_ex (\<lambda>raw. parseIPorCIDR raw = Some (ExternalIP m)) (NATOutside d)"

definition syncBackupFromDelta ::
  "(int \<Rightarrow> read_result) \<Rightarrow> WebhookDelta \<Rightarrow> Reconciler \<Rightarrow> Reconciler" where
  "syncBackupFromDelta readFile d R =
     (let vmID = delta_vmid d (DeltaVMName d) R;
          model = normalized (Model d); event = normalized (Event d)
      in if vmID \<le> 0 then R
         else if model = ''virtualmachine'' then
           (if event = ''deleted'' then R\<lparr>backup := delete_backup vmID (backup R)\<rparr> else R)
         else if model \<noteq> ''ipaddress'' then R
         else if (case Get vmID (store R) of Some vm \<Rightarrow> Status vm \<noteq> StatusActive | None \<Rightarrow> True) then R
         else case parseIPorCIDR (DeltaInternalIP d) of
                None \<Rightarrow> R
              | Some internalIP \<Rightarrow>
                  (let (res, b) = load_backup readFile vmID (backup R); R1 = R\<lparr>backup := b\<rparr>
                   in case res of
                        Inl err \<Rightarrow> R1
                      | Inr found \<Rightarrow>
                          (let existing = (case found of None \<Rightarrow> [] | Some ms \<Rightarrow> ms);
                               updated = filter (sync_keep d internalIP) existing @
                                 (if event \<noteq> ''deleted''
                                  then delta_entries d internalIP vmID (DeltaVMName d) else [])
                           in if updated = [] then
                                (if found \<noteq> None
                                 then R1\<lparr>backup := delete_backup vmID (backup R1)\<rparr> else R1)
                              else R1\<lparr>backup := save_backup vmID updated (backup R1)\<rparr>)))"

section \<open>What the cache holds for a VM\<close>

lemma mgetd_mappend: "mgetd [] (mappend k x m) k' = (if k' = k then mgetd [] m k @ [x] else mgetd [] m k')"
  by (simp add: mappend_def mgetd_mput)

lemma mgetd_group_mappings:
  "mgetd [] (group_mappings ms) v = filter (\<lambda>m. VMProxmoxVMID m = v) ms"
proof -
  have "mgetd [] (fold (\<lambda>m. mappend (VMProxmoxVMID m) m) ms g) v =
        mgetd [] g v @ filter (\<lambda>m. VMProxmoxVMID m = v) ms" for g
    by (induction ms arbitrary: g) (simp_all add: mgetd_mappend)
  then show ?thesis by (simp add: group_mappings_def)
qed


text \<open>
  The mappings of a VM lie under its VMID; what is pending under a name belongs to no VM yet.
\<close>

definition cache_inv :: "Reconciler \<Rightarrow> bool" where
  "cache_inv R \<longleftrightarrow>
     mkeys_ok (mappingByVMID R) \<and> mkeys_ok (mappingPendingByName R) \<and> mkeys_ok (vmIDByName R) \<and>
     (\<forall>k ms. mget (mappingByVMID R) k = Some ms \<longrightarrow> (\<forall>m \<in> set ms. VMProxmoxVMID m = k)) \<and>
     (\<forall>n ms. mget (mappingPendingByName R) n = Some ms \<longrightarrow> (\<forall>m \<in> set ms. VMProxmoxVMID m \<le> 0))"

lemma cache_inv_empty: "mappingByVMID R = [] \<Longrightarrow> mappingPendingByName R = [] \<Longrightarrow> vmIDByName R = [] \<Longrightarrow> cache_inv R"
  by (simp add: cache_inv_def)

lemma mget_Some_mgetd: "mget m k = Some x \<Longrightarrow> mgetd z m k = x"
  by (simp add: mgetd_def)

lemma mkeys_ok_filter [simp]: "mkeys_ok m \<Longrightarrow> mkeys_ok (filter P m)"
  by (auto simp: mkeys_ok_def distinct_map_filter)

lemma mget_filter_key: "mget (filter (\<lambda>(k, _). P k) m) k = (if P k then mget m k else None)"
  by (induction m) auto

lemma mkeys_ok_group: "mkeys_ok (group_mappings ms)"
proof -
  have "mkeys_ok g \<Longrightarrow> mkeys_ok (fold (\<lambda>m. mappend (VMProxmoxVMID m) m) ms g)" for g
    by (induction ms arbitrary: g) (simp_all add: mappend_def)
  then show ?thesis by (simp add: group_mappings_def)
qed

lemma cache_inv_rebuild: "cache_inv (rebuildMappingCache ms R)"
proof -
  have ids: "mkeys_ok g \<Longrightarrow> mkeys_ok (fold (\<lambda>m ids. if VMName m \<noteq> [] then mput (VMName m) (VMProxmoxVMID m) ids
                                   else ids) ms g)" for g
    by (induction ms arbitrary: g) simp_all
  have "VMProxmoxVMID m = k" if "mget (group_mappings ms) k = Some l" "m \<in> set l" for k l m
    using mget_Some_mgetd [OF that(1), of "[]"] that(2) by (auto simp: mgetd_group_mappings)
  then show ?thesis by (simp add: cache_inv_def rebuildMappingCache_def mkeys_ok_group ids)
qed

lemma filter_concat_key:
  assumes "mkeys_ok m" "\<And>k ms. mget m k = Some ms \<Longrightarrow> \<forall>x \<in> set ms. VMProxmoxVMID x = k"
  shows "filter (\<lambda>x. VMProxmoxVMID x = v) (concat (map snd m)) = mgetd [] m v"
  using assms
proof (induction m)
  case (Cons p m)
  obtain k ms where p: "p = (k, ms)" by fastforce
  have ok: "mkeys_ok m" and new: "k \<notin> fst ` set m" using Cons.prems(1) by (auto simp: mkeys_ok_def p)
  have "\<forall>x \<in> set l. VMProxmoxVMID x = k'" if "mget m k' = Some l" for k' l
  proof -
    have "k' \<noteq> k" using that new by (metis domI dom_map_of_conv_image_fst)
    then show ?thesis using that Cons.prems(2) [of k' l] by (simp add: p)
  qed
  note IH = Cons.IH [OF ok this]
  have ms: "\<forall>x \<in> set ms. VMProxmoxVMID x = k" using Cons.prems(2) [of k ms] by (simp add: p)
  have "mgetd [] m k = []" using new by (auto simp: mgetd_def split: option.split dest: map_of_SomeD)
       (metis fst_conv image_eqI map_of_SomeD)
  then show ?case using ms IH by (cases "v = k") (auto simp: p mgetd_def)
qed simp

text \<open>The cached mappings of a VM, whatever order the maps are listed in.\<close>

lemma cached_of_vm:
  assumes "cache_inv R" "0 < v"
  shows "filter (\<lambda>m. VMProxmoxVMID m = v) (cachedMappings R) = mgetd [] (mappingByVMID R) v"
proof -
  have "filter (\<lambda>m. VMProxmoxVMID m = v) (concat (map snd (mappingPendingByName R))) = []"
    using assms by (fastforce simp: cache_inv_def filter_empty_conv mget_iff_mem)
  moreover have "filter (\<lambda>m. VMProxmoxVMID m = v) (concat (map snd (mappingByVMID R))) = mgetd [] (mappingByVMID R) v"
    using assms(1) by (intro filter_concat_key) (auto simp: cache_inv_def)
  ultimately show ?thesis by (simp add: cachedMappings_def)
qed

lemma cached_after_rebuild:
  "filter (\<lambda>m. VMProxmoxVMID m = v) (cachedMappings (rebuildMappingCache ms R)) =
   filter (\<lambda>m. VMProxmoxVMID m = v) ms"
proof -
  have "filter (\<lambda>m. VMProxmoxVMID m = v) (concat (map snd (group_mappings ms))) = mgetd [] (group_mappings ms) v"
    using cache_inv_rebuild [of ms R]
    by (intro filter_concat_key) (auto simp: cache_inv_def rebuildMappingCache_def)
  then show ?thesis by (simp add: cachedMappings_def rebuildMappingCache_def mgetd_group_mappings)
qed

section \<open>What a delta does to the cache\<close>

lemma cache_inv_claim: "cache_inv R \<Longrightarrow> cache_inv (claim_pending d R)"
  by (auto simp: cache_inv_def claim_pending_def Let_def gomap_simps split: option.splits if_splits)

lemma cache_inv_drop: "cache_inv R \<Longrightarrow> cache_inv (drop_entries v n R)"
  by (auto simp: cache_inv_def drop_entries_def gomap_simps split: if_splits)

lemma cache_inv_forget: "cache_inv R \<Longrightarrow> cache_inv (forget_vm v R)"
  by (auto simp: cache_inv_def forget_vm_def Let_def gomap_simps mget_filter_key split: if_splits)

lemma cache_inv_store:
  "cache_inv R \<Longrightarrow> \<forall>m \<in> set ms. VMProxmoxVMID m = v \<Longrightarrow> cache_inv (store_entries v n ms R)"
  by (auto simp: cache_inv_def store_entries_def Let_def gomap_simps split: if_splits)

lemma cache_inv_delta: "cache_inv R \<Longrightarrow> cache_inv (applyDeltaToCache d R)"
proof -
  assume "cache_inv R"
  then have R: "cache_inv (claim_pending d R)" by (rule cache_inv_claim)
  have entries: "\<forall>m \<in> set (delta_entries d ip v n). VMProxmoxVMID m = v" for ip v n
    by (simp add: delta_entries_def)
  have "cache_inv (Q\<lparr>mappingPendingByName := mdel n (mappingPendingByName Q)\<rparr>)" if "cache_inv Q" for Q n
    using that by (auto simp: cache_inv_def gomap_simps)
  then show ?thesis
    using R cache_inv_forget [OF R] cache_inv_drop [OF R] cache_inv_store [OF R entries]
    by (auto simp: applyDeltaToCache_def Let_def split: option.split)
qed

text \<open>The VM a delta is about; the others keep their mappings.\<close>

definition delta_about :: "WebhookDelta \<Rightarrow> Reconciler \<Rightarrow> int \<Rightarrow> bool" where
  "delta_about d R u \<longleftrightarrow>
     (if HasVMID d then u = DeltaVMID d
      else u = mgetd 0 (vmIDByName R) (DeltaVMName d) \<or>
           u = mgetd 0 (vmIDByName R) (TrimSpace (DeltaVMName d)))"

lemma claim_other: "\<not> (HasVMID d \<and> u = DeltaVMID d) \<Longrightarrow>
    mget (mappingByVMID (claim_pending d R)) u = mget (mappingByVMID R) u"
  by (auto simp: claim_pending_def Let_def gomap_simps split: option.split)

lemma claim_no_vmid: "\<not> HasVMID d \<Longrightarrow> claim_pending d R = R"
  by (simp add: claim_pending_def)

lemma edits_other:
  "u \<noteq> v \<Longrightarrow> mget (mappingByVMID (forget_vm v R)) u = mget (mappingByVMID R) u"
  "u \<noteq> v \<Longrightarrow> mget (mappingByVMID (drop_entries v n R)) u = mget (mappingByVMID R) u"
  "u \<noteq> v \<Longrightarrow> mget (mappingByVMID (store_entries v n ms R)) u = mget (mappingByVMID R) u"
  by (auto simp: forget_vm_def drop_entries_def store_entries_def Let_def gomap_simps)

lemma edits_nonpos:
  "v \<le> 0 \<Longrightarrow> mappingByVMID (drop_entries v n R) = mappingByVMID R"
  "v \<le> 0 \<Longrightarrow> mappingByVMID (store_entries v n ms R) = mappingByVMID R"
  by (auto simp: drop_entries_def store_entries_def Let_def)

lemma delta_other_vm:
  assumes "\<not> delta_about d R u"
  shows "mget (mappingByVMID (applyDeltaToCache d R)) u = mget (mappingByVMID R) u"
proof -
  let ?R = "claim_pending d R"
  have c: "mget (mappingByVMID ?R) u = mget (mappingByVMID R) u"
    using assms by (intro claim_other) (auto simp: delta_about_def)
  have v: "0 < delta_vmid d n ?R \<Longrightarrow> u \<noteq> delta_vmid d n ?R"
    if "n = DeltaVMName d \<or> n = TrimSpace (DeltaVMName d)" for n
    using assms that by (auto simp: delta_about_def delta_vmid_def claim_no_vmid split: if_splits)
  have edits: "mget (mappingByVMID (drop_entries (delta_vmid d n ?R) n' ?R)) u = mget (mappingByVMID R) u"
    "mget (mappingByVMID (store_entries (delta_vmid d n ?R) n' ms ?R)) u = mget (mappingByVMID R) u"
    "0 < delta_vmid d n ?R \<Longrightarrow> mget (mappingByVMID (forget_vm (delta_vmid d n ?R) ?R)) u = mget (mappingByVMID R) u"
    if "n = DeltaVMName d \<or> n = TrimSpace (DeltaVMName d)" for n n' ms
    using v [OF that] c edits_other edits_nonpos by (metis not_less)+
  show ?thesis
    using c edits by (auto simp: applyDeltaToCache_def Let_def split: option.split)
qed

text \<open>The mappings a delta with a VMID leaves its VM with.\<close>

lemma delta_own_vm:
  assumes "HasVMID d" "0 < DeltaVMID d"
  shows "mgetd [] (mappingByVMID (applyDeltaToCache d R)) (DeltaVMID d) =
    (let claimed = mgetd [] (mappingByVMID (claim_pending d R)) (DeltaVMID d) in
     if normalized (Model d) = ''virtualmachine''
     then (if normalized (Event d) = ''deleted'' then [] else claimed)
     else if normalized (Model d) \<noteq> ''ipaddress'' then claimed
     else if normalized (Event d) = ''deleted'' \<or> TrimSpace (DeltaInternalIP d) = [] \<or> NATOutside d = [] then []
     else case parseIPorCIDR (DeltaInternalIP d) of
            None \<Rightarrow> claimed
          | Some ip \<Rightarrow> delta_entries d ip (DeltaVMID d) (TrimSpace (DeltaVMName d)))"
  using assms
  by (auto simp: applyDeltaToCache_def delta_vmid_def forget_vm_def drop_entries_def store_entries_def
      Let_def gomap_simps split: option.split)

definition cache_frame :: "Reconciler \<Rightarrow> Reconciler \<Rightarrow> bool" where
  "cache_frame R R' \<longleftrightarrow>
     R' = R\<lparr>mappingByVMID := mappingByVMID R', mappingPendingByName := mappingPendingByName R',
            vmIDByName := vmIDByName R'\<rparr>"

lemma cache_frame_trans: "cache_frame R R' \<Longrightarrow> cache_frame R' R'' \<Longrightarrow> cache_frame R R''"
  unfolding cache_frame_def by (cases R; cases R'; cases R'') simp

lemma cache_frames:
  "cache_frame R R" "cache_frame R (claim_pending d R)" "cache_frame R (forget_vm v R)"
  "cache_frame R (drop_entries v n R)" "cache_frame R (store_entries v n ms R)"
  "cache_frame R (R\<lparr>mappingPendingByName := ps\<rparr>)"
  by (simp_all add: cache_frame_def claim_pending_def forget_vm_def drop_entries_def store_entries_def
      Let_def split: option.split)

lemma delta_frame: "cache_frame R (applyDeltaToCache d R)"
proof -
  let ?R = "claim_pending d R"
  have c: "cache_frame ?R Q \<Longrightarrow> cache_frame R Q" for Q using cache_frame_trans cache_frames(2) .
  have p: "cache_frame R (Q\<lparr>mappingPendingByName := ps\<rparr>)" if "cache_frame R Q" for Q ps
    using cache_frame_trans [OF that cache_frames(6)] .
  show ?thesis
    by (simp add: applyDeltaToCache_def Let_def cache_frames(2) cache_frames(3-5) [THEN c] p
        split: option.split)
qed

lemma cache_frameD:
  assumes "cache_frame R R'"
  shows "store R' = store R" "backup R' = backup R" "lastAppliedByVMID R' = lastAppliedByVMID R"
    "kernelSynced R' = kernelSynced R" "advertisedIPs R' = advertisedIPs R"
    "mappingCacheReady R' = mappingCacheReady R" "rulesetKeyValid R' = rulesetKeyValid R"
    "lastRulesetKey R' = lastRulesetKey R" "webhookDeltaCh R' = webhookDeltaCh R"
proof -
  from assms obtain a b c where "R' = R\<lparr>mappingByVMID := a, mappingPendingByName := b, vmIDByName := c\<rparr>"
    unfolding cache_frame_def by blast
  then show "store R' = store R" "backup R' = backup R" "lastAppliedByVMID R' = lastAppliedByVMID R"
    "kernelSynced R' = kernelSynced R" "advertisedIPs R' = advertisedIPs R"
    "mappingCacheReady R' = mappingCacheReady R" "rulesetKeyValid R' = rulesetKeyValid R"
    "lastRulesetKey R' = lastRulesetKey R" "webhookDeltaCh R' = webhookDeltaCh R"
    by simp_all
qed

end
