(* ===== verification/Apply_Mappings.thy ===== *)
theory Apply_Mappings
  imports Bgp Mapping_Cache "HOL-Library.Product_Lexorder" "HOL-Library.Multiset"
begin

text \<open>
  Applying mappings to the host: \<open>applyMappingsTimed\<close> of
  \<open>internal/reconciler/reconciler.go\<close> with the per-VM resolution and retention, the
  fingerprint of the ruleset and the order of the two kernel updates, and the entry points
  that lead to it (\<open>reconcile\<close>, \<open>reconcileFromWebhookDelta\<close>,
  \<open>applyCachedImmediatelyTimed\<close>). Timings and log lines are left out.
\<close>

section \<open>The ruleset\<close>

definition sort_mappings_key :: "NATMapping \<Rightarrow> Addr \<times> Addr \<times> int" where
  "sort_mappings_key m = (ExternalIP m, InternalIP m, VMProxmoxVMID m)"

text \<open>The order of \<open>sortMappings\<close> as the source compares two mappings.\<close>

definition mapping_less :: "NATMapping \<Rightarrow> NATMapping \<Rightarrow> bool" where
  "mapping_less a b \<longleftrightarrow>
     (if ExternalIP a \<noteq> ExternalIP b then ExternalIP a < ExternalIP b
      else if InternalIP a \<noteq> InternalIP b then InternalIP a < InternalIP b
      else VMProxmoxVMID a < VMProxmoxVMID b)"

fun insert_mapping :: "NATMapping \<Rightarrow> NATMapping list \<Rightarrow> NATMapping list" where
  "insert_mapping m [] = [m]"
| "insert_mapping m (x # xs) =
     (if mapping_less x m then x # insert_mapping m xs else m # x # xs)"

definition sortMappings :: "NATMapping list \<Rightarrow> NATMapping list" where
  "sortMappings ms = foldr insert_mapping ms []"

definition rulesetKey :: "NATMapping list \<Rightarrow> string" where
  "rulesetKey ms =
     concat (map (\<lambda>m. Addr_String (ExternalIP m) @ [CHR ''>''] @
                      Addr_String (InternalIP m) @ [CHR '';'']) ms)"

section \<open>Resolving the active VMs\<close>

text \<open>
  The outcome for one active VM: the mappings to apply, the backup store, and how much the
  counters \<open>retained\<close> and \<open>unresolved\<close> grow.
\<close>

definition resolve_vm ::
  "(int \<Rightarrow> read_result) \<Rightarrow> apply_source \<Rightarrow> bool \<Rightarrow> (int, NATMapping list) gomap \<Rightarrow>
   (int, NATMapping list) gomap \<Rightarrow> int \<Rightarrow> backupStore \<Rightarrow>
   NATMapping list \<times> backupStore \<times> nat \<times> nat" where
  "resolve_vm readFile source authoritative mappingsByVMID lastApplied vmid b =
     (let mappings = mgetd [] mappingsByVMID vmid
      in if 0 < length mappings then (mappings, save_backup vmid mappings b, 0, 0)
         else if source = sourceWebhookDelta then ([], delete_backup vmid b, 0, 0)
         else
           let (res, b1) = load_backup readFile vmid b;
               mappings1 = (case res of Inr (Some ms) \<Rightarrow> ms | _ \<Rightarrow> []);
               b2 = (if authoritative \<and> 0 < length mappings1 then delete_backup vmid b1 else b1);
               mappings2 = (if \<not> authoritative \<and> mappings1 = [] then mgetd [] lastApplied vmid
                            else mappings1)
           in (mappings2, b2,
               if 0 < length mappings2 then 1 else 0,
               if mappings2 = [] \<and> \<not> authoritative then 1 else 0))"

record resolution =
  res_applied :: "(int, NATMapping list) gomap"
  res_nft :: "NATMapping list"
  res_bgp :: "Addr list"
  res_backup :: backupStore
  res_retained :: nat
  res_unresolved :: nat

definition bgp_insert :: "Addr \<Rightarrow> Addr list \<Rightarrow> Addr list" where
  "bgp_insert a as = (if a \<in> set as then as else as @ [a])"

definition resolve_step ::
  "(int \<Rightarrow> read_result) \<Rightarrow> apply_source \<Rightarrow> bool \<Rightarrow> (int, NATMapping list) gomap \<Rightarrow>
   (int, NATMapping list) gomap \<Rightarrow> VMState \<Rightarrow> resolution \<Rightarrow> resolution" where
  "resolve_step readFile source authoritative mappingsByVMID lastApplied vm r =
     (let (mappings, b, ret, unres) =
            resolve_vm readFile source authoritative mappingsByVMID lastApplied (VMID vm) (res_backup r);
          r1 = r\<lparr>res_backup := b, res_retained := res_retained r + ret,
                res_unresolved := res_unresolved r + unres\<rparr>
      in if mappings = [] then r1
         else r1\<lparr>res_applied := mput (VMID vm) mappings (res_applied r1),
                res_nft := res_nft r1 @ mappings,
                res_bgp := fold (\<lambda>m. bgp_insert (ExternalIP m)) mappings (res_bgp r1)\<rparr>)"

definition is_authoritative :: "apply_source \<Rightarrow> NATMapping list \<Rightarrow> VMState list \<Rightarrow> bool" where
  "is_authoritative source allMappings activeVMs \<longleftrightarrow>
     source \<noteq> sourceBackupFallback \<and>
     (source = sourceWebhookDelta \<or> 0 < length allMappings \<or> length activeVMs = 0)"

definition resolve_all ::
  "(int \<Rightarrow> read_result) \<Rightarrow> NATMapping list \<Rightarrow> apply_source \<Rightarrow> Reconciler \<Rightarrow> resolution" where
  "resolve_all readFile allMappings source R =
     (let activeVMs = GetActive (store R);
          authoritative = is_authoritative source allMappings activeVMs
      in fold (resolve_step readFile source authoritative (group_mappings allMappings)
                 (lastAppliedByVMID R)) activeVMs
           \<lparr>res_applied = [], res_nft = [], res_bgp = [], res_backup = backup R,
            res_retained = 0, res_unresolved = 0\<rparr>)"

section \<open>Applying\<close>

definition apply_nft ::
  "'w deps \<Rightarrow> bool \<Rightarrow> NATMapping list \<Rightarrow> Reconciler \<times> 'w \<Rightarrow> gerror option \<times> Reconciler \<times> 'w" where
  "apply_nft d rulesetUnchanged nftMappings s =
     (case s of (R, w) \<Rightarrow>
        if rulesetUnchanged then (None, R, w)
        else case NftApply d nftMappings w of
               (Some err, w') \<Rightarrow>
                 (Some (Wrapf ''applying nftables'' err), R\<lparr>rulesetKeyValid := False\<rparr>, w')
             | (None, w') \<Rightarrow>
                 (None, R\<lparr>lastRulesetKey := rulesetKey nftMappings, rulesetKeyValid := True\<rparr>, w'))"

text \<open>
  The two kernel updates in the chosen order, and what is recorded at the end. A BGP error is
  logged and does not stop the apply; an nftables error ends it, before the advertisements
  if these come second.
\<close>

definition program_host ::
  "'w deps \<Rightarrow> bool \<Rightarrow> bool \<Rightarrow> NATMapping list \<Rightarrow> Addr list \<Rightarrow> Addr list \<Rightarrow>
   (int, NATMapping list) gomap \<Rightarrow> Reconciler \<times> 'w \<Rightarrow> gerror option \<times> Reconciler \<times> 'w" where
  "program_host d rulesetUnchanged advertiseFirst nftMappings bgpDesired managed applied s =
     (if advertiseFirst then
        (let (bgp_err, s1) = reconcileBGP d bgpDesired managed s;
             (err, R2, w2) = apply_nft d rulesetUnchanged nftMappings s1
         in if err \<noteq> None then (err, R2, w2)
            else (None, R2\<lparr>lastAppliedByVMID := applied\<rparr>, w2))
      else
        (let (err, s1) = apply_nft d rulesetUnchanged nftMappings s
         in if err \<noteq> None then (err, s1)
            else (let (bgp_err, R2, w2) = reconcileBGP d bgpDesired managed s1
                  in (None, R2\<lparr>lastAppliedByVMID := applied\<rparr>, w2))))"

definition applyMappingsTimed ::
  "'w deps \<Rightarrow> NATMapping list \<Rightarrow> apply_source \<Rightarrow> Reconciler \<times> 'w \<Rightarrow>
   gerror option \<times> Reconciler \<times> 'w" where
  "applyMappingsTimed d allMappings source s =
     (case s of (R, w) \<Rightarrow>
        let r = resolve_all (ReadBackup d w) allMappings source R;
            R1 = R\<lparr>backup := res_backup r,
                  unresolvedStreak := (if 0 < res_retained r \<or> 0 < res_unresolved r
                                       then Suc (unresolvedStreak R) else 0)\<rparr>;
            nftMappings = sortMappings (res_nft r);
            bgpDesired = res_bgp r;
            rulesetUnchanged = (rulesetKeyValid R1 \<and> rulesetKey nftMappings = lastRulesetKey R1);
            advertiseFirst = (rulesetUnchanged \<or> \<not> hasNewAdvertisements bgpDesired R1);
            (managed, R2) = (if kernelSynced R1 then ([], R1) else managedIPs (ReadBackup d w) R1)
        in program_host d rulesetUnchanged advertiseFirst nftMappings bgpDesired managed
             (res_applied r) (R2, w))"

definition applyMappings ::
  "'w deps \<Rightarrow> NATMapping list \<Rightarrow> apply_source \<Rightarrow> Reconciler \<times> 'w \<Rightarrow>
   gerror option \<times> Reconciler \<times> 'w" where
  "applyMappings d allMappings source s = applyMappingsTimed d allMappings source s"

section \<open>The ways to an apply\<close>

text \<open>\<open>reconcile\<close>; \<open>now\<close> is the time after the fetch.\<close>

definition reconcile :: "'w deps \<Rightarrow> gtime \<Rightarrow> Reconciler \<times> 'w \<Rightarrow> gerror option \<times> Reconciler \<times> 'w" where
  "reconcile d now s =
     (case s of (R, w) \<Rightarrow>
        case FetchNATMappings d w of
          (Inl err, w') \<Rightarrow> applyMappings d [] sourceBackupFallback (R, w')
        | (Inr allMappings, w') \<Rightarrow>
            (let R1 = R\<lparr>lastFullFetch := now, lastActiveKey := activeStateKey R\<rparr>
             in applyMappings d allMappings sourceFullFetch (rebuildMappingCache allMappings R1, w')))"

definition reconcileFromWebhookDelta ::
  "'w deps \<Rightarrow> gtime \<Rightarrow> WebhookDelta \<Rightarrow> Reconciler \<times> 'w \<Rightarrow> gerror option \<times> Reconciler \<times> 'w" where
  "reconcileFromWebhookDelta d now delta s =
     (case s of (R, w) \<Rightarrow>
        let R1 = (if mappingCacheReady R then R
                  else R\<lparr>mappingByVMID := [], mappingPendingByName := [], vmIDByName := [],
                         mappingCacheReady := True\<rparr>);
            R2 = syncBackupFromDelta (ReadBackup d w) delta
                   (applyDeltaToCache delta (applyDeltaToState now delta R1))
        in applyMappings d (cachedMappings R2) sourceWebhookDelta (R2, w))"

text \<open>\<open>False\<close> when there is no cache to apply from; an error of the apply is logged.\<close>

definition applyCachedImmediately ::
  "'w deps \<Rightarrow> string \<Rightarrow> Reconciler \<times> 'w \<Rightarrow> bool \<times> Reconciler \<times> 'w" where
  "applyCachedImmediately d source s =
     (if \<not> mappingCacheReady (fst s) then (False, s)
      else (True, snd (applyMappingsTimed d (cachedMappings (fst s)) (sourceCached source) s)))"

section \<open>The canonical order and the fingerprint\<close>

lemma mapping_less_iff: "mapping_less a b \<longleftrightarrow> sort_mappings_key a < sort_mappings_key b"
  by (auto simp: mapping_less_def sort_mappings_key_def less_prod_def)

lemma insert_mapping_insort: "insert_mapping m ms = insort_key sort_mappings_key m ms"
  by (induction ms) (auto simp: mapping_less_iff)

lemma sortMappings_sort_key: "sortMappings ms = sort_key sort_mappings_key ms"
  by (induction ms) (simp_all add: sortMappings_def insert_mapping_insort)

lemma set_sortMappings [simp]: "set (sortMappings ms) = set ms"
  by (simp add: sortMappings_sort_key)

lemma map_key_sort: "map f (sort_key f xs) = sort (map f xs)"
  by (rule properties_for_sort [symmetric]) simp_all

text \<open>The address pairs in canonical order depend only on which mappings there are.\<close>

lemma map_key_sortMappings:
  assumes "mset ms = mset ms'"
  shows "map sort_mappings_key (sortMappings ms) = map sort_mappings_key (sortMappings ms')"
proof -
  have "sort (map sort_mappings_key ms) = sort (map sort_mappings_key ms')"
    using assms by (intro properties_for_sort) simp_all
  then show ?thesis by (simp only: sortMappings_sort_key map_key_sort)
qed

definition rule_pair :: "NATMapping \<Rightarrow> string \<times> string" where
  "rule_pair m = (Addr_String (ExternalIP m), Addr_String (InternalIP m))"

lemma render_rule_pair: "map rule_pair ms = map rule_pair ms' \<Longrightarrow> render ms = render ms'"
proof -
  assume *: "map rule_pair ms = map rule_pair ms'"
  have "rule_entry = (\<lambda>p. \<lparr>ExternalIP_str = fst p, InternalIP_str = snd p\<rparr>) \<circ> rule_pair"
    by (auto simp: rule_entry_def rule_pair_def)
  then show ?thesis using * unfolding render_def by (metis map_map)
qed

definition pair_key :: "string \<times> string \<Rightarrow> string" where
  "pair_key p = fst p @ [CHR ''>''] @ snd p @ [CHR '';'']"

lemma rulesetKey_pairs: "rulesetKey ms = concat (map pair_key (map rule_pair ms))"
  by (simp add: rulesetKey_def pair_key_def rule_pair_def comp_def)

lemma canonical_pairs:
  assumes "map sort_mappings_key ms = map sort_mappings_key ms'"
  shows "map rule_pair ms = map rule_pair ms'"
proof -
  have "rule_pair = (\<lambda>(e, i, _). (Addr_String e, Addr_String i)) \<circ> sort_mappings_key"
    by (auto simp: rule_pair_def sort_mappings_key_def)
  then show ?thesis using assms by (metis map_map)
qed

lemma takeWhile_sep:
  "c \<notin> set a \<Longrightarrow> takeWhile (\<lambda>x. x \<noteq> c) (a @ c # b) = a \<and> dropWhile (\<lambda>x. x \<noteq> c) (a @ c # b) = c # b"
  by (induction a) auto

lemma split_at_sep:
  assumes "a @ c # b = a' @ c # b'" "c \<notin> set a" "c \<notin> set a'"
  shows "a = a' \<and> b = b'"
proof -
  have "takeWhile (\<lambda>x. x \<noteq> c) (a @ c # b) = takeWhile (\<lambda>x. x \<noteq> c) (a' @ c # b')"
    by (simp only: assms(1))
  then have "a = a'" using takeWhile_sep assms(2,3) by metis
  then show ?thesis using assms(1) by simp
qed

lemma pair_keys_inj:
  "concat (map pair_key ps) = concat (map pair_key ps') \<Longrightarrow>
   \<forall>p \<in> set ps \<union> set ps'. key_safe (fst p) \<and> key_safe (snd p) \<Longrightarrow> ps = ps'"
proof (induction ps arbitrary: ps')
  case Nil
  then show ?case by (cases ps') (auto simp: pair_key_def)
next
  case (Cons p ps)
  then obtain q qs where ps': "ps' = q # qs" by (cases ps') (auto simp: pair_key_def)
  have "fst p @ CHR ''>'' # snd p @ CHR '';'' # concat (map pair_key ps) =
        fst q @ CHR ''>'' # snd q @ CHR '';'' # concat (map pair_key qs)"
    using Cons.prems(1) pair_key_def [of p] pair_key_def [of q] by (simp add: ps')
  from split_at_sep [OF this] have "fst p = fst q" and
    "snd p @ CHR '';'' # concat (map pair_key ps) = snd q @ CHR '';'' # concat (map pair_key qs)"
    using Cons.prems(2) by (simp_all add: ps' key_safe_def)
  moreover from split_at_sep [OF this(2)] have "snd p = snd q"
    and "concat (map pair_key ps) = concat (map pair_key qs)"
    using Cons.prems(2) by (simp_all add: ps' key_safe_def)
  ultimately show ?case using Cons.IH [of qs] Cons.prems(2) by (auto simp: ps' prod_eq_iff)
qed

text \<open>Addresses whose zone does not contain the separators of the fingerprint.\<close>

definition key_safe_mapping :: "NATMapping \<Rightarrow> bool" where
  "key_safe_mapping m \<longleftrightarrow> key_safe (Zone (ExternalIP m)) \<and> key_safe (Zone (InternalIP m))"

lemma rulesetKey_render:
  assumes "rulesetKey ms = rulesetKey ms'" "\<forall>m \<in> set ms \<union> set ms'. key_safe_mapping m"
  shows "render ms = render ms'"
proof (rule render_rule_pair, rule pair_keys_inj)
  show "concat (map pair_key (map rule_pair ms)) = concat (map pair_key (map rule_pair ms'))"
    using assms(1) by (simp only: rulesetKey_pairs)
  show "\<forall>p \<in> set (map rule_pair ms) \<union> set (map rule_pair ms'). key_safe (fst p) \<and> key_safe (snd p)"
    using assms(2) by (auto simp: rule_pair_def key_safe_mapping_def key_safe_Addr_String)
qed

section \<open>What the active VMs resolve to\<close>

text \<open>What the backups answer for a VM.\<close>

abbreviation backup_view :: "(int \<Rightarrow> read_result) \<Rightarrow> backupStore \<Rightarrow> int \<Rightarrow> load_result" where
  "backup_view rd b v \<equiv> fst (load_backup rd v b)"

lemma backup_view_ops:
  "u \<noteq> v \<Longrightarrow> backup_view rd (save_backup u ms b) v = backup_view rd b v"
  "u \<noteq> v \<Longrightarrow> backup_view rd (delete_backup u b) v = backup_view rd b v"
  "backup_view rd (snd (load_backup rd u b)) v = backup_view rd b v"
  by (simp_all add: save_backup_def delete_backup_def load_enqueue_other load_load)

text \<open>
  The mappings of a VM as a function of what NetBox (or the cache) has for it, what the
  backups answer, and what was applied prev.
\<close>

definition vm_mappings ::
  "apply_source \<Rightarrow> bool \<Rightarrow> NATMapping list \<Rightarrow> load_result \<Rightarrow> NATMapping list \<Rightarrow> NATMapping list" where
  "vm_mappings source authoritative current backed_up prev =
     (if current \<noteq> [] then current
      else if source = sourceWebhookDelta then []
      else case backed_up of
             Inr (Some (m # ms)) \<Rightarrow> m # ms
           | _ \<Rightarrow> if authoritative then [] else prev)"

text \<open>What the backups answer for it afterwards.\<close>

definition vm_backup ::
  "apply_source \<Rightarrow> bool \<Rightarrow> NATMapping list \<Rightarrow> load_result \<Rightarrow> load_result" where
  "vm_backup source authoritative current backed_up =
     (if current \<noteq> [] then Inr (Some current)
      else if source = sourceWebhookDelta then Inr None
      else case backed_up of
             Inr (Some (m # ms)) \<Rightarrow> if authoritative then Inr None else backed_up
           | _ \<Rightarrow> backed_up)"

lemma resolve_vm_mappings:
  "fst (resolve_vm rd source auth grp prev v b) =
     vm_mappings source auth (mgetd [] grp v) (backup_view rd b v) (mgetd [] prev v)"
  by (auto simp: resolve_vm_def vm_mappings_def Let_def split: prod.splits sum.splits option.splits list.splits)

lemma resolve_vm_other:
  "u \<noteq> v \<Longrightarrow> backup_view rd (fst (snd (resolve_vm rd source auth grp prev u b))) v = backup_view rd b v"
  using backup_view_ops(3) [of rd v u b]
  by (auto simp: resolve_vm_def Let_def backup_view_ops(1,2) split: prod.splits)

lemma resolve_vm_same:
  assumes "backup_ok rd b" "\<forall>m \<in> set (mgetd [] grp v). storable m"
  shows "backup_view rd (fst (snd (resolve_vm rd source auth grp prev v b))) v =
           vm_backup source auth (mgetd [] grp v) (backup_view rd b v)"
proof -
  have "backup_ok rd (snd (load_backup rd v b))" using assms(1) by (rule backup_ok_load)
  then show ?thesis
    using backup_view_ops(3) [of rd v v b] bk.load_save [OF assms(1) _ assms(2)]
      bk.load_delete [OF assms(1), of v] bk.load_delete [of rd "snd (load_backup rd v b)" v]
    by (auto simp: resolve_vm_def vm_backup_def Let_def split: prod.splits sum.splits option.splits list.splits)
qed

lemma resolve_vm_ok:
  assumes "backup_ok rd b"
  shows "backup_ok rd (fst (snd (resolve_vm rd source auth grp prev v b)))"
  using assms bk.ok_load [OF assms, of v] bk.ok_save [OF assms] bk.ok_delete
  by (auto simp: resolve_vm_def Let_def split: prod.splits)

lemma resolve_step_simps:
  fixes rd source auth grp prev vm r
  defines "ms \<equiv> fst (resolve_vm rd source auth grp prev (VMID vm) (res_backup r))"
    and "r' \<equiv> resolve_step rd source auth grp prev vm r"
  shows "res_backup r' = fst (snd (resolve_vm rd source auth grp prev (VMID vm) (res_backup r)))"
    and "res_nft r' = res_nft r @ ms"
    and "res_applied r' = (if ms = [] then res_applied r else mput (VMID vm) ms (res_applied r))"
    and "res_bgp r' = fold (\<lambda>m. bgp_insert (ExternalIP m)) ms (res_bgp r)"
    and "res_retained r' = res_retained r + fst (snd (snd (resolve_vm rd source auth grp prev (VMID vm) (res_backup r))))"
    and "res_unresolved r' = res_unresolved r + snd (snd (snd (resolve_vm rd source auth grp prev (VMID vm) (res_backup r))))"
  by (simp_all add: ms_def r'_def resolve_step_def Let_def split: prod.splits)

lemma set_bgp_insert: "set (fold (\<lambda>m. bgp_insert (ExternalIP m)) ms as) = set as \<union> ExternalIP ` set ms"
  by (induction ms arbitrary: as) (auto simp: bgp_insert_def)

lemma distinct_bgp_insert: "distinct as \<Longrightarrow> distinct (fold (\<lambda>m. bgp_insert (ExternalIP m)) ms as)"
  by (induction ms arbitrary: as) (auto simp: bgp_insert_def)

lemma resolve_fold:
  fixes rd source auth grp prev
  defines "rv \<equiv> \<lambda>v b. vm_mappings source auth (mgetd [] grp v) (backup_view rd b v) (mgetd [] prev v)"
  assumes "distinct (map VMID vs)"
  shows "let r' = fold (resolve_step rd source auth grp prev) vs r; b = res_backup r in
     res_nft r' = res_nft r @ concat (map (\<lambda>vm. rv (VMID vm) b) vs) \<and>
     set (res_bgp r') = set (res_bgp r) \<union> ExternalIP ` set (concat (map (\<lambda>vm. rv (VMID vm) b) vs)) \<and>
     (distinct (res_bgp r) \<longrightarrow> distinct (res_bgp r')) \<and>
     (\<forall>v. mget (res_applied r') v =
        (if v \<in> VMID ` set vs \<and> rv v b \<noteq> [] then Some (rv v b) else mget (res_applied r) v)) \<and>
     (backup_ok rd b \<longrightarrow> backup_ok rd (res_backup r')) \<and>
     (\<forall>v. v \<notin> VMID ` set vs \<longrightarrow> backup_view rd (res_backup r') v = backup_view rd b v) \<and>
     (backup_ok rd b \<longrightarrow> (\<forall>v \<in> VMID ` set vs. (\<forall>m \<in> set (mgetd [] grp v). storable m) \<longrightarrow>
        backup_view rd (res_backup r') v = vm_backup source auth (mgetd [] grp v) (backup_view rd b v)))"
  using assms(2)
proof (induction vs arbitrary: r)
  case (Cons vm vs)
  let ?r = "resolve_step rd source auth grp prev vm r"
  let ?b = "res_backup r"
  have new: "VMID vm \<notin> VMID ` set vs" "distinct (map VMID vs)" using Cons.prems by auto
  have other: "backup_view rd (res_backup ?r) v = backup_view rd ?b v" if "v \<noteq> VMID vm" for v
    using that resolve_vm_other by (simp add: resolve_step_simps)
  have rv_other: "rv v (res_backup ?r) = rv v ?b" if "v \<noteq> VMID vm" for v
    using other [OF that] by (simp add: rv_def)
  then have rv_map: "map (\<lambda>x. rv (VMID x) (res_backup ?r)) vs = map (\<lambda>x. rv (VMID x) ?b) vs"
    using new(1) by (intro map_cong refl rv_other) (metis imageI)
  have rv_vm: "fst (resolve_vm rd source auth grp prev (VMID vm) ?b) = rv (VMID vm) ?b"
    by (simp add: rv_def resolve_vm_mappings)
  have ok: "backup_ok rd ?b \<Longrightarrow> backup_ok rd (res_backup ?r)"
    by (simp add: resolve_step_simps resolve_vm_ok)
  have same: "backup_ok rd ?b \<Longrightarrow> \<forall>m \<in> set (mgetd [] grp (VMID vm)). storable m \<Longrightarrow>
      backup_view rd (res_backup ?r) (VMID vm) =
        vm_backup source auth (mgetd [] grp (VMID vm)) (backup_view rd ?b (VMID vm))"
    by (simp add: resolve_step_simps resolve_vm_same)
  note IH = Cons.IH [OF new(2), of ?r, unfolded Let_def rv_map]
  show ?case
    unfolding Let_def fold_simps
  proof (intro conjI)
    let ?r' = "fold (resolve_step rd source auth grp prev) vs ?r"
    show "res_nft ?r' = res_nft r @ concat (map (\<lambda>vm. rv (VMID vm) ?b) (vm # vs))"
      using IH by (simp add: resolve_step_simps rv_vm)
    show "set (res_bgp ?r') = set (res_bgp r) \<union>
        ExternalIP ` set (concat (map (\<lambda>vm. rv (VMID vm) ?b) (vm # vs)))"
      using IH by (simp add: resolve_step_simps rv_vm set_bgp_insert image_Un Un_assoc)
    show "distinct (res_bgp r) \<longrightarrow> distinct (res_bgp ?r')"
      using IH by (simp add: resolve_step_simps distinct_bgp_insert)
    show "\<forall>v. mget (res_applied ?r') v =
        (if v \<in> VMID ` set (vm # vs) \<and> rv v ?b \<noteq> [] then Some (rv v ?b) else mget (res_applied r) v)"
    proof
      fix v
      have "mget (res_applied ?r') v =
        (if v \<in> VMID ` set vs \<and> rv v (res_backup ?r) \<noteq> [] then Some (rv v (res_backup ?r))
         else mget (res_applied ?r) v)" using IH by blast
      then show "mget (res_applied ?r') v =
        (if v \<in> VMID ` set (vm # vs) \<and> rv v ?b \<noteq> [] then Some (rv v ?b) else mget (res_applied r) v)"
        using new(1) rv_other [of v]
        by (cases "v = VMID vm") (auto simp: resolve_step_simps rv_vm mget_mput)
    qed
    show "backup_ok rd ?b \<longrightarrow> backup_ok rd (res_backup ?r')" using IH ok by blast
    show "\<forall>v. v \<notin> VMID ` set (vm # vs) \<longrightarrow> backup_view rd (res_backup ?r') v = backup_view rd ?b v"
      using IH other by simp
    show "backup_ok rd ?b \<longrightarrow> (\<forall>v \<in> VMID ` set (vm # vs). (\<forall>m \<in> set (mgetd [] grp v). storable m) \<longrightarrow>
        backup_view rd (res_backup ?r') v = vm_backup source auth (mgetd [] grp v) (backup_view rd ?b v))"
    proof (intro impI ballI)
      fix v
      assume b: "backup_ok rd ?b" and v: "v \<in> VMID ` set (vm # vs)"
        and st: "\<forall>m \<in> set (mgetd [] grp v). storable m"
      show "backup_view rd (res_backup ?r') v = vm_backup source auth (mgetd [] grp v) (backup_view rd ?b v)"
      proof (cases "v = VMID vm")
        case True
        then show ?thesis using IH new(1) same b st by auto
      next
        case False
        then have "v \<in> VMID ` set vs" using v by auto
        with IH ok [OF b] st have "backup_view rd (res_backup ?r') v =
            vm_backup source auth (mgetd [] grp v) (backup_view rd (res_backup ?r) v)" by blast
        then show ?thesis by (simp only: other [OF False])
      qed
    qed
  qed
qed simp

text \<open>The mappings the whole node ends up with, one active VM after the other.\<close>

definition wanted_vm ::
  "(int \<Rightarrow> read_result) \<Rightarrow> NATMapping list \<Rightarrow> apply_source \<Rightarrow> Reconciler \<Rightarrow> int \<Rightarrow> NATMapping list" where
  "wanted_vm rd allMappings source R v =
     vm_mappings source (is_authoritative source allMappings (GetActive (store R)))
       (filter (\<lambda>m. VMProxmoxVMID m = v) allMappings)
       (backup_view rd (backup R) v) (mgetd [] (lastAppliedByVMID R) v)"

definition active_ids :: "Reconciler \<Rightarrow> int list" where
  "active_ids R = map VMID (GetActive (store R))"

definition wanted ::
  "(int \<Rightarrow> read_result) \<Rightarrow> NATMapping list \<Rightarrow> apply_source \<Rightarrow> Reconciler \<Rightarrow> NATMapping list" where
  "wanted rd allMappings source R = concat (map (wanted_vm rd allMappings source R) (active_ids R))"

lemma resolve_all_spec:
  fixes rd allMappings source R
  assumes "store_wf (store R)"
  defines "r \<equiv> resolve_all rd allMappings source R"
  shows "res_nft r = wanted rd allMappings source R"
    and "set (res_bgp r) = ExternalIP ` set (wanted rd allMappings source R)"
    and "distinct (res_bgp r)"
    and "mget (res_applied r) v =
      (if v \<in> set (active_ids R) \<and> wanted_vm rd allMappings source R v \<noteq> []
       then Some (wanted_vm rd allMappings source R v) else None)"
    and "backup_ok rd (backup R) \<Longrightarrow> backup_ok rd (res_backup r)"
    and "v \<notin> set (active_ids R) \<Longrightarrow> backup_view rd (res_backup r) v = backup_view rd (backup R) v"
    and "backup_ok rd (backup R) \<Longrightarrow> v \<in> set (active_ids R) \<Longrightarrow>
      \<forall>m \<in> set allMappings. VMProxmoxVMID m = v \<longrightarrow> storable m \<Longrightarrow>
      backup_view rd (res_backup r) v =
        vm_backup source (is_authoritative source allMappings (GetActive (store R)))
          (filter (\<lambda>m. VMProxmoxVMID m = v) allMappings) (backup_view rd (backup R) v)"
proof -
  note f = resolve_fold [OF distinct_GetActive [OF assms(1)], where source = source and rd = rd
      and auth = "is_authoritative source allMappings (GetActive (store R))"
      and grp = "group_mappings allMappings" and prev = "lastAppliedByVMID R"
      and r = "\<lparr>res_applied = [], res_nft = [], res_bgp = [], res_backup = backup R,
            res_retained = 0, res_unresolved = 0\<rparr>",
      folded resolve_all_def [unfolded Let_def], folded r_def, unfolded Let_def mgetd_group_mappings,
      simplified]
  show "res_nft r = wanted rd allMappings source R"
    "set (res_bgp r) = ExternalIP ` set (wanted rd allMappings source R)"
    "distinct (res_bgp r)"
    using f by (simp_all add: wanted_def wanted_vm_def active_ids_def comp_def)
  show "mget (res_applied r) v =
      (if v \<in> set (active_ids R) \<and> wanted_vm rd allMappings source R v \<noteq> []
       then Some (wanted_vm rd allMappings source R v) else None)"
    using f by (simp add: wanted_vm_def active_ids_def)
  show "backup_ok rd (backup R) \<Longrightarrow> backup_ok rd (res_backup r)" using f by simp
  show "v \<notin> set (active_ids R) \<Longrightarrow> backup_view rd (res_backup r) v = backup_view rd (backup R) v"
    using f by (simp add: active_ids_def)
  show "backup_ok rd (backup R) \<Longrightarrow> v \<in> set (active_ids R) \<Longrightarrow>
      \<forall>m \<in> set allMappings. VMProxmoxVMID m = v \<longrightarrow> storable m \<Longrightarrow>
      backup_view rd (res_backup r) v =
        vm_backup source (is_authoritative source allMappings (GetActive (store R)))
          (filter (\<lambda>m. VMProxmoxVMID m = v) allMappings) (backup_view rd (backup R) v)"
    using f by (auto simp: active_ids_def)
qed

lemma load_each_view: "backup_view rd (snd (load_each rd vs b)) v = backup_view rd b v"
proof (induction rd vs b rule: load_each.induct)
  case (2 rd u us b)
  then show ?case using load_load [of rd v u b] by (auto split: prod.splits)
qed simp

lemma load_each_ok: "backup_ok rd b \<Longrightarrow> backup_ok rd (snd (load_each rd vs b))"
proof (induction rd vs b rule: load_each.induct)
  case (2 rd u us b)
  then show ?case using backup_ok_load [of rd b u] by (auto split: prod.splits)
qed simp

lemma managedIPs_frame:
  "snd (managedIPs rd R) = R\<lparr>backup := backup (snd (managedIPs rd R))\<rparr>"
  by (simp add: managedIPs_def split: prod.splits)

lemma allScans_view: "backup_view rd (b\<lparr>allScans := n\<rparr>) v = backup_view rd b v"
  by (auto simp: load_backup_def Let_def split: option.splits read_result.splits)

lemma managedIPs_backup:
  "\<exists>vs. backup (snd (managedIPs rd R)) =
     snd (load_each rd vs ((backup R)\<lparr>allScans := Suc (allScans (backup R))\<rparr>))"
  unfolding managedIPs_def all_backups_def by (simp split: prod.splits) (metis snd_conv)

lemma managedIPs_view: "backup_view rd (backup (snd (managedIPs rd R))) v = backup_view rd (backup R) v"
  using managedIPs_backup [of rd R] by (auto simp: load_each_view allScans_view)

lemma managedIPs_ok: "backup_ok rd (backup R) \<Longrightarrow> backup_ok rd (backup (snd (managedIPs rd R)))"
proof -
  assume "backup_ok rd (backup R)"
  then have "backup_ok rd ((backup R)\<lparr>allScans := Suc (allScans (backup R))\<rparr>)"
    by (simp add: backup_ok_def no_empty_def)
  then show ?thesis using managedIPs_backup [of rd R] load_each_ok by metis
qed

section \<open>Programming the host\<close>

text \<open>The table is what the remembered fingerprint stands for.\<close>

definition nft_inv :: "('w \<Rightarrow> string option) \<Rightarrow> Reconciler \<Rightarrow> 'w \<Rightarrow> bool" where
  "nft_inv table R w \<longleftrightarrow>
     (rulesetKeyValid R \<longrightarrow>
        (\<exists>ms. lastRulesetKey R = rulesetKey ms \<and> (\<forall>m \<in> set ms. key_safe_mapping m) \<and>
              table w = Some (render ms)))"

text \<open>The fields that an apply leaves alone.\<close>

definition apply_frame :: "Reconciler \<Rightarrow> Reconciler \<Rightarrow> bool" where
  "apply_frame R R' \<longleftrightarrow>
     R' = R\<lparr>backup := backup R', lastRulesetKey := lastRulesetKey R', rulesetKeyValid := rulesetKeyValid R',
            lastAppliedByVMID := lastAppliedByVMID R', unresolvedStreak := unresolvedStreak R',
            advertisedIPs := advertisedIPs R', kernelSynced := kernelSynced R'\<rparr>"

lemma apply_frame_refl [simp]: "apply_frame R R"
  by (simp add: apply_frame_def)

lemma apply_frame_trans: "apply_frame R R' \<Longrightarrow> apply_frame R' R'' \<Longrightarrow> apply_frame R R''"
  unfolding apply_frame_def by (cases R; cases R'; cases R'') simp

lemma apply_frame_applied: "apply_frame R R' \<Longrightarrow> apply_frame R (R'\<lparr>lastAppliedByVMID := applied\<rparr>)"
  unfolding apply_frame_def by (cases R; cases R') simp

lemma bgp_frame_apply: "bgp_frame R R' \<Longrightarrow> apply_frame R R'"
  unfolding apply_frame_def bgp_frame_def by (cases R; cases R') simp

lemma bgp_frameD:
  "bgp_frame R R' \<Longrightarrow> rulesetKeyValid R' = rulesetKeyValid R \<and> lastRulesetKey R' = lastRulesetKey R \<and>
   backup R' = backup R \<and> lastAppliedByVMID R' = lastAppliedByVMID R"
  unfolding bgp_frame_def by (cases R; cases R') simp

lemma apply_nft_frame:
  "apply_nft d unchanged ms (R, w) = (err, R', w') \<Longrightarrow>
   apply_frame R R' \<and> advertisedIPs R' = advertisedIPs R \<and> kernelSynced R' = kernelSynced R \<and>
   backup R' = backup R \<and> lastAppliedByVMID R' = lastAppliedByVMID R"
  by (auto simp: apply_nft_def apply_frame_def split: if_splits prod.splits option.splits)

context host
begin

lemma apply_nft_spec:
  assumes "apply_nft d unchanged ms (R, w) = (err, R', w')" and "ok w" "nft_inv table R w"
    and "\<forall>m \<in> set ms. key_safe_mapping m"
    and "unchanged \<longrightarrow> rulesetKeyValid R \<and> rulesetKey ms = lastRulesetKey R"
  shows "ok w' \<and> addrs w' = addrs w \<and> nft_inv table R' w' \<and>
    (err = None \<longrightarrow> table w' = Some (render ms)) \<and>
    (err \<noteq> None \<longrightarrow> table w' = table w \<and> \<not> rulesetKeyValid R')"
proof (cases unchanged)
  case True
  with assms obtain ms' where "rulesetKey ms = rulesetKey ms'" "\<forall>m \<in> set ms'. key_safe_mapping m"
    "table w = Some (render ms')"
    by (auto simp: nft_inv_def)
  then have "table w = Some (render ms)" using rulesetKey_render [of ms ms'] assms(4) by (metis Un_iff)
  then show ?thesis using assms True by (auto simp: apply_nft_def)
next
  case False
  obtain e w1 where call: "NftApply d ms w = (e, w1)" by fastforce
  show ?thesis
    using assms(1,2,4) False call nf.apply_rules [OF assms(2) call] apply_addrs [OF assms(2) call]
    by (cases e) (auto simp: apply_nft_def nft_inv_def)
qed

lemma nft_inv_bgp:
  assumes "reconcileBGP d desired managed (R, w) = (err, R', w')" and "ok w" "adv_inv addrs R w"
    and "\<forall>a \<in> set desired. Is4 a" "\<forall>a \<in> set managed. Is4 a"
  shows "nft_inv table R' w' = nft_inv table R w"
  using reconcileBGP_spec [OF assms] bgp_frameD [of R R'] by (simp add: nft_inv_def)

text \<open>
  Whatever fails, the invariants hold afterwards and foreign addresses stay; a nil result
  means that the table is the rendered ruleset.
\<close>

lemma program_host_spec:
  assumes "program_host d unchanged first ms desired managed applied (R, w) = (err, R', w')"
    and "ok w" "adv_inv addrs R w" "nft_inv table R w"
    and "\<forall>m \<in> set ms. key_safe_mapping m"
    and "\<forall>a \<in> set desired. Is4 a" "\<forall>a \<in> set managed. Is4 a"
    and "unchanged \<longrightarrow> rulesetKeyValid R \<and> rulesetKey ms = lastRulesetKey R"
  shows "ok w' \<and> adv_inv addrs R' w' \<and> nft_inv table R' w' \<and> apply_frame R R' \<and> backup R' = backup R \<and>
    (err = None \<longrightarrow> table w' = Some (render ms) \<and> lastAppliedByVMID R' = applied) \<and>
    (err \<noteq> None \<longrightarrow> table w' = table w \<and> \<not> rulesetKeyValid R' \<and>
       lastAppliedByVMID R' = lastAppliedByVMID R) \<and>
    (\<forall>a. a \<notin> set (advertisedIPs R) \<and> a \<notin> set desired \<and> a \<notin> set managed \<longrightarrow>
         (a \<in> addrs w') = (a \<in> addrs w))"
proof (cases first)
  case True
  obtain e1 R1 w1 where b: "reconcileBGP d desired managed (R, w) = (e1, R1, w1)"
    by (metis prod.exhaust)
  obtain e2 R2 w2 where n: "apply_nft d unchanged ms (R1, w1) = (e2, R2, w2)"
    by (metis prod.exhaust)
  note B = reconcileBGP_spec [OF b assms(2,3,6,7)]
  have inv1: "nft_inv table R1 w1" using nft_inv_bgp [OF b assms(2,3,6,7)] assms(4) by simp
  have unch: "unchanged \<longrightarrow> rulesetKeyValid R1 \<and> rulesetKey ms = lastRulesetKey R1"
    using assms(8) B bgp_frameD [of R R1] by simp
  have ok1: "ok w1" using B by blast
  note N = apply_nft_spec [OF n ok1 inv1 assms(5) unch]
  note NF = apply_nft_frame [OF n]
  have res: "err = e2" "R' = (if e2 = None then R2\<lparr>lastAppliedByVMID := applied\<rparr> else R2)" "w' = w2"
    using assms(1) True b n by (auto simp: program_host_def split: if_splits)
  have "apply_frame R R2" using B NF bgp_frame_apply apply_frame_trans by blast
  then have "apply_frame R R'" by (simp add: res(2) apply_frame_applied)
  moreover have "adv_inv addrs R' w'" using B N NF res by (auto simp: adv_inv_def)
  moreover have "nft_inv table R' w'" using N res by (auto simp: nft_inv_def)
  ultimately show ?thesis using B N NF bgp_frameD [of R R1] res by auto
next
  case False
  obtain e2 R2 w2 where n: "apply_nft d unchanged ms (R, w) = (e2, R2, w2)"
    by (metis prod.exhaust)
  note N = apply_nft_spec [OF n assms(2,4,5,8)]
  note NF = apply_nft_frame [OF n]
  have inv2: "adv_inv addrs R2 w2" using N NF assms(3) by (auto simp: adv_inv_def)
  have ok2: "ok w2" using N by blast
  obtain e1 R1 w1 where b: "reconcileBGP d desired managed (R2, w2) = (e1, R1, w1)"
    by (metis prod.exhaust)
  note B = reconcileBGP_spec [OF b ok2 inv2 assms(6,7)]
  have inv1: "nft_inv table R1 w1" using nft_inv_bgp [OF b ok2 inv2 assms(6,7)] N by simp
  have res: "err = e2" "R' = (if e2 = None then R1\<lparr>lastAppliedByVMID := applied\<rparr> else R2)"
    "w' = (if e2 = None then w1 else w2)"
    using assms(1) False b n by (auto simp: program_host_def split: if_splits)
  show ?thesis
  proof (cases "e2 = None")
    case None: True
    have "apply_frame R R1" using B NF bgp_frame_apply apply_frame_trans by blast
    then have "apply_frame R R'" by (simp add: res(2) None apply_frame_applied)
    moreover have "adv_inv addrs R' w'" using B res None by (auto simp: adv_inv_def)
    moreover have "nft_inv table R' w'" using inv1 res None by (auto simp: nft_inv_def)
    ultimately show ?thesis using B N NF bgp_frameD [of R2 R1] res None by auto
  next
    case False
    then show ?thesis using N NF inv2 res by auto
  qed
qed

end

section \<open>A whole apply\<close>

definition managed_of ::
  "(int \<Rightarrow> read_result) \<Rightarrow> NATMapping list \<Rightarrow> apply_source \<Rightarrow> Reconciler \<Rightarrow> Addr list" where
  "managed_of rd allMappings source R =
     (if kernelSynced R then []
      else fst (managedIPs rd (R\<lparr>backup := res_backup (resolve_all rd allMappings source R)\<rparr>)))"

lemma managedIPs_streak:
  "managedIPs rd (R\<lparr>unresolvedStreak := n\<rparr>) =
     (fst (managedIPs rd R), (snd (managedIPs rd R))\<lparr>unresolvedStreak := n\<rparr>)"
  by (cases R) (simp add: managedIPs_def cachedMappings_def split: prod.splits)

lemma apply_decompose:
  fixes R w rd allMappings source
  assumes "applyMappingsTimed d allMappings source (R, w) = (err, R', w')"
  defines "r \<equiv> resolve_all (ReadBackup d w) allMappings source R"
  obtains unchanged first R2 where
    "program_host d unchanged first (sortMappings (res_nft r)) (res_bgp r)
       (managed_of (ReadBackup d w) allMappings source R) (res_applied r) (R2, w) = (err, R', w')"
    "unchanged \<longleftrightarrow> rulesetKeyValid R \<and> rulesetKey (sortMappings (res_nft r)) = lastRulesetKey R"
    "first \<longleftrightarrow> unchanged \<or> \<not> hasNewAdvertisements (res_bgp r) R"
    "apply_frame R R2" "advertisedIPs R2 = advertisedIPs R" "kernelSynced R2 = kernelSynced R"
    "rulesetKeyValid R2 = rulesetKeyValid R" "lastRulesetKey R2 = lastRulesetKey R"
    "lastAppliedByVMID R2 = lastAppliedByVMID R"
    "\<And>v. backup_view (ReadBackup d w) (backup R2) v = backup_view (ReadBackup d w) (res_backup r) v"
    "backup_ok (ReadBackup d w) (res_backup r) \<Longrightarrow> backup_ok (ReadBackup d w) (backup R2)"
proof -
  let ?rd = "ReadBackup d w"
  define Rb where "Rb = R\<lparr>backup := res_backup r\<rparr>"
  define n where "n = (if 0 < res_retained r \<or> 0 < res_unresolved r then Suc (unresolvedStreak R) else 0)"
  define R2 where "R2 = (if kernelSynced R then Rb else snd (managedIPs ?rd Rb))\<lparr>unresolvedStreak := n\<rparr>"
  define unchanged where
    "unchanged \<longleftrightarrow> rulesetKeyValid R \<and> rulesetKey (sortMappings (res_nft r)) = lastRulesetKey R"
  have R1: "R\<lparr>backup := res_backup r, unresolvedStreak := n\<rparr> = Rb\<lparr>unresolvedStreak := n\<rparr>"
    by (simp add: Rb_def)
  have m: "managed_of ?rd allMappings source R = (if kernelSynced R then [] else fst (managedIPs ?rd Rb))"
    by (simp add: managed_of_def Rb_def r_def)
  have "applyMappingsTimed d allMappings source (R, w) =
      program_host d unchanged (unchanged \<or> \<not> hasNewAdvertisements (res_bgp r) R)
        (sortMappings (res_nft r)) (res_bgp r) (managed_of ?rd allMappings source R) (res_applied r) (R2, w)"
    unfolding applyMappingsTimed_def prod.case Let_def r_def [symmetric] n_def [symmetric] R1 m
    by (simp add: managedIPs_streak R2_def Rb_def unchanged_def hasNewAdvertisements_def)
  moreover have frame: "apply_frame R R2 \<and> advertisedIPs R2 = advertisedIPs R \<and>
      kernelSynced R2 = kernelSynced R \<and> rulesetKeyValid R2 = rulesetKeyValid R \<and>
      lastRulesetKey R2 = lastRulesetKey R \<and> lastAppliedByVMID R2 = lastAppliedByVMID R"
  proof (cases "kernelSynced R")
    case False
    obtain b where "snd (managedIPs ?rd Rb) = Rb\<lparr>backup := b\<rparr>" using managedIPs_frame by blast
    with False show ?thesis by (simp add: R2_def Rb_def apply_frame_def)
  qed (simp add: R2_def Rb_def apply_frame_def)
  moreover have "backup_view ?rd (backup R2) v = backup_view ?rd (res_backup r) v" for v
    by (simp add: R2_def managedIPs_view Rb_def)
  moreover have "backup_ok ?rd (res_backup r) \<Longrightarrow> backup_ok ?rd (backup R2)"
    by (simp add: R2_def managedIPs_ok Rb_def)
  ultimately show thesis using assms(1)
    by (intro that [of unchanged "unchanged \<or> \<not> hasNewAdvertisements (res_bgp r) R" R2])
      (simp_all add: unchanged_def)
qed

text \<open>What an apply expects of its inputs: IPv4 external addresses, no separator of the
  fingerprint in the zone of an internal one.\<close>

definition addressed :: "NATMapping \<Rightarrow> bool" where
  "addressed m \<longleftrightarrow> Is4 (ExternalIP m) \<and> key_safe (Zone (InternalIP m))"

definition apply_input_ok ::
  "(int \<Rightarrow> read_result) \<Rightarrow> NATMapping list \<Rightarrow> apply_source \<Rightarrow> Reconciler \<Rightarrow> bool" where
  "apply_input_ok rd allMappings source R \<longleftrightarrow>
     store_wf (store R) \<and> (\<forall>m \<in> set (wanted rd allMappings source R). addressed m) \<and>
     (\<forall>a \<in> set (managed_of rd allMappings source R). Is4 a)"

definition host_inv ::
  "('w \<Rightarrow> Addr set) \<Rightarrow> ('w \<Rightarrow> string option) \<Rightarrow> Reconciler \<Rightarrow> 'w \<Rightarrow> bool" where
  "host_inv addrs table R w \<longleftrightarrow> adv_inv addrs R w \<and> nft_inv table R w"

lemma addressed_key_safe: "addressed m \<Longrightarrow> key_safe_mapping m"
  by (cases "ExternalIP m") (simp_all add: addressed_def key_safe_mapping_def)

context host
begin

lemma apply_spec:
  assumes "applyMappingsTimed d allMappings source (R, w) = (err, R', w')"
    and "ok w" "host_inv addrs table R w" "apply_input_ok (ReadBackup d w) allMappings source R"
  shows "ok w' \<and> host_inv addrs table R' w' \<and> apply_frame R R' \<and>
    (err = None \<longrightarrow> table w' = Some (render (sortMappings (wanted (ReadBackup d w) allMappings source R))) \<and>
       (\<forall>v. mget (lastAppliedByVMID R') v =
         (if v \<in> set (active_ids R) \<and> wanted_vm (ReadBackup d w) allMappings source R v \<noteq> []
          then Some (wanted_vm (ReadBackup d w) allMappings source R v) else None))) \<and>
    (err \<noteq> None \<longrightarrow> table w' = table w \<and> \<not> rulesetKeyValid R' \<and>
       lastAppliedByVMID R' = lastAppliedByVMID R) \<and>
    (\<forall>a. a \<notin> set (advertisedIPs R) \<and> a \<notin> ExternalIP ` set (wanted (ReadBackup d w) allMappings source R) \<and>
         a \<notin> set (managed_of (ReadBackup d w) allMappings source R) \<longrightarrow> (a \<in> addrs w') = (a \<in> addrs w)) \<and>
    (\<forall>v. backup_view (ReadBackup d w) (backup R') v =
         backup_view (ReadBackup d w) (res_backup (resolve_all (ReadBackup d w) allMappings source R)) v) \<and>
    (backup_ok (ReadBackup d w) (backup R) \<longrightarrow> backup_ok (ReadBackup d w) (backup R'))"
proof -
  let ?rd = "ReadBackup d w"
  let ?r = "resolve_all ?rd allMappings source R"
  have wf: "store_wf (store R)" using assms(4) by (simp add: apply_input_ok_def)
  note r = resolve_all_spec [OF wf, where rd = ?rd and allMappings = allMappings and source = source]
  obtain unchanged first R2 where
    prog: "program_host d unchanged first (sortMappings (res_nft ?r)) (res_bgp ?r)
       (managed_of ?rd allMappings source R) (res_applied ?r) (R2, w) = (err, R', w')"
    and unch: "unchanged \<longleftrightarrow> rulesetKeyValid R \<and> rulesetKey (sortMappings (res_nft ?r)) = lastRulesetKey R"
    and fr: "apply_frame R R2" "advertisedIPs R2 = advertisedIPs R"
      "rulesetKeyValid R2 = rulesetKeyValid R" "lastRulesetKey R2 = lastRulesetKey R"
      "lastAppliedByVMID R2 = lastAppliedByVMID R"
    and bv: "\<And>v. backup_view ?rd (backup R2) v = backup_view ?rd (res_backup ?r) v"
    and bo: "backup_ok ?rd (res_backup ?r) \<Longrightarrow> backup_ok ?rd (backup R2)"
    by (rule apply_decompose [OF assms(1)]) blast
  have inv2: "adv_inv addrs R2 w" "nft_inv table R2 w"
    using assms(3) fr by (auto simp: host_inv_def adv_inv_def nft_inv_def)
  have safe: "\<forall>m \<in> set (sortMappings (res_nft ?r)). key_safe_mapping m"
    using assms(4) by (simp add: r(1) apply_input_ok_def addressed_key_safe)
  have bgp4: "\<forall>a \<in> set (res_bgp ?r). Is4 a"
    using assms(4) by (auto simp: r(2) apply_input_ok_def addressed_def)
  have man4: "\<forall>a \<in> set (managed_of ?rd allMappings source R). Is4 a"
    using assms(4) by (simp add: apply_input_ok_def)
  have unch2: "unchanged \<longrightarrow> rulesetKeyValid R2 \<and> rulesetKey (sortMappings (res_nft ?r)) = lastRulesetKey R2"
    using unch fr by simp
  note P = program_host_spec [OF prog assms(2) inv2 safe bgp4 man4 unch2]
  have "apply_frame R R'" using P fr(1) apply_frame_trans by blast
  then show ?thesis
    using P r bv bo fr by (auto simp: host_inv_def)
qed

end

section \<open>Recorded applies\<close>

lemma recordedD:
  "recorded c f s = (res, s') \<Longrightarrow> f (snd s) = (res, snd s')"
  by (auto simp: recorded_def split: prod.splits)

context host
begin

lemma host_recording:
  "host (recording d) (\<lambda>s. ok (snd s)) (\<lambda>s. addrs (snd s)) (\<lambda>s. table (snd s))"
proof (unfold_locales, unfold recording_def deps.simps)
  fix s s' :: "call list \<times> 'w" and ip ms err res ms_err
  assume ok: "ok (snd s)"
  show "ok (snd s') \<and> addrs (snd s') = (if err = None then insert ip (addrs (snd s)) else addrs (snd s))"
    if "Is4 ip" "recorded (\<lambda>err. CAdvertise ip (err = None)) (FrrAdvertise d ip) s = (err, s')"
    by (rule lo.advertise [OF ok that(1) recordedD [OF that(2)]])
  show "ok (snd s') \<and> addrs (snd s') = (if err = None then addrs (snd s) - {ip} else addrs (snd s))"
    if "Is4 ip" "recorded (\<lambda>err. CWithdraw ip (err = None)) (FrrWithdraw d ip) s = (err, s')"
    by (rule lo.withdraw [OF ok that(1) recordedD [OF that(2)]])
  show "ok (snd s') \<and> addrs (snd s') = addrs (snd s) \<and>
      (\<forall>ips. res = Inr ips \<longrightarrow> distinct ips \<and> set ips = {a \<in> addrs (snd s). \<not> IsLoopback a})"
    if "recorded (\<lambda>res. CActiveIPs (\<not> isl res)) (FrrActiveIPs d) s = (res, s')"
    by (rule lo.active [OF ok recordedD [OF that]])
  show "ok (snd s') \<and> table (snd s') = (if err = None then Some (render ms) else table (snd s))"
    if "recorded (\<lambda>err. CNftApply ms (err = None)) (NftApply d ms) s = (err, s')"
    by (rule nf.apply_rules [OF ok recordedD [OF that]])
  show "ok (snd s') \<and> table (snd s') = (if err = None then None else table (snd s))"
    if "recorded (\<lambda>err. CNftFlush (err = None)) (NftFlush d) s = (err, s')"
    by (rule nf.flush_rules [OF ok recordedD [OF that]])
  show "table (snd s') = table (snd s)"
    if "recorded (\<lambda>err. CAdvertise ip (err = None)) (FrrAdvertise d ip) s = (err, s')"
    by (rule advertise_table [OF ok recordedD [OF that]])
  show "table (snd s') = table (snd s)"
    if "recorded (\<lambda>err. CWithdraw ip (err = None)) (FrrWithdraw d ip) s = (err, s')"
    by (rule withdraw_table [OF ok recordedD [OF that]])
  show "table (snd s') = table (snd s)"
    if "recorded (\<lambda>res. CActiveIPs (\<not> isl res)) (FrrActiveIPs d) s = (res, s')"
    by (rule active_table [OF ok recordedD [OF that]])
  show "addrs (snd s') = addrs (snd s)"
    if "recorded (\<lambda>err. CNftApply ms (err = None)) (NftApply d ms) s = (err, s')"
    by (rule apply_addrs [OF ok recordedD [OF that]])
  show "addrs (snd s') = addrs (snd s)"
    if "recorded (\<lambda>err. CNftFlush (err = None)) (NftFlush d) s = (err, s')"
    by (rule flush_addrs [OF ok recordedD [OF that]])
  show "ok (snd s') \<and> addrs (snd s') = addrs (snd s) \<and> table (snd s') = table (snd s)"
    if "recorded (\<lambda>res. CFetch (\<not> isl res)) (FetchNATMappings d) s = (ms_err, s')"
    by (rule fetch_frame [OF ok recordedD [OF that]])
qed

end

interpretation rec_live: host "recording (live_deps exec m h fetch rd)"
  "\<lambda>s. live_host exec m h fetch addrs table" "\<lambda>s. addrs (snd s)" "\<lambda>s. table (snd s)"
  for exec m h fetch rd addrs table
  by (rule live.host_recording)

fun is_frr :: "call \<Rightarrow> bool" where
  "is_frr (CAdvertise _ _) \<longleftrightarrow> True"
| "is_frr (CWithdraw _ _) \<longleftrightarrow> True"
| "is_frr (CActiveIPs _) \<longleftrightarrow> True"
| "is_frr _ \<longleftrightarrow> False"

lemma adopt_log:
  assumes "adoptKernelStateLocked (recording d) managed (R, l, w) = (R', l', w')"
  shows "\<exists>ok. l' = l @ [CActiveIPs ok] \<and> set (advertisedIPs R) \<subseteq> set (advertisedIPs R')"
  using assms
  by (auto simp: adoptKernelStateLocked_def recording_simps split: prod.splits sum.splits)

lemma advertise_new_log:
  "advertise_new (recording d) ips (R, l, w) = (errs, R', l', w') \<Longrightarrow>
   \<exists>fl. l' = l @ fl \<and> (\<forall>c \<in> set fl. \<exists>ip ok. c = CAdvertise ip ok \<and> ip \<in> set ips \<and> ip \<notin> set (advertisedIPs R))"
proof (induction ips arbitrary: R l w errs R' l' w')
  case (Cons ip ips)
  obtain err w1 where call: "FrrAdvertise d ip w = (err, w1)" by fastforce
  show ?case
  proof (cases "ip \<in> set (advertisedIPs R)")
    case True
    then show ?thesis using Cons by fastforce
  next
    case new: False
    let ?R = "if err = None then R\<lparr>advertisedIPs := advertisedIPs R @ [ip]\<rparr> else R"
    obtain errs1 where "advertise_new (recording d) ips (?R, l @ [CAdvertise ip (err = None)], w1) =
        (errs1, R', l', w')"
      using Cons.prems new call by (cases err) (auto simp: recording_simps split: prod.splits)
    from Cons.IH [OF this] new show ?thesis by (fastforce split: if_splits)
  qed
qed simp

lemma withdraw_old_log:
  "withdraw_old (recording d) desired ips (R, l, w) = (errs, R', l', w') \<Longrightarrow>
   \<exists>fl. l' = l @ fl \<and> (\<forall>c \<in> set fl. \<exists>ip ok. c = CWithdraw ip ok)"
proof (induction ips arbitrary: R l w errs R' l' w')
  case (Cons ip ips)
  obtain err w1 where call: "FrrWithdraw d ip w = (err, w1)" by fastforce
  show ?case
  proof (cases "ip \<in> set desired")
    case True
    then show ?thesis using Cons by fastforce
  next
    case old: False
    let ?R = "if err = None then R\<lparr>advertisedIPs := filter (\<lambda>a. a \<noteq> ip) (advertisedIPs R)\<rparr> else R"
    obtain errs1 where "withdraw_old (recording d) desired ips (?R, l @ [CWithdraw ip (err = None)], w1) =
        (errs1, R', l', w')"
      using Cons.prems old call by (cases err) (auto simp: recording_simps split: prod.splits)
    from Cons.IH [OF this] show ?thesis by fastforce
  qed
qed simp

lemma reconcileBGP_log:
  assumes "reconcileBGP (recording d) desired managed (R, l, w) = (err, R', l', w')"
  shows "\<exists>fl. l' = l @ fl \<and> (\<forall>c \<in> set fl. is_frr c) \<and>
    (\<forall>ip ok. CAdvertise ip ok \<in> set fl \<longrightarrow> ip \<in> set desired \<and> ip \<notin> set (advertisedIPs R))"
proof -
  define s1 where "s1 = (if \<not> kernelSynced R \<and> 0 < length managed
      then adoptKernelStateLocked (recording d) managed (R, l, w) else (R, l, w))"
  obtain R1 l1 w1 where s1: "s1 = (R1, l1, w1)" by (metis prod.exhaust)
  obtain fl1 where l1: "l1 = l @ fl1" "\<forall>c \<in> set fl1. \<exists>ok. c = CActiveIPs ok"
    "set (advertisedIPs R) \<subseteq> set (advertisedIPs R1)"
    using s1 adopt_log [of d managed R l w R1 l1 w1] by (auto simp: s1_def split: if_splits)
  obtain errs1 R2 l2 w2 where a: "advertise_new (recording d) desired (R1, l1, w1) = (errs1, R2, l2, w2)"
    by (metis prod.exhaust)
  obtain fl2 where l2: "l2 = l1 @ fl2"
    "\<forall>c \<in> set fl2. \<exists>ip ok. c = CAdvertise ip ok \<and> ip \<in> set desired \<and> ip \<notin> set (advertisedIPs R1)"
    using advertise_new_log [OF a] by blast
  obtain errs2 R3 l3 w3 where
    b: "withdraw_old (recording d) desired (advertisedIPs R2) (R2, l2, w2) = (errs2, R3, l3, w3)"
    by (metis prod.exhaust)
  obtain fl3 where l3: "l3 = l2 @ fl3" "\<forall>c \<in> set fl3. \<exists>ip ok. c = CWithdraw ip ok"
    using withdraw_old_log [OF b] by blast
  have "l' = l3"
    using assms unfolding reconcileBGP_def fst_conv s1_def [symmetric] s1 Let_def a prod.case b by simp
  then show ?thesis
    using l1 l2 l3 by (intro exI [of _ "fl1 @ fl2 @ fl3"]) fastforce
qed

lemma apply_nft_log:
  "apply_nft (recording d) unchanged ms (R, l, w) = (err, R', l', w') \<Longrightarrow>
   l' = l @ (if unchanged then [] else [CNftApply ms (err = None)])"
  by (auto simp: apply_nft_def recording_simps split: if_splits prod.splits option.splits)

lemma program_host_log:
  assumes "program_host (recording d) unchanged first ms desired managed applied (R, l, w) = (err, R', l', w')"
  shows "\<exists>fl. (\<forall>c \<in> set fl. is_frr c) \<and>
    (\<forall>ip ok. CAdvertise ip ok \<in> set fl \<longrightarrow> ip \<in> set desired \<and> ip \<notin> set (advertisedIPs R)) \<and>
    l' = l @ (if first then fl @ (if unchanged then [] else [CNftApply ms (err = None)])
              else (if unchanged then [] else [CNftApply ms (err = None)]) @ (if err = None then fl else []))"
proof (cases first)
  case True
  obtain e1 R1 l1 w1 where b: "reconcileBGP (recording d) desired managed (R, l, w) = (e1, R1, l1, w1)"
    by (metis prod.exhaust)
  obtain e2 R2 l2 w2 where n: "apply_nft (recording d) unchanged ms (R1, l1, w1) = (e2, R2, l2, w2)"
    by (metis prod.exhaust)
  have "err = e2" "l' = l2" using assms True b n by (auto simp: program_host_def split: if_splits)
  then show ?thesis using True reconcileBGP_log [OF b] apply_nft_log [OF n] by auto
next
  case False
  obtain e2 R2 l2 w2 where n: "apply_nft (recording d) unchanged ms (R, l, w) = (e2, R2, l2, w2)"
    by (metis prod.exhaust)
  obtain e1 R1 l1 w1 where b: "reconcileBGP (recording d) desired managed (R2, l2, w2) = (e1, R1, l1, w1)"
    by (metis prod.exhaust)
  have res: "err = e2" "l' = (if e2 = None then l1 else l2)"
    using assms False b n by (auto simp: program_host_def split: if_splits)
  have "advertisedIPs R2 = advertisedIPs R" using apply_nft_frame [of "recording d"] n by blast
  then show ?thesis using False res reconcileBGP_log [OF b] apply_nft_log [OF n] by auto
qed

lemma ReadBackup_recording [simp]: "ReadBackup (recording d) (l, w) = ReadBackup d w"
  by (simp add: recording_def)

lemma ReadBackup_live [simp]: "ReadBackup (live_deps exec m h fetch rd) w = rd w"
  by (simp add: live_deps_def)

text \<open>When no call on the interface fails, an apply also converges the announcements.\<close>

definition no_frr_error :: "call list \<Rightarrow> bool" where
  "no_frr_error l \<longleftrightarrow> (\<forall>ip. CAdvertise ip False \<notin> set l \<and> CWithdraw ip False \<notin> set l)"

lemma bgp_log_ok:
  assumes "reconcileBGP (recording d) desired managed (R, l, w) = (err, R', l', w')"
    and "distinct desired" "kernelSynced R \<or> managed = []" "distinct (advertisedIPs R)"
    and "no_frr_error l'"
  shows "err = None"
proof -
  obtain adv_ok wd_ok where *:
    "l' = l @ map (\<lambda>ip. CAdvertise ip (adv_ok ip)) (filter (\<lambda>ip. ip \<notin> set (advertisedIPs R)) desired)
       @ map (\<lambda>ip. CWithdraw ip (wd_ok ip)) (filter (\<lambda>ip. ip \<notin> set desired)
           (advertisedIPs R @ filter adv_ok (filter (\<lambda>ip. ip \<notin> set (advertisedIPs R)) desired)))"
    "err = None \<longleftrightarrow> list_all adv_ok (filter (\<lambda>ip. ip \<notin> set (advertisedIPs R)) desired) \<and>
      list_all wd_ok (filter (\<lambda>ip. ip \<notin> set desired)
        (advertisedIPs R @ filter adv_ok (filter (\<lambda>ip. ip \<notin> set (advertisedIPs R)) desired)))"
    using reconcileBGP_calls [OF assms(2,3,4,1)] unfolding Let_def by blast
  let ?fresh = "filter (\<lambda>ip. ip \<notin> set (advertisedIPs R)) desired"
  let ?stale = "filter (\<lambda>ip. ip \<notin> set desired) (advertisedIPs R @ filter adv_ok ?fresh)"
  have "adv_ok ip" if "ip \<in> set ?fresh" for ip
  proof -
    have "CAdvertise ip (adv_ok ip) \<in> set l'"
      unfolding *(1) set_append set_map using imageI [OF that, of "\<lambda>ip. CAdvertise ip (adv_ok ip)"] by blast
    then show ?thesis using assms(5) unfolding no_frr_error_def by (cases "adv_ok ip") auto
  qed
  moreover have "wd_ok ip" if "ip \<in> set ?stale" for ip
  proof -
    have "CWithdraw ip (wd_ok ip) \<in> set l'"
      unfolding *(1) set_append set_map using imageI [OF that, of "\<lambda>ip. CWithdraw ip (wd_ok ip)"] by blast
    then show ?thesis using assms(5) unfolding no_frr_error_def by (cases "wd_ok ip") auto
  qed
  ultimately show ?thesis unfolding *(2) list_all_iff by blast
qed

context host
begin

lemmas rec_bgp = host.reconcileBGP_spec [OF host_recording]
lemmas rec_nft = host.apply_nft_spec [OF host_recording]

lemma program_host_converges:
  assumes "program_host (recording d) unchanged first ms desired [] applied (R, l, w) = (None, R', l', w')"
    and "ok w" "adv_inv addrs R w" "nft_inv table R w" "kernelSynced R" "no_frr_error l'"
    and "\<forall>m \<in> set ms. key_safe_mapping m" "\<forall>a \<in> set desired. Is4 a" "distinct desired"
    and "unchanged \<longrightarrow> rulesetKeyValid R \<and> rulesetKey ms = lastRulesetKey R"
  shows "set (advertisedIPs R') = set desired \<and> addrs w' = (addrs w - set (advertisedIPs R)) \<union> set desired"
proof -
  have inv: "adv_inv (\<lambda>s. addrs (snd s)) R (l, w)" "nft_inv (\<lambda>s. table (snd s)) R (l, w)"
    using assms(3,4) by (simp_all add: adv_inv_def nft_inv_def)
  have ok: "ok (snd (l, w))" using assms(2) by simp
  have dist: "distinct (advertisedIPs R)" using assms(3) by (simp add: adv_inv_def)
  have no_managed: "\<forall>a \<in> set []. Is4 a" by simp
  show ?thesis
  proof (cases first)
    case True
    obtain e1 R1 l1 w1 where b: "reconcileBGP (recording d) desired [] (R, l, w) = (e1, R1, l1, w1)"
      by (metis prod.exhaust)
    obtain e2 R2 l2 w2 where n: "apply_nft (recording d) unchanged ms (R1, l1, w1) = (e2, R2, l2, w2)"
      by (metis prod.exhaust)
    have res: "e2 = None" "R' = R2\<lparr>lastAppliedByVMID := applied\<rparr>" "l' = l2" "w' = w2"
      using assms(1) True b n by (auto simp: program_host_def split: if_splits)
    have "no_frr_error l1"
      using assms(6) apply_nft_log [OF n] res by (auto simp: no_frr_error_def)
    then have "e1 = None" using bgp_log_ok [OF b] assms(5,9) dist by simp
    moreover note B = rec_bgp [OF b ok inv(1) assms(8) no_managed]
    moreover have "ok (snd (l1, w1))" "nft_inv (\<lambda>s. table (snd s)) R1 (l1, w1)"
      "unchanged \<longrightarrow> rulesetKeyValid R1 \<and> rulesetKey ms = lastRulesetKey R1"
      using B inv(2) assms(10) bgp_frameD [of R R1] by (simp_all add: nft_inv_def)
    note rec_nft [OF n this(1,2) assms(7) this(3)]
    ultimately show ?thesis using apply_nft_frame [OF n] res assms(5) by (simp add: adopted_def)
  next
    case False
    obtain e2 R2 l2 w2 where n: "apply_nft (recording d) unchanged ms (R, l, w) = (e2, R2, l2, w2)"
      by (metis prod.exhaust)
    obtain e1 R1 l1 w1 where b: "reconcileBGP (recording d) desired [] (R2, l2, w2) = (e1, R1, l1, w1)"
      by (metis prod.exhaust)
    have res: "R' = R1\<lparr>lastAppliedByVMID := applied\<rparr>" "l' = l1" "w' = w1"
      using assms(1) False b n by (auto simp: program_host_def split: if_splits)
    note NF = apply_nft_frame [OF n]
    note N = rec_nft [OF n ok inv(2) assms(7,10)]
    have inv2: "adv_inv (\<lambda>s. addrs (snd s)) R2 (l2, w2)" "ok (snd (l2, w2))"
      using N NF inv(1) by (auto simp: adv_inv_def)
    have "e1 = None" using bgp_log_ok [OF b] assms(5,6,9) dist NF res by simp
    with rec_bgp [OF b inv2(2,1) assms(8) no_managed] N NF res assms(5)
    show ?thesis by (simp add: adopted_def)
  qed
qed

lemma apply_converges:
  assumes "applyMappingsTimed (recording d) allMappings source (R, l, w) = (None, R', l', w')"
    and "ok w" "host_inv addrs table R w" "apply_input_ok (ReadBackup d w) allMappings source R"
    and "kernelSynced R" "no_frr_error l'"
  shows "set (advertisedIPs R') = ExternalIP ` set (wanted (ReadBackup d w) allMappings source R) \<and>
    addrs w' = (addrs w - set (advertisedIPs R)) \<union>
      ExternalIP ` set (wanted (ReadBackup d w) allMappings source R)"
proof -
  let ?r = "resolve_all (ReadBackup d w) allMappings source R"
  have wf: "store_wf (store R)" using assms(4) by (simp add: apply_input_ok_def)
  note r = resolve_all_spec [OF wf, where rd = "ReadBackup d w" and allMappings = allMappings and source = source]
  have no_managed: "managed_of (ReadBackup d w) allMappings source R = []"
    using assms(5) by (simp add: managed_of_def)
  obtain unchanged first R2 where
    prog: "program_host (recording d) unchanged first (sortMappings (res_nft ?r)) (res_bgp ?r) []
       (res_applied ?r) (R2, l, w) = (None, R', l', w')"
    and unch: "unchanged \<longleftrightarrow> rulesetKeyValid R \<and> rulesetKey (sortMappings (res_nft ?r)) = lastRulesetKey R"
    and fr: "advertisedIPs R2 = advertisedIPs R" "kernelSynced R2 = kernelSynced R"
      "rulesetKeyValid R2 = rulesetKeyValid R" "lastRulesetKey R2 = lastRulesetKey R"
    by (rule apply_decompose [OF assms(1)], unfold ReadBackup_recording no_managed) blast
  have "adv_inv addrs R2 w" "nft_inv table R2 w"
    using assms(3) fr by (auto simp: host_inv_def adv_inv_def nft_inv_def)
  moreover have "\<forall>m \<in> set (sortMappings (res_nft ?r)). key_safe_mapping m" "\<forall>a \<in> set (res_bgp ?r). Is4 a"
    using assms(4) by (auto simp: r(1,2) apply_input_ok_def addressed_key_safe addressed_def)
  ultimately show ?thesis
    using program_host_converges [OF prog assms(2)] unch fr assms(5,6) r(2,3) by simp
qed

end

lemma apply_exact:
  assumes "live_host exec m h fetch addrs table" and "host_inv addrs table R w"
    and "apply_input_ok (rd w) allMappings source R" and "kernelSynced R"
    and "applyMappings (recording (live_deps exec m h fetch rd)) allMappings source (R, [], w) =
           (None, R', l, w')"
    and "no_frr_error l"
  shows "table w' = Some (render (sortMappings (wanted (rd w) allMappings source R))) \<and>
    addrs w' = (addrs w - set (advertisedIPs R)) \<union> ExternalIP ` set (wanted (rd w) allMappings source R) \<and>
    set (advertisedIPs R') = ExternalIP ` set (wanted (rd w) allMappings source R)"
proof -
  have input: "apply_input_ok (ReadBackup (live_deps exec m h fetch rd) w) allMappings source R"
    using assms(3) by simp
  note call = assms(5) [unfolded applyMappings_def]
  have inv: "host_inv (\<lambda>s. addrs (snd s)) (\<lambda>s. table (snd s)) R ([], w)"
    using assms(2) by (simp add: host_inv_def adv_inv_def nft_inv_def)
  have input': "apply_input_ok (ReadBackup (recording (live_deps exec m h fetch rd)) ([], w)) allMappings source R"
    using assms(3) by simp
  have "table w' = Some (render (sortMappings (wanted (rd w) allMappings source R)))"
    using rec_live.apply_spec [OF call assms(1) inv input'] by simp
  moreover note live.apply_converges [OF call assms(1,2) input assms(4,6)]
  ultimately show ?thesis by simp
qed

section \<open>Properties\<close>

text \<open>
  C9: Correctness of an apply. On a host whose commands behave as documented, if an apply
  returns nil and no call on the interface fails, then the nftables table holds exactly the
  rendered ruleset of the mappings the active VMs resolve to, and exactly their external
  addresses have taken the place of the previously advertised ones on the interface.
\<close>

theorem apply_programs_the_host:
  assumes "live_host exec m h fetch addrs table" and "host_inv addrs table R w"
    and "apply_input_ok (rd w) allMappings source R" and "kernelSynced R"
    and "applyMappings (recording (live_deps exec m h fetch rd)) allMappings source (R, [], w) =
           (None, R', l, w')"
    and "no_frr_error l"
  shows "table w' = Some (render (sortMappings (wanted (rd w) allMappings source R))) \<and>
    addrs w' = (addrs w - set (advertisedIPs R)) \<union> ExternalIP ` set (wanted (rd w) allMappings source R) \<and>
    set (advertisedIPs R') = ExternalIP ` set (wanted (rd w) allMappings source R)"
  by (rule apply_exact [OF assms])

definition store101 :: Store where
  "store101 = SetActive 101 ''web'' 5 New_Store"

definition rec101 :: Reconciler where
  "rec101 = (newReconciler ''pve1'' store101)\<lparr>advertisedIPs := [V4 203 0 113 1], kernelSynced := True\<rparr>"

definition web2 :: NATMapping where
  "web2 = web_mapping\<lparr>ExternalIP := V4 203 0 113 2\<rparr>"

lemma store_wf_store101: "store_wf store101"
  by (simp add: store101_def SetActive_def store_wf_store_set store_wf_New)

lemma active_store101: "map VMID (GetActive store101) = [101]"
  by (simp add: store101_def SetActive_def store_set_def New_Store_def GetActive_def)

lemma wanted_rec101: "wanted sim_rd [web2] sourceFullFetch rec101 = [web2]"
proof -
  have "active_ids rec101 = [101]" using active_store101 by (simp add: active_ids_def rec101_def)
  then show ?thesis
    by (simp add: wanted_def wanted_vm_def vm_mappings_def web2_def web_mapping_def)
qed

lemma rec101_simps [simp]:
  "store rec101 = store101" "advertisedIPs rec101 = [V4 203 0 113 1]" "kernelSynced rec101"
  "rulesetKeyValid rec101 = False" "backup rec101 = newBackupStore"
  by (simp_all add: rec101_def newReconciler_def)

lemma rec101_ok:
  "host_inv sim_addrs sim_table rec101 sim1"
  "apply_input_ok sim_rd [web2] sourceFullFetch rec101"
  using store_wf_store101
  by (simp_all add: host_inv_def adv_inv_def nft_inv_def apply_input_ok_def
      wanted_rec101 managed_of_def sim_addrs_def sim1_def addressed_def)
    (simp add: web2_def web_mapping_def)

lemma singleton_list: "set xs = {a} \<Longrightarrow> distinct xs \<Longrightarrow> xs = [a]"
  by (cases xs; cases "tl xs") auto

lemma sim_apply_any:
  assumes "store_wf (store R)" "advertisedIPs R = [V4 203 0 113 1]" "kernelSynced R" "\<not> rulesetKeyValid R"
    and "wanted sim_rd allMappings source R = ms" "ms = [web2] \<or> ms = []" "no_frr_error l0"
    and "sim_quads w = sim_quads sim1" "sim_down w = []" "\<not> sim_nft_down w"
  shows "\<exists>R' l w'. applyMappingsTimed (recording (live_deps sim_exec sim_frr sim_nft fetch (\<lambda>_. sim_rd))) allMappings source
     (R, l0, w) = (None, R', l, w') \<and> no_frr_error l"
proof -
  let ?d = "recording (live_deps sim_exec sim_frr sim_nft fetch (\<lambda>_. sim_rd))"
  let ?r = "resolve_all sim_rd allMappings source R"
  note r = resolve_all_spec [OF assms(1), where rd = sim_rd and allMappings = allMappings and source = source, unfolded assms(5)]
  have bgp: "res_bgp ?r = map ExternalIP ms"
    using assms(6) r(2,3) singleton_list [of "res_bgp ?r"] by auto
  obtain err R' l w' where call: "applyMappingsTimed ?d allMappings source (R, l0, w) = (err, R', l, w')"
    by (metis prod.exhaust)
  have man: "managed_of sim_rd allMappings source R = []" using assms(3) by (simp add: managed_of_def)
  obtain first R2 where prog: "program_host ?d False first ms (map ExternalIP ms) [] (res_applied ?r) (R2, l0, w) =
       (err, R', l, w')"
    and "advertisedIPs R2 = [V4 203 0 113 1]" "kernelSynced R2"
    by (rule apply_decompose [OF call])
      (use assms(2-4,6) in \<open>auto simp: r(1) bgp man sortMappings_def\<close>)
  then have "err = None \<and> no_frr_error l"
    using assms(6-10)
    by (auto simp: program_host_def apply_nft_def recording_simps sim_simps sim1_def anycast_def
        reconcileBGP_def no_frr_error_def web2_def split: prod.splits if_splits)
  with call show ?thesis by blast
qed

lemma sim_apply_runs:
  assumes "store_wf (store R)" "advertisedIPs R = [V4 203 0 113 1]" "kernelSynced R" "\<not> rulesetKeyValid R"
    and "wanted sim_rd allMappings source R = ms" "ms = [web2] \<or> ms = []" "no_frr_error l0"
  shows "\<exists>R' l w'. applyMappingsTimed (recording (live_deps sim_exec sim_frr sim_nft fetch (\<lambda>_. sim_rd))) allMappings source
     (R, l0, sim1) = (None, R', l, w') \<and> no_frr_error l"
  by (rule sim_apply_any [OF assms]) (simp_all add: sim1_def)

lemma run_rec101:
  "\<exists>R' l w'. applyMappings (recording (live_deps sim_exec sim_frr sim_nft fetch (\<lambda>_. sim_rd))) [web2] sourceFullFetch (rec101, [], sim1) =
     (None, R', l, w') \<and> no_frr_error l"
  unfolding applyMappings_def
  by (rule sim_apply_runs [OF _ _ _ _ wanted_rec101]) (simp_all add: store_wf_store101 no_frr_error_def)

theorem apply_programs_the_host_witness:
  "\<exists>R' l w'. applyMappings (recording (sim_live sim_rd)) [web2] sourceFullFetch (rec101, [], sim1) =
     (None, R', l, w') \<and> sim_table w' = Some (render [web2]) \<and>
     sim_addrs w' = {quad_addr anycast, V4 203 0 113 2}"
proof -
  obtain R' l w' where call:
    "applyMappings (recording (sim_live sim_rd)) [web2] sourceFullFetch (rec101, [], sim1) = (None, R', l, w')"
    and l: "no_frr_error l" using run_rec101 by blast
  note P = apply_programs_the_host [OF sim_host rec101_ok _ call l, unfolded wanted_rec101]
  have "sim_addrs sim1 - set (advertisedIPs rec101) = {quad_addr anycast}"
    by (simp add: sim_addrs_def sim1_def anycast_def insert_Diff_if)
  then have "sim_addrs w' = {quad_addr anycast, V4 203 0 113 2}"
    using P by (simp add: web2_def insert_commute)
  with P call show ?thesis by (simp add: sortMappings_def)
qed

text \<open>
  C11: Order of the kernel updates. The calls of an apply are at most one load of the ruleset,
  skipped when its fingerprint is the remembered one, and the calls on the interface. If an
  address is to be announced that was not before and the ruleset changes, the ruleset comes
  first, and no call on the interface is made if it fails: no traffic is attracted without
  translation. Otherwise the interface comes first. Only addresses of resolved mappings
  that are not announced yet are announced.
\<close>

theorem apply_calls_order:
  assumes "store_wf (store R)"
    and "applyMappings (recording d) allMappings source (R, [], w) = (err, R', l, w')"
  shows "\<exists>fl. list_all is_frr fl \<and>
    (let desired = wanted (ReadBackup d w) allMappings source R;
         ruleset = sortMappings desired;
         unchanged = (rulesetKeyValid R \<and> rulesetKey ruleset = lastRulesetKey R);
         announces = (\<exists>m \<in> set desired. ExternalIP m \<notin> set (advertisedIPs R));
         nft = [CNftApply ruleset (err = None)]
     in {ip. \<exists>done. CAdvertise ip done \<in> set fl} \<subseteq> ExternalIP ` set desired - set (advertisedIPs R) \<and>
        l = (if unchanged then fl
             else if \<not> announces then fl @ nft
             else if err = None then nft @ fl
             else nft))"
proof -
  let ?rd = "ReadBackup (recording d) ([], w)"
  let ?r = "resolve_all ?rd allMappings source R"
  note r = resolve_all_spec [OF assms(1), where rd = ?rd and allMappings = allMappings and source = source]
  obtain unchanged first R2 where
    prog: "program_host (recording d) unchanged first (sortMappings (res_nft ?r)) (res_bgp ?r)
       (managed_of ?rd allMappings source R) (res_applied ?r) (R2, [], w) = (err, R', l, w')"
    and unch: "unchanged \<longleftrightarrow> rulesetKeyValid R \<and> rulesetKey (sortMappings (res_nft ?r)) = lastRulesetKey R"
    and first: "first \<longleftrightarrow> unchanged \<or> \<not> hasNewAdvertisements (res_bgp ?r) R"
    and adv: "advertisedIPs R2 = advertisedIPs R"
    by (rule apply_decompose [OF assms(2) [unfolded applyMappings_def]]) blast
  have new: "hasNewAdvertisements (res_bgp ?r) R \<longleftrightarrow>
      (\<exists>m \<in> set (wanted ?rd allMappings source R). ExternalIP m \<notin> set (advertisedIPs R))"
    unfolding hasNewAdvertisements_def list_ex_iff r(2) by blast
  obtain fl where fl: "list_all is_frr fl"
    "{ip. \<exists>done. CAdvertise ip done \<in> set fl} \<subseteq> set (res_bgp ?r) - set (advertisedIPs R)"
    "l = (if first then fl @ (if unchanged then [] else [CNftApply (sortMappings (res_nft ?r)) (err = None)])
          else (if unchanged then [] else [CNftApply (sortMappings (res_nft ?r)) (err = None)]) @
               (if err = None then fl else []))"
    using program_host_log [OF prog] by (auto simp: adv list_all_iff)
  show ?thesis
    using fl unfolding r(1,2) first new unch Let_def by (intro exI [of _ fl]) auto
qed

theorem apply_calls_order_witness:
  "\<exists>err R' l w' fl. applyMappings (recording (sim_live sim_rd)) [web2] sourceFullFetch (rec101, [], sim1\<lparr>sim_nft_down := True\<rparr>) =
     (err, R', l, w') \<and> list_all is_frr fl \<and>
     l = (if err = None then CNftApply [web2] True # fl else [CNftApply [web2] False])"
proof -
  obtain err R' l w' where call: "applyMappings (recording (sim_live sim_rd)) [web2] sourceFullFetch
      (rec101, [], sim1\<lparr>sim_nft_down := True\<rparr>) = (err, R', l, w')"
    by (metis prod.exhaust)
  have wf: "store_wf (store rec101)" using store_wf_store101 by simp
  have "web2 \<in> set [web2] \<and> ExternalIP web2 \<notin> set (advertisedIPs rec101)" by (simp add: web2_def)
  then have "\<exists>m \<in> set [web2]. ExternalIP m \<notin> set (advertisedIPs rec101)" by blast
  with apply_calls_order [OF wf call] have "\<exists>fl. list_all is_frr fl \<and>
      l = (if err = None then CNftApply [web2] True # fl else [CNftApply [web2] False])"
    by (auto simp: wanted_rec101 sortMappings_def Let_def)
  with call show ?thesis by blast
qed

text \<open>
  C12: Failures are contained. Whatever fails during an apply, what the reconciler believes
  about the host stays true (every address it counts as announced is on the interface, a
  remembered fingerprint is that of the loaded ruleset), addresses that are not its own stay
  as they are, and an error means that the table is untouched, the fingerprint is forgotten
  and the last applied mappings are still the previous ones.
\<close>

theorem apply_contains_failures:
  assumes "live_host exec m h fetch addrs table" and "host_inv addrs table R w"
    and "apply_input_ok (rd w) allMappings source R"
    and "applyMappings (live_deps exec m h fetch rd) allMappings source (R, w) = (err, R', w')"
  shows "host_inv addrs table R' w' \<and>
    (addrs w' - addrs w) \<union> (addrs w - addrs w') \<subseteq> set (advertisedIPs R) \<union>
      ExternalIP ` set (wanted (rd w) allMappings source R) \<union> set (managed_of (rd w) allMappings source R) \<and>
    (if err = None then table w' = Some (render (sortMappings (wanted (rd w) allMappings source R)))
     else table w' = table w \<and> \<not> rulesetKeyValid R' \<and> lastAppliedByVMID R' = lastAppliedByVMID R)"
proof -
  have input: "apply_input_ok (ReadBackup (live_deps exec m h fetch rd) w) allMappings source R"
    using assms(3) by simp
  note A = live.apply_spec [OF assms(4) [unfolded applyMappings_def] assms(1,2) input, unfolded ReadBackup_live]
  have inv: "host_inv addrs table R' w'"
    and foreign: "\<forall>a. a \<notin> set (advertisedIPs R) \<and> a \<notin> ExternalIP ` set (wanted (rd w) allMappings source R) \<and>
         a \<notin> set (managed_of (rd w) allMappings source R) \<longrightarrow> (a \<in> addrs w') = (a \<in> addrs w)"
    and none: "err = None \<longrightarrow> table w' = Some (render (sortMappings (wanted (rd w) allMappings source R)))"
    and some: "err \<noteq> None \<longrightarrow> table w' = table w \<and> \<not> rulesetKeyValid R' \<and>
       lastAppliedByVMID R' = lastAppliedByVMID R"
    using A by blast+
  show ?thesis using inv foreign none some by auto
qed

theorem apply_contains_failures_witness:
  "\<exists>err R' w'. applyMappings (sim_live sim_rd) [web2] sourceFullFetch (rec101, sim1\<lparr>sim_nft_down := True\<rparr>) =
     (err, R', w') \<and> quad_addr anycast \<in> sim_addrs w' \<and> (err \<noteq> None \<longrightarrow> sim_table w' = None)"
proof -
  obtain err R' w' where call: "applyMappings (sim_live sim_rd) [web2] sourceFullFetch
      (rec101, sim1\<lparr>sim_nft_down := True\<rparr>) = (err, R', w')"
    by (metis prod.exhaust)
  have inv: "host_inv sim_addrs sim_table rec101 (sim1\<lparr>sim_nft_down := True\<rparr>)"
    using rec101_ok(1) by (simp add: host_inv_def adv_inv_def nft_inv_def sim_addrs_def)
  note P = apply_contains_failures [OF sim_host inv rec101_ok(2) call, unfolded wanted_rec101]
  have "quad_addr anycast \<in> sim_addrs (sim1\<lparr>sim_nft_down := True\<rparr>)"
    by (simp add: sim_addrs_def sim1_def)
  moreover have "quad_addr anycast \<notin> set (advertisedIPs rec101) \<union> ExternalIP ` set [web2] \<union>
      set (managed_of sim_rd [web2] sourceFullFetch rec101)"
    by (simp add: managed_of_def web2_def anycast_def)
  ultimately have "quad_addr anycast \<in> sim_addrs w'" using P by blast
  moreover have "err \<noteq> None \<longrightarrow> sim_table w' = None" using P by (simp add: sim1_def)
  ultimately show ?thesis using call by blast
qed

text \<open>
  C16: The ruleset is canonical. It and its fingerprint depend only on which mappings there
  are, not on the order in which NetBox, the cache or the iteration over a map produced them.
\<close>

theorem ruleset_canonical:
  assumes "mset ms = mset ms'"
  shows "render (sortMappings ms) = render (sortMappings ms') \<and>
         rulesetKey (sortMappings ms) = rulesetKey (sortMappings ms')"
proof -
  note pairs = canonical_pairs [OF map_key_sortMappings [OF assms]]
  show ?thesis unfolding rulesetKey_pairs pairs using render_rule_pair [OF pairs] by simp
qed

theorem ruleset_canonical_witness:
  "render (sortMappings [web2, web_mapping]) = render (sortMappings [web_mapping, web2])"
  using ruleset_canonical [of "[web2, web_mapping]" "[web_mapping, web2]"] by simp

text \<open>
  The fingerprint decides. For mappings whose addresses have no separator of the
  fingerprint in their zone (IPv4 addresses have none), two rulesets with the same
  fingerprint are the same text, so a load that is skipped would have changed nothing.
\<close>

theorem fingerprint_decides:
  assumes "rulesetKey ms = rulesetKey ms'" and "list_all key_safe_mapping (ms @ ms')"
  shows "render ms = render ms'"
  using rulesetKey_render [OF assms(1)] assms(2) by (auto simp: list_all_iff)

theorem fingerprint_decides_witness:
  "render [web2, web2\<lparr>VMProxmoxVMID := 7\<rparr>] = render [web2\<lparr>VMName := ''x''\<rparr>, web2]"
  by (rule fingerprint_decides)
    (simp_all add: rulesetKey_def web2_def web_mapping_def key_safe_mapping_def key_safe_def)

end
