(* ===== verification/Retention.thy ===== *)
theory Retention
  imports Apply_Mappings
begin

text \<open>
  What applies do to the reconciler over time: the frame of an apply over arbitrary
  dependencies, outages of NetBox, the grace cycle of a VM that NetBox no longer has
  mappings for, and deletions announced by a webhook.
\<close>

section \<open>What an apply does to the reconciler\<close>

text \<open>These hold over any dependencies, whatever they do.\<close>

lemma advertise_new_frame: "bgp_frame R (fst (snd (advertise_new d ips (R, w)))) \<and>
    kernelSynced (fst (snd (advertise_new d ips (R, w)))) = kernelSynced R"
proof (induction ips arbitrary: R w)
  case (Cons ip ips)
  obtain err w1 where call: "FrrAdvertise d ip w = (err, w1)" by fastforce
  let ?R = "R\<lparr>advertisedIPs := advertisedIPs R @ [ip]\<rparr>"
  have "bgp_frame R (fst (snd (advertise_new d ips (?R, w1))))"
    using Cons.IH [of ?R w1] bgp_frame_trans [of R ?R] by simp
  then show ?case using Cons.IH [of ?R w1] Cons.IH [of R w1] Cons.IH [of R w] call
    by (cases err) (auto split: prod.splits)
qed simp

lemma withdraw_old_frame: "bgp_frame R (fst (snd (withdraw_old d desired ips (R, w)))) \<and>
    kernelSynced (fst (snd (withdraw_old d desired ips (R, w)))) = kernelSynced R"
proof (induction ips arbitrary: R w)
  case (Cons ip ips)
  obtain err w1 where call: "FrrWithdraw d ip w = (err, w1)" by fastforce
  let ?R = "R\<lparr>advertisedIPs := filter (\<lambda>a. a \<noteq> ip) (advertisedIPs R)\<rparr>"
  have "bgp_frame R (fst (snd (withdraw_old d desired ips (?R, w1))))"
    using Cons.IH [of ?R w1] bgp_frame_trans [of R ?R] by simp
  then show ?case using Cons.IH [of ?R w1] Cons.IH [of R w1] Cons.IH [of R w] call
    by (cases err) (auto split: prod.splits)
qed simp

lemma reconcileBGP_frame:
  assumes "reconcileBGP d desired managed (R, w) = (err, R', w')"
  shows "bgp_frame R R' \<and> (kernelSynced R \<longrightarrow> kernelSynced R')"
proof -
  define s1 where "s1 = (if \<not> kernelSynced R \<and> 0 < length managed
      then adoptKernelStateLocked d managed (R, w) else (R, w))"
  obtain R1 w1 where s1: "s1 = (R1, w1)" by fastforce
  have f1: "bgp_frame R R1" "kernelSynced R \<longrightarrow> kernelSynced R1" using s1
    by (auto simp: s1_def adoptKernelStateLocked_def split: if_splits prod.splits sum.splits)
  obtain errs1 R2 w2 where a: "advertise_new d desired (R1, w1) = (errs1, R2, w2)"
    by (metis prod.exhaust)
  have f2: "bgp_frame R1 R2" "kernelSynced R2 = kernelSynced R1"
    using advertise_new_frame [of R1 d desired w1] by (simp_all add: a)
  obtain errs2 R3 w3 where b: "withdraw_old d desired (advertisedIPs R2) (R2, w2) = (errs2, R3, w3)"
    by (metis prod.exhaust)
  have f3: "bgp_frame R2 R3" "kernelSynced R3 = kernelSynced R2"
    using withdraw_old_frame [of R2 d desired "advertisedIPs R2" w2] by (simp_all add: b)
  have "R' = R3"
    using assms unfolding reconcileBGP_def fst_conv s1_def [symmetric] s1 Let_def a prod.case b by simp
  then show ?thesis
    using bgp_frame_trans [OF bgp_frame_trans [OF f1(1) f2(1)] f3(1)] f1(2) f2(2) f3(2) by simp
qed

lemma program_host_frame:
  assumes "program_host d unchanged first ms desired managed applied (R, w) = (err, R', w')"
    and "unchanged \<longrightarrow> rulesetKeyValid R \<and> rulesetKey ms = lastRulesetKey R"
  shows "apply_frame R R' \<and> backup R' = backup R \<and> (kernelSynced R \<longrightarrow> kernelSynced R') \<and>
    lastAppliedByVMID R' = (if err = None then applied else lastAppliedByVMID R) \<and>
    (err = None \<longrightarrow> rulesetKeyValid R' \<and> lastRulesetKey R' = rulesetKey ms) \<and>
    (err \<noteq> None \<longrightarrow> \<not> rulesetKeyValid R')"
proof -
  have nft: "(unchanged \<longrightarrow> rulesetKeyValid Q \<and> rulesetKey ms = lastRulesetKey Q) \<Longrightarrow>
      (e = None \<longrightarrow> rulesetKeyValid Q' \<and> lastRulesetKey Q' = rulesetKey ms) \<and>
      (e \<noteq> None \<longrightarrow> \<not> rulesetKeyValid Q')"
    if "apply_nft d unchanged ms (Q, u) = (e, Q', u')" for Q u e Q' u'
    using that by (auto simp: apply_nft_def split: if_splits prod.splits option.splits)
  show ?thesis
  proof (cases first)
    case True
    obtain e1 R1 w1 where b: "reconcileBGP d desired managed (R, w) = (e1, R1, w1)"
      by (metis prod.exhaust)
    obtain e2 R2 w2 where n: "apply_nft d unchanged ms (R1, w1) = (e2, R2, w2)"
      by (metis prod.exhaust)
    have res: "err = e2" "R' = (if e2 = None then R2\<lparr>lastAppliedByVMID := applied\<rparr> else R2)"
      using assms(1) True b n by (auto simp: program_host_def split: if_splits)
    note B = reconcileBGP_frame [OF b] and N = apply_nft_frame [OF n]
    have "apply_frame R R2" using B N bgp_frame_apply apply_frame_trans by blast
    then have "apply_frame R R'" by (simp add: res(2) apply_frame_applied)
    then show ?thesis using B N nft [OF n] bgp_frameD [of R R1] res assms(2) by auto
  next
    case False
    obtain e2 R2 w2 where n: "apply_nft d unchanged ms (R, w) = (e2, R2, w2)"
      by (metis prod.exhaust)
    obtain e1 R1 w1 where b: "reconcileBGP d desired managed (R2, w2) = (e1, R1, w1)"
      by (metis prod.exhaust)
    have res: "err = e2" "R' = (if e2 = None then R1\<lparr>lastAppliedByVMID := applied\<rparr> else R2)"
      using assms(1) False b n by (auto simp: program_host_def split: if_splits)
    note B = reconcileBGP_frame [OF b] and N = apply_nft_frame [OF n]
    have "apply_frame R R1" using B N bgp_frame_apply apply_frame_trans by blast
    then have "apply_frame R R'" using N by (simp add: res(2) apply_frame_applied)
    then show ?thesis using B N nft [OF n] bgp_frameD [of R2 R1] res assms(2) by auto
  qed
qed

text \<open>
  The reconciler after an apply: the backups were updated whether or not the host could be
  programmed; the last applied mappings and the fingerprint only on success.
\<close>

lemma apply_reconciler:
  assumes "applyMappingsTimed d allMappings source (R, w) = (err, R', w')" and "store_wf (store R)"
    and "ReadBackup d w = rd"
  shows "apply_frame R R' \<and> (kernelSynced R \<longrightarrow> kernelSynced R') \<and>
    (\<forall>v. backup_view rd (backup R') v = backup_view rd (res_backup (resolve_all rd allMappings source R)) v) \<and>
    (backup_ok rd (backup R) \<longrightarrow> backup_ok rd (backup R')) \<and>
    (err \<noteq> None \<longrightarrow> lastAppliedByVMID R' = lastAppliedByVMID R \<and> \<not> rulesetKeyValid R') \<and>
    (err = None \<longrightarrow>
       (\<forall>v. mget (lastAppliedByVMID R') v =
          (if v \<in> set (active_ids R) \<and> wanted_vm rd allMappings source R v \<noteq> []
           then Some (wanted_vm rd allMappings source R v) else None)) \<and>
       rulesetKeyValid R' \<and> lastRulesetKey R' = rulesetKey (sortMappings (wanted rd allMappings source R)))"
proof -
  let ?r = "resolve_all rd allMappings source R"
  note r = resolve_all_spec [OF assms(2), where rd = rd and allMappings = allMappings and source = source]
  obtain unchanged first R2 where
    prog: "program_host d unchanged first (sortMappings (res_nft ?r)) (res_bgp ?r)
       (managed_of rd allMappings source R) (res_applied ?r) (R2, w) = (err, R', w')"
    and unch: "unchanged \<longleftrightarrow> rulesetKeyValid R \<and> rulesetKey (sortMappings (res_nft ?r)) = lastRulesetKey R"
    and fr: "apply_frame R R2" "kernelSynced R2 = kernelSynced R"
      "rulesetKeyValid R2 = rulesetKeyValid R" "lastRulesetKey R2 = lastRulesetKey R"
      "lastAppliedByVMID R2 = lastAppliedByVMID R"
    and bv: "\<And>v. backup_view rd (backup R2) v = backup_view rd (res_backup ?r) v"
    and bo: "backup_ok rd (res_backup ?r) \<Longrightarrow> backup_ok rd (backup R2)"
    by (rule apply_decompose [OF assms(1)], unfold assms(3)) blast
  have "unchanged \<longrightarrow> rulesetKeyValid R2 \<and> rulesetKey (sortMappings (res_nft ?r)) = lastRulesetKey R2"
    using unch fr by simp
  note P = program_host_frame [OF prog this]
  have "apply_frame R R'" using P fr(1) apply_frame_trans by blast
  then show ?thesis using P r bv bo fr by auto
qed

lemma apply_frameD:
  assumes "apply_frame R R'"
  shows "store R' = store R" "mappingCacheReady R' = mappingCacheReady R" "node R' = node R"
    "mappingByVMID R' = mappingByVMID R" "mappingPendingByName R' = mappingPendingByName R"
    "vmIDByName R' = vmIDByName R" "reconcileCh R' = reconcileCh R" "webhookDeltaCh R' = webhookDeltaCh R"
    "verifyPending R' = verifyPending R" "lastFullFetch R' = lastFullFetch R" "lastActiveKey R' = lastActiveKey R"
    "intervalNs R' = intervalNs R" "active_ids R' = active_ids R"
proof -
  from assms obtain b k rv la st ad ks where
    "R' = R\<lparr>backup := b, lastRulesetKey := k, rulesetKeyValid := rv, lastAppliedByVMID := la,
      unresolvedStreak := st, advertisedIPs := ad, kernelSynced := ks\<rparr>"
    unfolding apply_frame_def by blast
  then show "store R' = store R" "mappingCacheReady R' = mappingCacheReady R" "node R' = node R"
    "mappingByVMID R' = mappingByVMID R" "mappingPendingByName R' = mappingPendingByName R"
    "vmIDByName R' = vmIDByName R" "reconcileCh R' = reconcileCh R" "webhookDeltaCh R' = webhookDeltaCh R"
    "verifyPending R' = verifyPending R" "lastFullFetch R' = lastFullFetch R" "lastActiveKey R' = lastActiveKey R"
    "intervalNs R' = intervalNs R" "active_ids R' = active_ids R"
    by (simp_all add: active_ids_def)
qed

section \<open>Outages\<close>

text \<open>A backup fallback resolves to what an apply with any source has just applied.\<close>

lemma vm_mappings_again:
  "vm_mappings sourceBackupFallback False [] (vm_backup source auth current b)
     (vm_mappings source auth current b prev) = vm_mappings source auth current b prev"
  by (auto simp: vm_mappings_def vm_backup_def neq_Nil_conv split: sum.splits option.splits list.splits)

lemma vm_backup_fallback: "vm_backup sourceBackupFallback False [] b = b"
  by (auto simp: vm_backup_def split: sum.splits option.splits list.splits)

lemma wanted_again:
  assumes "applyMappingsTimed d allMappings source (R, w) = (None, R', w')" and "store_wf (store R)"
    and "ReadBackup d w = rd" and "backup_ok rd (backup R)" and "\<forall>m \<in> set allMappings. storable m"
  shows "wanted rd [] sourceBackupFallback R' = wanted rd allMappings source R"
proof -
  note A = apply_reconciler [OF assms(1-3)]
  have ids: "active_ids R' = active_ids R" using apply_frameD(13) [OF conjunct1 [OF A]] .
  have "wanted_vm rd [] sourceBackupFallback R' v = wanted_vm rd allMappings source R v"
    if v: "v \<in> set (active_ids R)" for v
  proof -
    have "backup_view rd (backup R') v =
        vm_backup source (is_authoritative source allMappings (GetActive (store R)))
          (filter (\<lambda>m. VMProxmoxVMID m = v) allMappings) (backup_view rd (backup R) v)"
      using A resolve_all_spec(7) [OF assms(2,4) v] assms(5) by simp
    moreover have "mgetd [] (lastAppliedByVMID R') v = wanted_vm rd allMappings source R v"
      using A v by (simp add: mgetd_def)
    moreover have "is_authoritative sourceBackupFallback [] vs = False" for vs
      by (simp add: is_authoritative_def)
    ultimately show ?thesis unfolding wanted_vm_def by (simp only: vm_mappings_again filter.simps)
  qed
  then show ?thesis by (simp add: wanted_def ids cong: map_cong)
qed

lemma advertise_new_noop: "set ips \<subseteq> set (advertisedIPs R) \<Longrightarrow> advertise_new d ips (R, w) = ([], R, w)"
  by (induction ips) auto

lemma withdraw_old_noop: "set ips \<subseteq> set desired \<Longrightarrow> withdraw_old d desired ips (R, w) = ([], R, w)"
  by (induction ips) auto

lemma reconcileBGP_noop:
  "set desired = set (advertisedIPs R) \<Longrightarrow> reconcileBGP d desired [] (R, w) = (None, R, w)"
  by (simp add: reconcileBGP_def advertise_new_noop withdraw_old_noop)

text \<open>The host is programmed with what a fallback would program.\<close>

definition steady :: "(int \<Rightarrow> read_result) \<Rightarrow> Reconciler \<Rightarrow> bool" where
  "steady rd R \<longleftrightarrow>
     store_wf (store R) \<and> kernelSynced R \<and> backup_ok rd (backup R) \<and> rulesetKeyValid R \<and>
     lastRulesetKey R = rulesetKey (sortMappings (wanted rd [] sourceBackupFallback R)) \<and>
     set (advertisedIPs R) = ExternalIP ` set (wanted rd [] sourceBackupFallback R)"

lemma steady_fallback:
  assumes "steady rd R" and "ReadBackup d w = rd"
  shows "\<exists>R'. applyMappingsTimed d [] sourceBackupFallback (R, w) = (None, R', w) \<and> steady rd R' \<and>
    apply_frame R R' \<and> advertisedIPs R' = advertisedIPs R \<and>
    wanted rd [] sourceBackupFallback R' = wanted rd [] sourceBackupFallback R"
proof -
  let ?r = "resolve_all rd [] sourceBackupFallback R"
  have wf: "store_wf (store R)" and ks: "kernelSynced R" using assms(1) by (simp_all add: steady_def)
  note r = resolve_all_spec [OF wf, where rd = rd and allMappings = "[]" and source = sourceBackupFallback]
  obtain err R' w' where call: "applyMappingsTimed d [] sourceBackupFallback (R, w) = (err, R', w')"
    by (metis prod.exhaust)
  have no_managed: "managed_of rd [] sourceBackupFallback R = []" using ks by (simp add: managed_of_def)
  obtain unchanged first R2 where
    prog: "program_host d unchanged first (sortMappings (res_nft ?r)) (res_bgp ?r) []
       (res_applied ?r) (R2, w) = (err, R', w')"
    and unch: "unchanged \<longleftrightarrow> rulesetKeyValid R \<and> rulesetKey (sortMappings (res_nft ?r)) = lastRulesetKey R"
    and "first \<longleftrightarrow> unchanged \<or> \<not> hasNewAdvertisements (res_bgp ?r) R"
    and fr: "advertisedIPs R2 = advertisedIPs R"
    by (rule apply_decompose [OF call], unfold assms(2) no_managed) blast
  moreover have "unchanged" using assms(1) by (simp add: unch steady_def r(1))
  moreover have "reconcileBGP d (res_bgp ?r) [] (R2, w) = (None, R2, w)"
    using assms(1) fr by (intro reconcileBGP_noop) (simp add: r(2) steady_def)
  ultimately have res: "err = None" "R' = R2\<lparr>lastAppliedByVMID := res_applied ?r\<rparr>" "w' = w"
    by (auto simp: program_host_def apply_nft_def)
  have call': "applyMappingsTimed d [] sourceBackupFallback (R, w) = (None, R', w)"
    using call res by simp
  note A = apply_reconciler [OF call' wf assms(2)]
  have bok: "backup_ok rd (backup R)" using assms(1) by (simp add: steady_def)
  have same: "wanted rd [] sourceBackupFallback R' = wanted rd [] sourceBackupFallback R"
    by (rule wanted_again [OF call' wf assms(2) bok]) simp
  have adv: "advertisedIPs R' = advertisedIPs R" using res(2) fr by simp
  have "steady rd R'"
    using A same adv assms(1) apply_frameD(1) [of R R'] by (simp add: steady_def)
  with call' A same adv show ?thesis by blast
qed

text \<open>A run of reconciles at the given times.\<close>

primrec reconciles :: "'w deps \<Rightarrow> gtime list \<Rightarrow> Reconciler \<times> 'w \<Rightarrow> Reconciler \<times> 'w" where
  "reconciles d [] s = s"
| "reconciles d (t # ts) s = reconciles d ts (snd (reconcile d t s))"

lemma steady_outage:
  assumes "\<And>w. isl (fst (FetchNATMappings d w))" and "\<And>w. ReadBackup d w = rd" and "steady rd R"
  shows "\<exists>R'. reconciles d ts (R, w) = (R', ((\<lambda>u. snd (FetchNATMappings d u)) ^^ length ts) w) \<and>
    steady rd R' \<and> advertisedIPs R' = advertisedIPs R"
  using assms(3)
proof (induction ts arbitrary: R w)
  case (Cons t ts)
  obtain e w1 where f: "FetchNATMappings d w = (Inl e, w1)"
    using assms(1) [of w] by (metis isl_def prod.collapse)
  obtain R1 where R1: "applyMappingsTimed d [] sourceBackupFallback (R, w1) = (None, R1, w1)"
    "steady rd R1" "advertisedIPs R1 = advertisedIPs R"
    using steady_fallback [OF Cons.prems assms(2)] by blast
  have "reconcile d t (R, w) = (None, R1, w1)"
    by (simp add: reconcile_def f applyMappings_def R1(1))
  with Cons.IH [OF R1(2), of w1] R1(3) f show ?case
    by (simp add: funpow_Suc_right del: funpow.simps)
qed simp

section \<open>Webhook deltas\<close>

text \<open>A webhook apply takes the cache for the truth about every active VM.\<close>

lemma wanted_webhook:
  assumes "cache_inv R" "0 < v"
  shows "wanted_vm rd (cachedMappings R) sourceWebhookDelta R v = mgetd [] (mappingByVMID R) v"
  by (simp add: wanted_vm_def vm_mappings_def cached_of_vm [OF assms])

lemma sync_frame: "syncBackupFromDelta rd d R = R\<lparr>backup := backup (syncBackupFromDelta rd d R)\<rparr>"
  by (auto simp: syncBackupFromDelta_def Let_def split: prod.splits sum.splits option.splits)

lemma sync_backup_ok: "backup_ok rd (backup R) \<Longrightarrow> backup_ok rd (backup (syncBackupFromDelta rd d R))"
proof -
  assume ok: "backup_ok rd (backup R)"
  then have l: "backup_ok rd b" if "load_backup rd v (backup R) = (res, b)" for v res b
    using bk.ok_load [OF ok, of v] that by simp
  show ?thesis
    using ok l bk.ok_delete [OF ok] bk.ok_delete [OF l] bk.ok_save [OF l]
    by (auto simp: syncBackupFromDelta_def Let_def split: prod.splits sum.splits option.splits)
qed

lemma state_frame: "applyDeltaToState now d R = R\<lparr>store := store (applyDeltaToState now d R)\<rparr>"
  by (simp add: applyDeltaToState_def)

lemma state_wf: "store_wf (store R) \<Longrightarrow> store_wf (store (applyDeltaToState now d R))"
  by (simp add: applyDeltaToState_def SetAbsent_def SetActive_def store_wf_store_set)

text \<open>The reconciler as the apply of a delta finds it.\<close>

definition delta_applied ::
  "(int \<Rightarrow> read_result) \<Rightarrow> gtime \<Rightarrow> WebhookDelta \<Rightarrow> Reconciler \<Rightarrow> Reconciler" where
  "delta_applied rd now d R =
     syncBackupFromDelta rd d (applyDeltaToCache d (applyDeltaToState now d
       (if mappingCacheReady R then R
        else R\<lparr>mappingByVMID := [], mappingPendingByName := [], vmIDByName := [],
               mappingCacheReady := True\<rparr>)))"

lemma reconcileFromWebhookDelta_apply:
  "reconcileFromWebhookDelta dd now d (R, w) =
     (let R2 = delta_applied (ReadBackup dd w) now d R
      in applyMappingsTimed dd (cachedMappings R2) sourceWebhookDelta (R2, w))"
  by (simp add: reconcileFromWebhookDelta_def delta_applied_def applyMappings_def Let_def)

lemma delta_applied_spec:
  assumes "store_wf (store R)" "cache_inv R"
  shows "store_wf (store (delta_applied rd now d R))" "cache_inv (delta_applied rd now d R)"
    "backup_ok rd (backup R) \<Longrightarrow> backup_ok rd (backup (delta_applied rd now d R))"
    "mappingCacheReady (delta_applied rd now d R)"
proof -
  let ?R = "if mappingCacheReady R then R
        else R\<lparr>mappingByVMID := [], mappingPendingByName := [], vmIDByName := [],
               mappingCacheReady := True\<rparr>"
  let ?S = "applyDeltaToState now d ?R"
  let ?C = "applyDeltaToCache d ?S"
  obtain st where S: "?S = ?R\<lparr>store := st\<rparr>" using state_frame by blast
  obtain b where D: "delta_applied rd now d R = ?C\<lparr>backup := b\<rparr>"
    unfolding delta_applied_def using sync_frame by blast
  note C = cache_frameD [OF delta_frame [of ?S d]]
  have "store_wf (store ?S)" using assms(1) by (intro state_wf) simp
  then show "store_wf (store (delta_applied rd now d R))" using D C by simp
  have "cache_inv ?S" using assms(2) unfolding S by (auto simp: cache_inv_def)
  then have "cache_inv ?C" by (rule cache_inv_delta)
  then show "cache_inv (delta_applied rd now d R)" unfolding D by (simp add: cache_inv_def)
  show "mappingCacheReady (delta_applied rd now d R)" unfolding D using C S by simp
  show "backup_ok rd (backup (delta_applied rd now d R))" if "backup_ok rd (backup R)"
    unfolding delta_applied_def using that C S by (intro sync_backup_ok) simp
qed

lemma delta_applied_own:
  assumes "HasVMID d" "0 < DeltaVMID d"
    and "normalized (Event d) = ''deleted''"
    and "normalized (Model d) \<in> {''virtualmachine'', ''ipaddress''}"
  shows "mgetd [] (mappingByVMID (delta_applied rd now d R)) (DeltaVMID d) = []"
proof -
  let ?C = "\<lambda>R. applyDeltaToCache d (applyDeltaToState now d R)"
  have "mappingByVMID (syncBackupFromDelta rd d Q) = mappingByVMID Q" for Q
    by (subst sync_frame) simp
  then show ?thesis using assms unfolding delta_applied_def by (auto simp: delta_own_vm Let_def)
qed

lemma delta_applied_other:
  assumes "mappingCacheReady R" "\<not> delta_about d R u"
  shows "mget (mappingByVMID (delta_applied rd now d R)) u = mget (mappingByVMID R) u"
proof -
  obtain st where S: "applyDeltaToState now d R = R\<lparr>store := st\<rparr>" using state_frame by blast
  have "mappingByVMID (syncBackupFromDelta rd d Q) = mappingByVMID Q" for Q
    by (subst sync_frame) simp
  moreover have "\<not> delta_about d (R\<lparr>store := st\<rparr>) u" using assms(2) by (auto simp: delta_about_def)
  note delta_other_vm [OF this]
  ultimately show ?thesis using assms(1) by (simp add: delta_applied_def S)
qed

lemma webhook_spec:
  assumes "reconcileFromWebhookDelta dd now d (R, w) = (None, R', w')"
    and "store_wf (store R)" "cache_inv R" "ReadBackup dd w = rd"
  shows "cache_inv R'" "store_wf (store R')"
    "mappingByVMID R' = mappingByVMID (delta_applied rd now d R)"
    "v \<in> set (active_ids R') \<Longrightarrow> 0 < v \<Longrightarrow> mgetd [] (lastAppliedByVMID R') v = mgetd [] (mappingByVMID R') v"
    "v \<notin> set (active_ids R') \<Longrightarrow> mget (lastAppliedByVMID R') v = None"
    "lastRulesetKey R' = rulesetKey (sortMappings (concat (map
       (wanted_vm rd (cachedMappings R') sourceWebhookDelta R') (active_ids R'))))"
    "backup_ok rd (backup R) \<Longrightarrow> v \<in> set (active_ids R') \<Longrightarrow> 0 < v \<Longrightarrow>
       \<forall>m \<in> set (mgetd [] (mappingByVMID R') v). storable m \<Longrightarrow>
       backup_view rd (backup R') v =
         (if mgetd [] (mappingByVMID R') v = [] then Inr None else Inr (Some (mgetd [] (mappingByVMID R') v)))"
proof -
  define R2 where "R2 = delta_applied rd now d R"
  note R2 = delta_applied_spec [OF assms(2,3), where rd = rd and now = now and d = d, folded R2_def]
  have call: "applyMappingsTimed dd (cachedMappings R2) sourceWebhookDelta (R2, w) = (None, R', w')"
    using assms(1,4) by (simp add: reconcileFromWebhookDelta_apply R2_def Let_def)
  note A = apply_reconciler [OF call R2(1) assms(4)]
  have fr: "apply_frame R2 R'" using A by blast
  note F = apply_frameD [OF fr]
  show "cache_inv R'" "store_wf (store R')" "mappingByVMID R' = mappingByVMID (delta_applied rd now d R)"
    using R2 F by (simp_all add: cache_inv_def R2_def)
  show "mgetd [] (lastAppliedByVMID R') v = mgetd [] (mappingByVMID R') v"
    if "v \<in> set (active_ids R')" "0 < v"
    using A that F by (simp add: mgetd_def [of _ "lastAppliedByVMID R'"] wanted_webhook [OF R2(2)])
  show "mget (lastAppliedByVMID R') v = None" if "v \<notin> set (active_ids R')"
    using A that F by simp
  have "wanted_vm rd (cachedMappings R') sourceWebhookDelta R' = wanted_vm rd (cachedMappings R2) sourceWebhookDelta R2"
    by (rule ext) (simp add: wanted_vm_def vm_mappings_def cachedMappings_def F)
  then show "lastRulesetKey R' = rulesetKey (sortMappings (concat (map
       (wanted_vm rd (cachedMappings R') sourceWebhookDelta R') (active_ids R'))))"
    using A F by (simp add: wanted_def)
  assume b: "backup_ok rd (backup R)" and v: "v \<in> set (active_ids R')" "0 < v"
    and st: "\<forall>m \<in> set (mgetd [] (mappingByVMID R') v). storable m"
  have "\<forall>m \<in> set (cachedMappings R2). VMProxmoxVMID m = v \<longrightarrow> storable m"
    using st unfolding F(4) cached_of_vm [OF R2(2) v(2), symmetric] by simp
  from resolve_all_spec(7) [OF R2(1) R2(3) [OF b] _ this, of sourceWebhookDelta] v
  have "backup_view rd (res_backup (resolve_all rd (cachedMappings R2) sourceWebhookDelta R2)) v =
      vm_backup sourceWebhookDelta (is_authoritative sourceWebhookDelta (cachedMappings R2) (GetActive (store R2)))
        (mgetd [] (mappingByVMID R2) v) (backup_view rd (backup R2) v)"
    using F(13) by (simp add: cached_of_vm [OF R2(2)])
  then show "backup_view rd (backup R') v =
         (if mgetd [] (mappingByVMID R') v = [] then Inr None else Inr (Some (mgetd [] (mappingByVMID R') v)))"
    using A F by (simp add: vm_backup_def)
qed

section \<open>Properties\<close>



lemma mset_filter_disj:
  "a \<notin> V \<Longrightarrow> filter_mset (\<lambda>m. f m = a) M + filter_mset (\<lambda>m. f m \<in> V) M =
   filter_mset (\<lambda>m. f m = a \<or> f m \<in> V) M"
  by (induction M) auto

lemma full_fetch_wanted:
  assumes "store_wf (store R)" and "set (active_ids R) \<subseteq> VMProxmoxVMID ` set fetched"
  shows "mset (wanted rd fetched sourceFullFetch R) =
         filter_mset (\<lambda>m. VMProxmoxVMID m \<in> set (active_ids R)) (mset fetched)"
proof -
  have "wanted_vm rd fetched sourceFullFetch R v = filter (\<lambda>m. VMProxmoxVMID m = v) fetched"
    if "v \<in> set (active_ids R)" for v
    using that assms(2) by (auto simp: wanted_vm_def vm_mappings_def filter_empty_conv)
  then have "wanted rd fetched sourceFullFetch R =
      concat (map (\<lambda>v. filter (\<lambda>m. VMProxmoxVMID m = v) fetched) (active_ids R))"
    by (simp add: wanted_def cong: map_cong)
  moreover have "distinct vs \<Longrightarrow> mset (concat (map (\<lambda>v. filter (\<lambda>m. VMProxmoxVMID m = v) fetched) vs)) =
      filter_mset (\<lambda>m. VMProxmoxVMID m \<in> set vs) (mset fetched)" for vs
    by (induction vs) (simp_all add: mset_filter_disj)
  moreover have "distinct (active_ids R)"
    using distinct_GetActive [OF assms(1)] by (simp add: active_ids_def)
  ultimately show ?thesis by simp
qed

text \<open>
  Scope of a full fetch. When NetBox has mappings for every VM that is active on this
  node, a full fetch resolves to exactly the fetched mappings of these VMs, each as often as
  it was fetched: nothing of other nodes' VMs, nothing stale.
\<close>

theorem full_fetch_scope:
  assumes "store_wf (store R)" and "set (active_ids R) \<subseteq> VMProxmoxVMID ` set fetched"
  shows "mset (res_nft (resolve_all rd fetched sourceFullFetch R)) =
         filter_mset (\<lambda>m. VMProxmoxVMID m \<in> set (active_ids R)) (mset fetched)"
  using full_fetch_wanted [OF assms] by (simp add: resolve_all_spec(1) [OF assms(1)])

definition rec102 :: Reconciler where
  "rec102 = rec101\<lparr>backup := save_backup 101 [web2] newBackupStore\<rparr>"

theorem full_fetch_scope_witness:
  "mset (res_nft (resolve_all sim_rd [web2, web2\<lparr>VMProxmoxVMID := 7\<rparr>] sourceFullFetch rec101)) = {#web2#}"
proof -
  have ids: "set (active_ids rec101) = {101}" using active_store101 by (simp add: active_ids_def)
  have wf: "store_wf (store rec101)" using store_wf_store101 by simp
  from full_fetch_scope [OF wf, of "[web2, web2\<lparr>VMProxmoxVMID := 7\<rparr>]"] show ?thesis
    by (simp add: ids) (simp add: web2_def web_mapping_def)
qed


text \<open>Dependencies on which every call succeeds.\<close>

definition quiet :: "(int \<Rightarrow> read_result) \<Rightarrow> unit deps" where
  "quiet rd =
     \<lparr>FetchNATMappings = Pair (Inr []), NftApply = (\<lambda>_. Pair None), NftFlush = Pair None,
      FrrAdvertise = (\<lambda>_. Pair None), FrrWithdraw = (\<lambda>_. Pair None), FrrActiveIPs = Pair (Inr []),
      ReadBackup = (\<lambda>_. rd)\<rparr>"

lemma ReadBackup_quiet [simp]: "ReadBackup (quiet rd) w = rd"
  by (simp add: quiet_def)

lemma quiet_program: "fst (program_host (quiet rd) unchanged first ms desired managed applied s) = None"
  by (auto simp: program_host_def apply_nft_def quiet_def split: prod.splits if_splits)

lemma quiet_apply: "\<exists>R'. applyMappings (quiet rd) allMappings source (R, ()) = (None, R', ())"
proof -
  obtain err R' w' where call: "applyMappingsTimed (quiet rd) allMappings source (R, ()) = (err, R', w')"
    by (metis prod.exhaust)
  have "err = None"
    by (rule apply_decompose [OF call]) (metis quiet_program fst_conv)
  with call show ?thesis by (simp add: applyMappings_def)
qed


text \<open>
  C14: A webhook makes the cache the truth. After a successful webhook apply every active VM
  has exactly the mappings the edited cache holds for it applied, and these are its backup:
  a VM the cache has nothing for has nothing applied and no backup any more.
\<close>

theorem webhook_applies_the_cache:
  assumes "store_wf (store R)" and "cache_inv R" and "backup_ok (ReadBackup dd w) (backup R)"
    and "reconcileFromWebhookDelta dd now d (R, w) = (None, R', w')"
    and "v \<in> set (active_ids R')" and "0 < v"
    and "\<forall>m \<in> set (mgetd [] (mappingByVMID R') v). storable m"
  shows "mgetd [] (lastAppliedByVMID R') v = mgetd [] (mappingByVMID R') v \<and>
    fst (load_backup (ReadBackup dd w) v (backup R')) =
      (if mgetd [] (mappingByVMID R') v = [] then Inr None else Inr (Some (mgetd [] (mappingByVMID R') v)))"
  using webhook_spec(4) [OF assms(4,1,2) refl assms(5,6)]
    webhook_spec(7) [OF assms(4,1,2) refl assms(3,5,6,7)] by simp

lemma deleted_not_wanted:
  assumes "store_wf (store R)" and "cache_inv R" and "HasVMID d" and "0 < DeltaVMID d"
    and "normalized (Event d) = ''deleted''" and "normalized (Model d) \<in> {''virtualmachine'', ''ipaddress''}"
  shows "DeltaVMID d \<notin> VMProxmoxVMID ` set (wanted rd (cachedMappings (delta_applied rd now d R)) sourceWebhookDelta
    (delta_applied rd now d R))"
proof -
  let ?Q = "delta_applied rd now d R" and ?v = "DeltaVMID d"
  have "?v \<notin> VMProxmoxVMID ` set (wanted_vm rd (cachedMappings ?Q) sourceWebhookDelta ?Q u)" for u
    using cached_of_vm [OF delta_applied_spec(2) [OF assms(1,2)] assms(4), of rd now d] delta_applied_own [OF assms(3-6), of rd now R]
    by (cases "u = ?v") (auto simp: wanted_vm_def vm_mappings_def)
  then show ?thesis by (auto simp: wanted_def)
qed


definition web_delete :: WebhookDelta where
  "web_delete =
     \<lparr>Event = ''deleted'', Model = ''ipaddress'', DeltaVMName = ''web'', DeltaVMID = 101, HasVMID = True,
      DeltaInternalIP = ''10.0.0.5/24'', NATOutside = []\<rparr>"

definition rec103 :: Reconciler where
  "rec103 = rebuildMappingCache [web2] rec102"

lemma rec103_ok:
  "store_wf (store rec103)" "cache_inv rec103" "backup_ok sim_rd (backup rec103)" "mappingCacheReady rec103"
  "mappingByVMID rec103 = [(101, [web2])]"
proof -
  have "backup_ok sim_rd newBackupStore" by (simp add: backup_ok_def no_empty_def newBackupStore_def)
  then show "backup_ok sim_rd (backup rec103)"
    using bk.ok_save by (simp add: rec103_def rec102_def rebuildMappingCache_def)
  show "store_wf (store rec103)" using store_wf_store101
    by (simp add: rec103_def rec102_def rebuildMappingCache_def)
  show "cache_inv rec103" unfolding rec103_def by (rule cache_inv_rebuild)
  show "mappingCacheReady rec103" "mappingByVMID rec103 = [(101, [web2])]"
    by (simp_all add: rec103_def rebuildMappingCache_def group_mappings_def mappend_def mgetd_def)
      (simp add: web2_def web_mapping_def)
qed

lemma quiet_webhook: "\<exists>R'. reconcileFromWebhookDelta (quiet rd) now d (R, ()) = (None, R', ())"
  using quiet_apply by (simp add: reconcileFromWebhookDelta_apply Let_def applyMappings_def)


lemma webhook_active:
  assumes "reconcileFromWebhookDelta dd now d (R, w) = (None, R', w')" and "store_wf (store R)" "cache_inv R"
  shows "active_ids R' = active_ids (applyDeltaToState now d R)"
proof -
  have "store (syncBackupFromDelta rd d Q) = store Q" for rd Q by (subst sync_frame) simp
  moreover have "store (applyDeltaToState now d (if mappingCacheReady R then R
        else R\<lparr>mappingByVMID := [], mappingPendingByName := [], vmIDByName := [],
               mappingCacheReady := True\<rparr>)) = store (applyDeltaToState now d R)"
    by (simp add: applyDeltaToState_def)
  ultimately have "store (delta_applied rd now d R) = store (applyDeltaToState now d R)" for rd
    unfolding delta_applied_def by (simp only: cache_frameD(1) [OF delta_frame])
  moreover let ?R2 = "delta_applied (ReadBackup dd w) now d R"
  have call: "applyMappingsTimed dd (cachedMappings ?R2) sourceWebhookDelta (?R2, w) = (None, R', w')"
    using assms(1) by (simp only: reconcileFromWebhookDelta_apply Let_def)
  have "apply_frame ?R2 R'"
    using apply_reconciler [OF call delta_applied_spec(1) [OF assms(2,3)] refl] by blast
  note apply_frameD(1) [OF this]
  ultimately show ?thesis by (simp add: active_ids_def)
qed

definition other_delta :: WebhookDelta where
  "other_delta = web_delete\<lparr>DeltaVMID := 7, DeltaVMName := ''db''\<rparr>"

theorem webhook_applies_the_cache_witness:
  "\<exists>R'. reconcileFromWebhookDelta (quiet sim_rd) 9 other_delta (rec103, ()) = (None, R', ()) \<and>
     mgetd [] (lastAppliedByVMID R') 101 = [web2]"
proof -
  obtain R' where call: "reconcileFromWebhookDelta (quiet sim_rd) 9 other_delta (rec103, ()) = (None, R', ())"
    using quiet_webhook by blast
  have b: "backup_ok (ReadBackup (quiet sim_rd) ()) (backup rec103)" using rec103_ok(3) by simp
  note W = webhook_spec [OF call rec103_ok(1,2) refl]
  have "\<not> delta_about other_delta rec103 101" by (simp add: delta_about_def other_delta_def web_delete_def)
  then have m: "mgetd [] (mappingByVMID R') 101 = [web2]"
    using delta_applied_other [OF rec103_ok(4)] by (simp add: W(3) mgetd_def rec103_ok(5))
  have st: "\<forall>m \<in> set (mgetd [] (mappingByVMID R') 101). storable m"
    unfolding m by (simp add: web2_def web_mapping_def storable_def in_int64_def valid_utf8_ascii)
  have "active_ids R' = active_ids rec103"
    unfolding webhook_active [OF call rec103_ok(1,2)]
    by (simp add: applyDeltaToState_def other_delta_def web_delete_def normalized_def TrimSpace_def
        TrimRightp_def TrimLeft_def is_space_def ToLower_def to_lower_def)
  then have v: "101 \<in> set (active_ids R')"
    using active_store101 by (simp add: active_ids_def rec103_def rec102_def rebuildMappingCache_def)
  have "mgetd [] (lastAppliedByVMID R') 101 = mgetd [] (mappingByVMID R') 101"
    using webhook_applies_the_cache [OF rec103_ok(1,2) b call v _ st] by simp
  with call m show ?thesis by auto
qed

text \<open>
  The guard of \<open>applyMappingsTimed\<close> against a globally empty answer of NetBox does not
  survive the next webhook: the empty answer became the cache, and the webhook apply takes the
  cache for the truth about every VM. Here an event about VM 7 withdraws VM 101, which was
  kept through the empty fetch, and removes its backup.
\<close>

lemma empty_fetch_then_webhook:
  "\<exists>R1 R2. reconcile (quiet sim_rd) 5 (rec102, ()) = (None, R1, ()) \<and>
     mget (lastAppliedByVMID R1) 101 = Some [web2] \<and>
     reconcileFromWebhookDelta (quiet sim_rd) 9 other_delta (R1, ()) = (None, R2, ()) \<and>
     mgetd [] (lastAppliedByVMID R2) 101 = [] \<and> fst (load_backup sim_rd 101 (backup R2)) = Inr None"
proof -
  let ?Q = "rebuildMappingCache [] (rec102\<lparr>lastFullFetch := 5, lastActiveKey := activeStateKey rec102\<rparr>)"
  have new: "backup_ok sim_rd newBackupStore" by (simp add: backup_ok_def no_empty_def newBackupStore_def)
  have st: "\<forall>m \<in> set [web2]. storable m"
    by (simp add: web2_def web_mapping_def storable_def in_int64_def valid_utf8_ascii)
  have Q: "store ?Q = store101" "backup ?Q = save_backup 101 [web2] newBackupStore" "mappingCacheReady ?Q"
    by (simp_all add: rebuildMappingCache_def rec102_def)
  have wf: "store_wf (store ?Q)" using store_wf_store101 Q by simp
  have ids: "active_ids ?Q = [101]" using active_store101 Q by (simp add: active_ids_def)
  have bok: "backup_ok sim_rd (backup ?Q)" unfolding Q(2) by (rule bk.ok_save [OF new])
  have auth: "\<not> is_authoritative sourceFullFetch [] (GetActive (store ?Q))"
    using active_store101 Q by (auto simp: is_authoritative_def)
  have view: "backup_view sim_rd (backup ?Q) 101 = Inr (Some [web2])"
    unfolding Q(2) using bk.load_save [OF new _ st] by simp
  have w: "wanted_vm sim_rd [] sourceFullFetch ?Q 101 = [web2]"
    by (simp add: wanted_vm_def vm_mappings_def auth view)
  obtain R1 where c1: "applyMappings (quiet sim_rd) [] sourceFullFetch (?Q, ()) = (None, R1, ())"
    using quiet_apply by blast
  note A = apply_reconciler [OF c1 [unfolded applyMappings_def] wf ReadBackup_quiet]
  have fr: "apply_frame ?Q R1" using A by blast
  note F = apply_frameD [OF fr]
  have a1: "mget (lastAppliedByVMID R1) 101 = Some [web2]" using A ids w by simp
  have "reconcile (quiet sim_rd) 5 (rec102, ()) = (None, R1, ())"
    using c1 by (simp add: reconcile_def quiet_def)
  moreover obtain R2 where c2: "reconcileFromWebhookDelta (quiet sim_rd) 9 other_delta (R1, ()) = (None, R2, ())"
    using quiet_webhook by blast
  have m1: "mappingByVMID R1 = []" "mappingPendingByName R1 = []" "vmIDByName R1 = []"
    by (simp_all add: F(4-6)) (simp_all add: rebuildMappingCache_def group_mappings_def)
  have R1: "store_wf (store R1)" "cache_inv R1" "backup_ok (ReadBackup (quiet sim_rd) ()) (backup R1)"
    "mappingCacheReady R1"
    using A wf bok F Q m1 by (simp_all add: cache_inv_def)
  note W = webhook_spec [OF c2 R1(1,2) refl]
  have "\<not> delta_about other_delta R1 101" by (simp add: delta_about_def other_delta_def web_delete_def)
  then have m: "mgetd [] (mappingByVMID R2) 101 = []"
    using delta_applied_other [OF R1(4)] by (simp add: W(3) mgetd_def m1)
  have "active_ids R2 = active_ids R1"
    unfolding webhook_active [OF c2 R1(1,2)]
    by (simp add: applyDeltaToState_def other_delta_def web_delete_def normalized_def TrimSpace_def
        TrimRightp_def TrimLeft_def is_space_def ToLower_def to_lower_def)
  then have v: "101 \<in> set (active_ids R2)" using ids F by simp
  have "mgetd [] (lastAppliedByVMID R2) 101 = []" "backup_view sim_rd (backup R2) 101 = Inr None"
    using W(4) [OF v] W(7) [OF R1(3) v] by (simp_all add: m)
  ultimately show ?thesis using a1 c2 by blast
qed

end
