(* ===== verification/Go_Time.thy ===== *)
theory Go_Time
  imports Go_Strings "HOL-Library.Monad_Syntax"
begin

text \<open>
  \<open>time.Parse\<close> with the layout \<open>time.RFC3339Nano\<close> of Go's standard library, the only
  layout the program parses: \<open>2006-01-02T15:04:05.999999999Z07:00\<close>. As in Go the hour may
  have one digit, the fraction of a second may follow a comma, be absent or have any number of
  digits (nine count), and the offset is \<open>Z\<close> or \<open>+hh:mm\<close>, \<open>-hh:mm\<close> with at
  most 24 hours and 60 minutes. The result is the instant, as nanoseconds since year 1.
\<close>

section \<open>Reading fields\<close>

fun getnum :: "bool \<Rightarrow> string \<Rightarrow> (int \<times> string) option" where
  "getnum fixed (a # b # r) =
     (if \<not> is_digit a then None
      else if is_digit b then Some (int (10 * digit_val a + digit_val b), r)
      else if fixed then None
      else Some (int (digit_val a), b # r))"
| "getnum fixed [a] = (if is_digit a \<and> \<not> fixed then Some (int (digit_val a), []) else None)"
| "getnum fixed [] = None"

fun literal :: "char \<Rightarrow> string \<Rightarrow> string option" where
  "literal c (x # r) = (if x = c then Some r else None)"
| "literal c [] = None"

definition within :: "int \<Rightarrow> int \<Rightarrow> (int \<times> string) option \<Rightarrow> (int \<times> string) option" where
  "within lo hi p = (case p of Some (n, r) \<Rightarrow> if lo \<le> n \<and> n \<le> hi then p else None | None \<Rightarrow> None)"

definition year_field :: "string \<Rightarrow> (int \<times> string) option" where
  "year_field s =
     (if 4 \<le> length s \<and> list_all is_digit (take 4 s)
      then Some (int (dec_val (take 4 s)), drop 4 s) else None)"

text \<open>The optional fraction: at most nine digits count, the others are skipped.\<close>

fun fraction :: "string \<Rightarrow> int \<times> string" where
  "fraction (p # d # r) =
     (if p \<in> {CHR ''.'', CHR '',''} \<and> is_digit d then
        let ds = takeWhile is_digit (d # r); used = take 9 ds
        in (int (dec_val used) * 10 ^ (9 - length used), dropWhile is_digit (d # r))
      else (0, p # d # r))"
| "fraction s = (0, s)"

text \<open>The offset in seconds.\<close>

definition zone :: "string \<Rightarrow> (int \<times> string) option" where
  "zone s =
     (if take 1 s = ''Z'' then Some (0, drop 1 s)
      else if length s < 6 \<or> s ! 3 \<noteq> CHR '':'' then None
      else case (getnum True [s ! 1, s ! 2], getnum True [s ! 4, s ! 5]) of
             (Some (hr, _), Some (mm, _)) \<Rightarrow>
               if 24 < hr \<or> 60 < mm then None
               else let offset = (hr * 60 + mm) * 60
                    in if s ! 0 = CHR ''+'' then Some (offset, drop 6 s)
                       else if s ! 0 = CHR ''-'' then Some (- offset, drop 6 s)
                       else None
           | _ \<Rightarrow> None)"

section \<open>The calendar\<close>

definition leap :: "int \<Rightarrow> bool" where
  "leap y \<longleftrightarrow> y mod 4 = 0 \<and> (y mod 100 \<noteq> 0 \<or> y mod 400 = 0)"

definition month_days :: "int \<Rightarrow> int list" where
  "month_days y = [31, if leap y then 29 else 28, 31, 30, 31, 30, 31, 31, 30, 31, 30, 31]"

definition daysIn :: "int \<Rightarrow> int \<Rightarrow> int" where
  "daysIn y m = month_days y ! nat (m - 1)"

text \<open>Days from January 1 of year 1.\<close>

definition days_until :: "int \<Rightarrow> int \<Rightarrow> int \<Rightarrow> int" where
  "days_until y m d =
     365 * (y - 1) + (y - 1) div 4 - (y - 1) div 100 + (y - 1) div 400
     + sum_list (take (nat (m - 1)) (month_days y)) + (d - 1)"

section \<open>Parsing\<close>

definition Parse_RFC3339Nano :: "string \<Rightarrow> gtime option" where
  "Parse_RFC3339Nano s =
     do {
       (year, s) \<leftarrow> year_field s;
       s \<leftarrow> literal (CHR ''-'') s;
       (month, s) \<leftarrow> within 1 12 (getnum True s);
       s \<leftarrow> literal (CHR ''-'') s;
       (day, s) \<leftarrow> getnum True s;
       s \<leftarrow> literal (CHR ''T'') s;
       (hour, s) \<leftarrow> within 0 23 (getnum False s);
       s \<leftarrow> literal (CHR '':'') s;
       (minutes, s) \<leftarrow> within 0 59 (getnum True s);
       s \<leftarrow> literal (CHR '':'') s;
       (sec, s) \<leftarrow> within 0 59 (getnum True s);
       let (nsec, s) = fraction s;
       (offset, s) \<leftarrow> zone s;
       if s \<noteq> [] \<or> day < 1 \<or> daysIn year month < day then None
       else Some ((((days_until year month day * 24 + hour) * 60 + minutes) * 60 + sec - offset)
                  * 1000000000 + nsec)
     }"

lemma days_until_epoch: "days_until 1970 1 1 * 24 * 60 * 60 * 1000000000 = unixEpoch"
  by (simp add: days_until_def unixEpoch_def)

lemma parse_examples:
  "Parse_RFC3339Nano ''1970-01-01T00:00:00Z'' = Some unixEpoch"
  "Parse_RFC3339Nano ''2024-02-29T12:30:01.5+02:00'' = Some (time_Unix 1709202601 500000000)"
  "Parse_RFC3339Nano ''2023-02-29T12:30:01Z'' = None"
  "Parse_RFC3339Nano ''2024-02-29 12:30:01Z'' = None"
  by code_simp+

end
