(* ===== verification/Events.thy ===== *)
theory Events
  imports Retention Go_Time
begin

text \<open>
  The cluster events and the handler for them: \<open>internal/events/types.go\<close> and
  \<open>HandleEvent\<close>, \<open>sameNode\<close> and \<open>parseEventTime\<close> of
  \<open>internal/reconciler/reconciler.go\<close>. Log records, timings and the latency watchdog are
  left out; the current time is an argument.
\<close>

section \<open>Events\<close>

record VMData =
  EvtSchemaVersion :: string
  EvtCluster :: string
  EvtNode :: string
  EvtKind :: string
  EvtVMID :: int
  EvtName :: string
  EvtTags :: "string list"
  EvtDescription :: string
  EvtAction :: string
  EvtPhase :: string
  EvtUPID :: string
  EvtUser :: string
  EvtSourceNode :: string
  EvtTargetNode :: string
  EvtDurationMs :: int
  EvtExitStatus :: string
  EvtState :: string
  EvtSnapshotID :: string
  EvtObservedAtNs :: int
  EvtCount :: int

record CloudEvent =
  CESpecVersion :: string
  CEID :: string
  CESource :: string
  CEType :: string
  CESubject :: string
  CETime :: string
  CEDataContentType :: string
  CEData :: VMData

definition parseEventTime :: "string \<Rightarrow> gtime option" where
  "parseEventTime s = Parse_RFC3339Nano s"

definition sameNode :: "string \<Rightarrow> string \<Rightarrow> bool" where
  "sameNode observed expected \<longleftrightarrow> EqualFold (TrimSpace observed) (TrimSpace expected)"

section \<open>The handler\<close>

text \<open>The two ways an event leads to an apply: from the cache at once, else by a full
  reconcile; after a cutover the cached apply is verified later.\<close>

definition apply_or_trigger :: "'w deps \<Rightarrow> string \<Rightarrow> Reconciler \<times> 'w \<Rightarrow> Reconciler \<times> 'w" where
  "apply_or_trigger d source s =
     (case applyCachedImmediately d source s of
        (fast, R, w) \<Rightarrow> if fast then (R, w) else (TriggerReconcile R, w))"

definition cutover :: "'w deps \<Rightarrow> Reconciler \<times> 'w \<Rightarrow> Reconciler \<times> 'w" where
  "cutover d s =
     (case applyCachedImmediately d ''migration-synced-cache'' s of
        (fast, R, w) \<Rightarrow> if fast then (verifyLater R, w) else (TriggerReconcile R, w))"

definition HandleEvent ::
  "'w deps \<Rightarrow> gtime \<Rightarrow> string \<Rightarrow> CloudEvent \<Rightarrow> Reconciler \<times> 'w \<Rightarrow> Reconciler \<times> 'w" where
  "HandleEvent deps now subject evt s =
     (case s of (R, w) \<Rightarrow>
        let d = CEData evt;
            t = (case parseEventTime (CETime evt) of Some t \<Rightarrow> t | None \<Rightarrow> now);
            v = EvtVMID d; name = EvtName d; st = store R
        in
        if EvtAction d = ''migrate'' \<and> EvtPhase d = ''started'' \<and> sameNode (EvtTargetNode d) (node R) then
          apply_or_trigger deps ''migration-started'' (R\<lparr>store := SetStaged v name t st\<rparr>, w)
        else if EvtAction d = ''migrate'' \<and> EvtPhase d = ''synced'' then
          (let (R1, w1) = (if sameNode (EvtTargetNode d) (node R)
                           then cutover deps (R\<lparr>store := SetActive v name t st\<rparr>, w) else (R, w))
           in if sameNode (EvtNode d) (node R)
              then cutover deps (R1\<lparr>store := SetAbsent v t (store R1)\<rparr>, w1) else (R1, w1))
        else if EvtAction d = ''migrate'' \<and> EvtPhase d = ''failed'' \<and> sameNode (EvtTargetNode d) (node R) then
          apply_or_trigger deps ''migration-failed-cache'' (R\<lparr>store := SetAbsent v t st\<rparr>, w)
        else if EvtAction d = ''start'' \<and> EvtPhase d = ''finished'' \<and> sameNode (EvtNode d) (node R) then
          (if (case Get v st of Some vm \<Rightarrow> Status vm = StatusStaged | None \<Rightarrow> False) then (R, w)
           else (TriggerReconcile (R\<lparr>store := SetActive v name t st\<rparr>), w))
        else if (EvtAction d = ''stop'' \<or> EvtAction d = ''shutdown'' \<or> EvtAction d = ''destroy'')
                \<and> EvtPhase d = ''finished'' \<and> sameNode (EvtNode d) (node R) then
          (TriggerReconcile (R\<lparr>store := SetAbsent v t st\<rparr>), w)
        else if (EvtAction d = ''state'' \<and> EvtPhase d = ''snapshot'' \<or> HasSuffix subject ''.state.snapshot'')
                \<and> sameNode (EvtNode d) (node R) then
          (R\<lparr>store := UpdateFromSnapshot v name (EvtState d = ''running'') (EvtObservedAtNs d) st\<rparr>, w)
        else if (HasSuffix (CEType evt) ''snapshot.complete'' \<or> HasSuffix subject ''.snapshot.complete'')
                \<and> (sameNode (EvtNode d) (node R) \<or> TrimSpace (EvtNode d) = []) then
          (if shouldFullFetchForSnapshot now (reconcileIntervalOrDefault R) R
           then (TriggerReconcile R, w) else (R, w))
        else (R, w))"

section \<open>What an apply leaves alone\<close>

lemma apply_keeps:
  assumes "applyMappingsTimed d allMappings source (R, w) = (err, R', w')"
  shows "apply_frame R R'"
proof -
  let ?r = "resolve_all (ReadBackup d w) allMappings source R"
  obtain unchanged first R2 where
    prog: "program_host d unchanged first (sortMappings (res_nft ?r)) (res_bgp ?r)
       (managed_of (ReadBackup d w) allMappings source R) (res_applied ?r) (R2, w) = (err, R', w')"
    and unch: "unchanged \<longleftrightarrow> rulesetKeyValid R \<and> rulesetKey (sortMappings (res_nft ?r)) = lastRulesetKey R"
    and fr: "apply_frame R R2" "rulesetKeyValid R2 = rulesetKeyValid R" "lastRulesetKey R2 = lastRulesetKey R"
    by (rule apply_decompose [OF assms]) blast
  have "unchanged \<longrightarrow> rulesetKeyValid R2 \<and> rulesetKey (sortMappings (res_nft ?r)) = lastRulesetKey R2"
    using unch fr by simp
  from program_host_frame [OF prog this] fr(1) show ?thesis using apply_frame_trans by blast
qed

lemma applyCached_keeps:
  assumes "applyCachedImmediately d source (R, w) = (fast, R', w')"
  shows "apply_frame R R' \<and> fast = mappingCacheReady R"
proof (cases "mappingCacheReady R")
  case True
  obtain err R1 w1 where call: "applyMappingsTimed d (cachedMappings R) (sourceCached source) (R, w) = (err, R1, w1)"
    by (metis prod.exhaust)
  then show ?thesis using assms True apply_keeps [OF call] by (simp add: applyCachedImmediately_def)
next
  case False
  then show ?thesis using assms by (simp add: applyCachedImmediately_def)
qed

text \<open>The fields an event handler does not touch, besides those of an apply.\<close>

lemma apply_or_trigger_store [simp]:
  "store (fst (apply_or_trigger d source (R, w))) = store R"
  "node (fst (apply_or_trigger d source (R, w))) = node R"
proof -
  obtain fast R' w' where call: "applyCachedImmediately d source (R, w) = (fast, R', w')"
    by (metis prod.exhaust)
  have "apply_frame R R'" using applyCached_keeps [OF call] by blast
  note F = apply_frameD(1,3) [OF this]
  show "store (fst (apply_or_trigger d source (R, w))) = store R"
    "node (fst (apply_or_trigger d source (R, w))) = node R"
    by (simp_all add: apply_or_trigger_def call TriggerReconcile_def F)
qed

lemma cutover_store [simp]:
  "store (fst (cutover d (R, w))) = store R"
  "node (fst (cutover d (R, w))) = node R"
proof -
  obtain fast R' w' where call: "applyCachedImmediately d ''migration-synced-cache'' (R, w) = (fast, R', w')"
    by (metis prod.exhaust)
  have "apply_frame R R'" using applyCached_keeps [OF call] by blast
  note F = apply_frameD(1,3) [OF this]
  show "store (fst (cutover d (R, w))) = store R" "node (fst (cutover d (R, w))) = node R"
    by (simp_all add: cutover_def call TriggerReconcile_def verifyLater_def F)
qed

section \<open>The placement machine\<close>

text \<open>
  What an event means for this node: the abstract machine behind the handler. Its steps
  change only the placement of the event's VM.
\<close>

datatype placement =
  Inbound | Handover bool bool | Abandoned | Started | Stopped | Observed | BatchDone | Irrelevant

definition placement_of :: "string \<Rightarrow> string \<Rightarrow> CloudEvent \<Rightarrow> placement" where
  "placement_of this subject evt =
     (let d = CEData evt; here = sameNode (EvtNode d) this; target = sameNode (EvtTargetNode d) this in
      if EvtAction d = ''migrate'' \<and> EvtPhase d = ''started'' \<and> target then Inbound
      else if EvtAction d = ''migrate'' \<and> EvtPhase d = ''synced'' then Handover target here
      else if EvtAction d = ''migrate'' \<and> EvtPhase d = ''failed'' \<and> target then Abandoned
      else if EvtAction d = ''start'' \<and> EvtPhase d = ''finished'' \<and> here then Started
      else if (EvtAction d = ''stop'' \<or> EvtAction d = ''shutdown'' \<or> EvtAction d = ''destroy'')
        \<and> EvtPhase d = ''finished'' \<and> here then Stopped
      else if (EvtAction d = ''state'' \<and> EvtPhase d = ''snapshot'' \<or> HasSuffix subject ''.state.snapshot'') \<and> here
        then Observed
      else if (HasSuffix (CEType evt) ''snapshot.complete'' \<or> HasSuffix subject ''.snapshot.complete'')
        \<and> (here \<or> TrimSpace (EvtNode d) = []) then BatchDone
      else Irrelevant)"

definition event_time :: "gtime \<Rightarrow> CloudEvent \<Rightarrow> gtime" where
  "event_time now evt = (case parseEventTime (CETime evt) of Some t \<Rightarrow> t | None \<Rightarrow> now)"

fun place :: "placement \<Rightarrow> VMData \<Rightarrow> gtime \<Rightarrow> Store \<Rightarrow> Store" where
  "place Inbound d t st = SetStaged (EvtVMID d) (EvtName d) t st"
| "place (Handover target source) d t st =
     (let st1 = (if target then SetActive (EvtVMID d) (EvtName d) t st else st)
      in if source then SetAbsent (EvtVMID d) t st1 else st1)"
| "place Abandoned d t st = SetAbsent (EvtVMID d) t st"
| "place Started d t st =
     (if (case Get (EvtVMID d) st of Some vm \<Rightarrow> Status vm = StatusStaged | None \<Rightarrow> False) then st
      else SetActive (EvtVMID d) (EvtName d) t st)"
| "place Stopped d t st = SetAbsent (EvtVMID d) t st"
| "place Observed d t st =
     UpdateFromSnapshot (EvtVMID d) (EvtName d) (EvtState d = ''running'') (EvtObservedAtNs d) st"
| "place BatchDone d t st = st"
| "place Irrelevant d t st = st"

text \<open>What the handler does with it.\<close>

fun handle_as ::
  "'w deps \<Rightarrow> gtime \<Rightarrow> CloudEvent \<Rightarrow> placement \<Rightarrow> Reconciler \<Rightarrow> 'w \<Rightarrow> Reconciler \<times> 'w" where
  "handle_as deps now evt Inbound R w =
     apply_or_trigger deps ''migration-started''
       (R\<lparr>store := place Inbound (CEData evt) (event_time now evt) (store R)\<rparr>, w)"
| "handle_as deps now evt (Handover target source) R w =
     (let d = CEData evt; t = event_time now evt;
          (R1, w1) = (if target
                      then cutover deps (R\<lparr>store := place (Handover True False) d t (store R)\<rparr>, w)
                      else (R, w))
      in if source then cutover deps (R1\<lparr>store := place (Handover False True) d t (store R1)\<rparr>, w1)
         else (R1, w1))"
| "handle_as deps now evt Abandoned R w =
     apply_or_trigger deps ''migration-failed-cache''
       (R\<lparr>store := place Abandoned (CEData evt) (event_time now evt) (store R)\<rparr>, w)"
| "handle_as deps now evt Started R w =
     (if (case Get (EvtVMID (CEData evt)) (store R) of Some vm \<Rightarrow> Status vm = StatusStaged | None \<Rightarrow> False)
      then (R, w)
      else (TriggerReconcile (R\<lparr>store := SetActive (EvtVMID (CEData evt)) (EvtName (CEData evt))
              (event_time now evt) (store R)\<rparr>), w))"
| "handle_as deps now evt Stopped R w =
     (TriggerReconcile (R\<lparr>store := place Stopped (CEData evt) (event_time now evt) (store R)\<rparr>), w)"
| "handle_as deps now evt Observed R w =
     (R\<lparr>store := place Observed (CEData evt) (event_time now evt) (store R)\<rparr>, w)"
| "handle_as deps now evt BatchDone R w =
     (if shouldFullFetchForSnapshot now (reconcileIntervalOrDefault R) R then (TriggerReconcile R, w)
      else (R, w))"
| "handle_as deps now evt Irrelevant R w = (R, w)"

lemma HandleEvent_as:
  "HandleEvent deps now subject evt (R, w) = handle_as deps now evt (placement_of (node R) subject evt) R w"
  unfolding HandleEvent_def placement_of_def event_time_def Let_def prod.case
    if_distrib [of "\<lambda>p. handle_as deps now evt p R w"] handle_as.simps place.simps if_True if_False ..

lemma HandleEvent_store:
  "store (fst (HandleEvent d now subject evt (R, w))) =
     place (placement_of (node R) subject evt) (CEData evt) (event_time now evt) (store R) \<and>
   node (fst (HandleEvent d now subject evt (R, w))) = node R"
  unfolding HandleEvent_as
  by (cases "placement_of (node R) subject evt") (simp_all add: TriggerReconcile_def split_beta Let_def)

section \<open>Migrations\<close>

definition active_at :: "int \<Rightarrow> Reconciler \<Rightarrow> bool" where
  "active_at v R \<longleftrightarrow> (case Get v (store R) of Some vm \<Rightarrow> Status vm = StatusActive | None \<Rightarrow> False)"

text \<open>Nothing known of the VM is newer than the given time.\<close>

definition known_until :: "int \<Rightarrow> gtime \<Rightarrow> Store \<Rightarrow> bool" where
  "known_until v t st \<longleftrightarrow> (case Get v st of Some vm \<Rightarrow> LastEventTime vm \<le> t | None \<Rightarrow> True)"

definition status_at :: "int \<Rightarrow> Store \<Rightarrow> Status option" where
  "status_at v st = map_option Status (Get v st)"

lemma store_set_fresh:
  assumes "known_until v t st"
  shows "status_at v (store_set v n s t 0 st) = Some s" "known_until v t (store_set v n s t 0 st)"
  using assms
  by (auto simp: known_until_def status_at_def Get_def store_set_def After_def Let_def mget_mput
      split: option.splits if_splits)

lemma SetStaged_fresh:
  assumes "known_until v t st"
  shows "status_at v (SetStaged v n t st) = Some StatusStaged" "known_until v t (SetStaged v n t st)"
  using store_set_fresh [OF assms, of n StatusStaged]
  by (auto simp: SetStaged_def Let_def status_at_def known_until_def Get_def mget_mput split: option.splits)

lemma known_until_mono: "known_until v t st \<Longrightarrow> t \<le> u \<Longrightarrow> known_until v u st"
  by (auto simp: known_until_def split: option.splits)

lemma active_at_status: "active_at v R \<longleftrightarrow> status_at v (store R) = Some StatusActive"
  by (auto simp: active_at_def status_at_def split: option.splits)

text \<open>Events of one VM's live migration as the cluster publishes them, in their order.\<close>

definition vm_event :: "string \<Rightarrow> string \<Rightarrow> string \<Rightarrow> string \<Rightarrow> int \<Rightarrow> gtime \<Rightarrow> CloudEvent \<Rightarrow> bool" where
  "vm_event action phase here there v t evt \<longleftrightarrow>
     EvtAction (CEData evt) = action \<and> EvtPhase (CEData evt) = phase \<and> EvtNode (CEData evt) = here \<and>
     EvtTargetNode (CEData evt) = there \<and> EvtVMID (CEData evt) = v \<and> parseEventTime (CETime evt) = Some t"

definition deliver ::
  "'w deps \<Rightarrow> gtime \<Rightarrow> (string \<times> CloudEvent) list \<Rightarrow> Reconciler \<times> 'w \<Rightarrow> Reconciler \<times> 'w" where
  "deliver d now evts s = fold (\<lambda>(subject, evt). HandleEvent d now subject evt) evts s"

lemma deliver_simps:
  "deliver d now [] s = s"
  "deliver d now ((subject, evt) # evts) s = deliver d now evts (HandleEvent d now subject evt s)"
  by (simp_all add: deliver_def)

lemma store_deliver:
  "store (fst (deliver d now evts s)) =
     fold (\<lambda>(subject, evt). place (placement_of (node (fst s)) subject evt) (CEData evt) (event_time now evt))
       evts (store (fst s)) \<and> node (fst (deliver d now evts s)) = node (fst s)"
proof (induction evts arbitrary: s)
  case (Cons e evts)
  obtain subject evt R w where "e = (subject, evt)" "s = (R, w)" by fastforce
  then show ?case
    using Cons [of "HandleEvent d now subject evt (R, w)"] HandleEvent_store [of d now subject evt R w]
    by (simp add: deliver_simps)
qed (simp add: deliver_simps)

lemma place_source:
  assumes "sameNode source this" "\<not> sameNode target this" "\<not> HasSuffix subject ''.state.snapshot''"
  shows "vm_event ''migrate'' ''started'' source target v t evt \<Longrightarrow>
      place (placement_of this subject evt) (CEData evt) t' st = st"
    "vm_event ''start'' ''finished'' target there v t evt \<Longrightarrow>
      place (placement_of this subject evt) (CEData evt) t' st = st"
    "vm_event ''migrate'' ''synced'' source target v t evt \<Longrightarrow>
      place (placement_of this subject evt) (CEData evt) t' st = SetAbsent v t' st"
  using assms by (auto simp: vm_event_def placement_of_def Let_def)

lemma place_target:
  assumes "\<not> sameNode source this" "sameNode target this"
  shows "vm_event ''migrate'' ''started'' source target v t evt \<Longrightarrow>
      place (placement_of this subject evt) (CEData evt) t' st = SetStaged v (EvtName (CEData evt)) t' st"
    "vm_event ''start'' ''finished'' target there v t evt \<Longrightarrow> status_at v st = Some StatusStaged \<Longrightarrow>
      place (placement_of this subject evt) (CEData evt) t' st = st"
    "vm_event ''migrate'' ''synced'' source target v t evt \<Longrightarrow>
      place (placement_of this subject evt) (CEData evt) t' st = SetActive v (EvtName (CEData evt)) t' st"
  using assms by (auto simp: vm_event_def placement_of_def Let_def status_at_def split: option.splits)

text \<open>
  C4: A live migration hands the VM over. While the target's own start event has arrived but
  the migration is not synced, the VM is active on the source and not on the target; once
  both have seen the synced event it is active on the target and not on the source. This
  holds on any host, for every order of time stamps that agrees with the order of events.
\<close>

theorem migration_hands_over:
  assumes "sameNode source (node RS)" and "\<not> sameNode target (node RS)"
    and "sameNode target (node RT)" and "\<not> sameNode source (node RT)"
    and "vm_event ''migrate'' ''started'' source target v t1 e1"
    and "vm_event ''start'' ''finished'' target there v t2 e2"
    and "vm_event ''migrate'' ''synced'' source target v t3 e3"
    and "list_all (\<lambda>s. \<not> HasSuffix s ''.state.snapshot'') [s1, s2, s3]" and "t1 \<le> t2" and "t2 \<le> t3"
    and "active_at v RS" and "known_until v t1 (store RS)" and "known_until v t1 (store RT)"
  shows "active_at v (fst (deliver dS nS [(s1, e1), (s2, e2)] (RS, wS))) \<and>
    \<not> active_at v (fst (deliver dT nT [(s1, e1), (s2, e2)] (RT, wT))) \<and>
    \<not> active_at v (fst (deliver dS nS [(s1, e1), (s2, e2), (s3, e3)] (RS, wS))) \<and>
    active_at v (fst (deliver dT nT [(s1, e1), (s2, e2), (s3, e3)] (RT, wT)))"
proof -
  have time: "event_time n e1 = t1" "event_time n e2 = t2" "event_time n e3 = t3" for n
    using assms(5-7) by (simp_all add: event_time_def vm_event_def)
  have subj: "\<not> HasSuffix s1 ''.state.snapshot''" "\<not> HasSuffix s2 ''.state.snapshot''" "\<not> HasSuffix s3 ''.state.snapshot''"
    using assms(8) by simp_all
  note S = place_source(1) [OF assms(1,2) subj(1) assms(5)] place_source(2) [OF assms(1,2) subj(2) assms(6)]
    place_source(3) [OF assms(1,2) subj(3) assms(7)]
  let ?st = "SetStaged v (EvtName (CEData e1)) t1 (store RT)"
  have staged: "status_at v ?st = Some StatusStaged" "known_until v t3 ?st"
    using SetStaged_fresh [OF assms(13), of "EvtName (CEData e1)"] known_until_mono [of v t1 ?st t3] assms(9,10) by simp_all
  note T = place_target(1) [OF assms(4,3) assms(5)] place_target(2) [OF assms(4,3) assms(6) staged(1)]
    place_target(3) [OF assms(4,3) assms(7)]
  have "known_until v t3 (store RS)" using known_until_mono [OF assms(12)] assms(9,10) by simp
  then have "status_at v (SetAbsent v t3 (store RS)) = Some StatusAbsent"
    "status_at v (SetActive v n t3 ?st) = Some StatusActive" for n
    using store_set_fresh(1) staged(2) by (simp_all add: SetAbsent_def SetActive_def)
  then show ?thesis
    using assms(11) staged(1) by (simp add: active_at_status store_deliver S T time)
qed

text \<open>
  The start of an incoming VM does not activate it: while a VM is staged, the event that
  it started on this node changes nothing at all.
\<close>

theorem start_waits_for_handover:
  assumes "vm_event ''start'' ''finished'' here there v t evt" and "sameNode here (node R)"
    and "Get v (store R) = Some vm" and "Status vm = StatusStaged"
  shows "HandleEvent d now subject evt (R, w) = (R, w)"
proof -
  have "placement_of (node R) subject evt = Started"
    using assms(1,2) by (simp add: placement_of_def vm_event_def Let_def)
  then show ?thesis using assms by (simp add: HandleEvent_as vm_event_def)
qed

text \<open>
  Events of other nodes are ignored: an event whose node and target node are others
  changes neither the reconciler nor the host.
\<close>

theorem foreign_events_ignored:
  assumes "\<not> sameNode (EvtNode (CEData evt)) (node R)" and "\<not> sameNode (EvtTargetNode (CEData evt)) (node R)"
    and "TrimSpace (EvtNode (CEData evt)) \<noteq> []"
  shows "HandleEvent d now subject evt (R, w) = (R, w)"
proof -
  have "placement_of (node R) subject evt \<in> {Handover False False, Irrelevant}"
    using assms by (simp add: placement_of_def Let_def)
  then show ?thesis by (auto simp: HandleEvent_as)
qed

lemma active_ids_iff:
  assumes "store_wf (store R)"
  shows "v \<in> set (active_ids R) \<longleftrightarrow> active_at v R"
proof
  assume "v \<in> set (active_ids R)"
  then obtain vm where "vm \<in> set (GetActive (store R))" "v = VMID vm" by (auto simp: active_ids_def)
  then show "active_at v R" by (simp add: GetActive_iff [OF assms] active_at_def Get_def)
next
  assume "active_at v R"
  then obtain vm where vm: "mget (vms (store R)) v = Some vm" "Status vm = StatusActive"
    by (auto simp: active_at_def Get_def split: option.splits)
  then have "VMID vm = v" using store_wf_vm [OF assms vm(1)] by (simp add: vm_ok_def)
  then have "vm \<in> set (GetActive (store R))" using vm by (simp add: GetActive_iff [OF assms])
  with \<open>VMID vm = v\<close> show "v \<in> set (active_ids R)" by (auto simp: active_ids_def)
qed

text \<open>
  C5: The cutover needs no NetBox. The synced event of an inbound migration, with a warm
  cache that knows the VM, applies the cached mappings of the VM within the handler, without
  a fetch, and schedules the verification; provided only that the ruleset loads.
\<close>

theorem cutover_from_cache:
  assumes "store_wf (store R)" and "cache_inv R" and "mappingCacheReady R" and "0 < v"
    and "vm_event ''migrate'' ''synced'' source target v t evt"
    and "sameNode target (node R)" and "\<not> sameNode source (node R)" and "known_until v t (store R)"
    and "mgetd [] (mappingByVMID R) v = ms" and "ms \<noteq> []"
    and "HandleEvent (recording d) now subject evt (R, [], w) = (R', l, w')" and "rulesetKeyValid R'"
  shows "mget (lastAppliedByVMID R') v = Some ms \<and> verifyPending R' \<and> CFetch True \<notin> set l \<and> CFetch False \<notin> set l"
proof -
  let ?d = "recording d" and ?src = "sourceCached ''migration-synced-cache''"
  let ?R = "R\<lparr>store := SetActive v (EvtName (CEData evt)) t (store R)\<rparr>"
  have pl: "placement_of (node R) subject evt = Handover True False"
    using assms(5-7) by (simp add: placement_of_def vm_event_def Let_def)
  have t: "event_time now evt = t" "EvtVMID (CEData evt) = v"
    using assms(5) by (simp_all add: event_time_def vm_event_def)
  obtain err R2 l2 w2 where call: "applyMappingsTimed ?d (cachedMappings ?R) ?src (?R, [], w) = (err, R2, l2, w2)"
    by (metis prod.exhaust)
  have res: "R' = verifyLater R2" "l = l2"
    using assms(3,11) call by (simp_all add: HandleEvent_as pl t cutover_def applyCachedImmediately_def)
  have wf: "store_wf (store ?R)" using assms(1) by (simp add: SetActive_def store_wf_store_set)
  note A = apply_reconciler [OF call wf refl]
  have "rulesetKeyValid R2" using assms(12) res(1) by (simp add: verifyLater_def split: if_splits)
  then have ok: "err = None" using A by blast
  have inv: "cache_inv ?R" using assms(2) by (simp add: cache_inv_def)
  have "status_at v (store ?R) = Some StatusActive"
    using store_set_fresh(1) [OF assms(8)] by (simp add: SetActive_def)
  then have v: "v \<in> set (active_ids ?R)" by (simp add: active_ids_iff [OF wf] active_at_status)
  have "wanted_vm (ReadBackup ?d ([], w)) (cachedMappings ?R) ?src ?R v = ms"
    using assms(9,10) by (simp add: wanted_vm_def vm_mappings_def cached_of_vm [OF inv assms(4)])
  then have "mget (lastAppliedByVMID R2) v = Some ms" using A ok v assms(10) by simp
  moreover have "CFetch True \<notin> set l2 \<and> CFetch False \<notin> set l2"
  proof -
    let ?r = "resolve_all (ReadBackup ?d ([], w)) (cachedMappings ?R) ?src ?R"
    obtain unchanged first R3 where
      "program_host ?d unchanged first (sortMappings (res_nft ?r)) (res_bgp ?r)
         (managed_of (ReadBackup ?d ([], w)) (cachedMappings ?R) ?src ?R) (res_applied ?r) (R3, [], w) =
       (err, R2, l2, w2)"
      by (rule apply_decompose [OF call]) blast
    from program_host_log [OF this] obtain fl where fl: "\<forall>c \<in> set fl. is_frr c"
      and l2: "l2 = [] @ (if first then fl @ (if unchanged then [] else [CNftApply (sortMappings (res_nft ?r)) (err = None)])
              else (if unchanged then [] else [CNftApply (sortMappings (res_nft ?r)) (err = None)]) @
                (if err = None then fl else []))"
      by blast
    have "CFetch b \<notin> set fl" for b using bspec [OF fl, of "CFetch b"] by auto
    then show ?thesis unfolding l2 by simp
  qed
  ultimately show ?thesis using res by (simp add: verifyLater_def)
qed

definition evt0 :: CloudEvent where
  "evt0 = \<lparr>CESpecVersion = ''1.0'', CEID = [], CESource = [], CEType = [], CESubject = [],
     CETime = ''2024-01-01T00:00:00Z'', CEDataContentType = [],
     CEData = \<lparr>EvtSchemaVersion = ''1'', EvtCluster = ''c'', EvtNode = ''pve1'', EvtKind = ''qemu'', EvtVMID = 101,
       EvtName = ''web'', EvtTags = [], EvtDescription = [], EvtAction = ''migrate'', EvtPhase = ''started'',
       EvtUPID = [], EvtUser = [], EvtSourceNode = [], EvtTargetNode = ''pve2'', EvtDurationMs = 0,
       EvtExitStatus = [], EvtState = [], EvtSnapshotID = [], EvtObservedAtNs = 0, EvtCount = 0\<rparr>\<rparr>"

definition evt_start :: CloudEvent where
  "evt_start = evt0\<lparr>CEData := (CEData evt0)\<lparr>EvtAction := ''start'', EvtPhase := ''finished'', EvtNode := ''pve2'',
     EvtTargetNode := []\<rparr>\<rparr>"

definition evt_synced :: CloudEvent where
  "evt_synced = evt0\<lparr>CEData := (CEData evt0)\<lparr>EvtPhase := ''synced''\<rparr>\<rparr>"

lemma evt_time: "Parse_RFC3339Nano ''2024-01-01T00:00:00Z'' = Some (time_Unix 1704067200 0)"
  by code_simp

lemma vm_events:
  "vm_event ''migrate'' ''started'' ''pve1'' ''pve2'' 101 (time_Unix 1704067200 0) evt0"
  "vm_event ''start'' ''finished'' ''pve2'' [] 101 (time_Unix 1704067200 0) evt_start"
  "vm_event ''migrate'' ''synced'' ''pve1'' ''pve2'' 101 (time_Unix 1704067200 0) evt_synced"
  by (simp_all add: vm_event_def evt0_def evt_start_def evt_synced_def parseEventTime_def evt_time)

lemma nodes12:
  "sameNode ''pve1'' ''pve1''" "sameNode ''pve2'' ''pve2''" "\<not> sameNode ''pve1'' ''pve2''" "\<not> sameNode ''pve2'' ''pve1''"
  by code_simp+

definition target101 :: Reconciler where
  "target101 = rebuildMappingCache [web2] (newReconciler ''pve2'' New_Store)"

theorem migration_hands_over_witness:
  "\<not> active_at 101 (fst (deliver (quiet sim_rd) 0 [([], evt0), ([], evt_start), ([], evt_synced)] (rec101, ()))) \<and>
   active_at 101 (fst (deliver (quiet sim_rd) 0 [([], evt0), ([], evt_start), ([], evt_synced)] (target101, ())))"
proof -
  have n: "node rec101 = ''pve1''" "node target101 = ''pve2''"
    by (simp_all add: rec101_def target101_def rebuildMappingCache_def)
  have act: "active_at 101 rec101" "known_until 101 (time_Unix 1704067200 0) (store rec101)"
    by (simp_all add: active_at_def known_until_def Get_def store101_def SetActive_def store_set_def
        New_Store_def time_Unix_def unixEpoch_def)
  have kt: "known_until 101 (time_Unix 1704067200 0) (store target101)"
    by (simp add: known_until_def Get_def target101_def rebuildMappingCache_def New_Store_def)
  have sub: "list_all (\<lambda>s. \<not> HasSuffix s ''.state.snapshot'') [[], [], []]" by code_simp
  note M = migration_hands_over [of "''pve1''" rec101 "''pve2''" target101, unfolded n,
      OF nodes12(1,4,2,3) vm_events sub order_refl order_refl act kt, where dS = "quiet sim_rd"
        and dT = "quiet sim_rd" and nS = 0 and nT = 0 and wS = "()" and wT = "()"]
  show ?thesis using M by blast
qed

theorem start_waits_for_handover_witness:
  "let R = target101\<lparr>store := SetStaged 101 ''web'' 5 New_Store\<rparr>
   in HandleEvent (quiet sim_rd) 0 [] evt_start (R, ()) = (R, ())"
proof -
  let ?R = "target101\<lparr>store := SetStaged 101 ''web'' 5 New_Store\<rparr>"
  have "sameNode ''pve2'' (node ?R)"
    using nodes12(2) by (simp add: target101_def rebuildMappingCache_def)
  moreover obtain vm where "Get 101 (store ?R) = Some vm" "Status vm = StatusStaged"
    by (simp add: Get_def SetStaged_def store_set_def New_Store_def Let_def)
  ultimately have "HandleEvent (quiet sim_rd) 0 [] evt_start (?R, ()) = (?R, ())"
    by (rule start_waits_for_handover [OF vm_events(2)])
  then show ?thesis by (simp add: Let_def)
qed

theorem foreign_events_ignored_witness:
  "HandleEvent (quiet sim_rd) 0 [] evt_start (rec101, ()) = (rec101, ())"
proof (rule foreign_events_ignored)
  have n: "node rec101 = ''pve1''" by (simp add: rec101_def)
  have "\<not> sameNode [] ''pve1''" "TrimSpace ''pve2'' \<noteq> []" by code_simp+
  then show "\<not> sameNode (EvtNode (CEData evt_start)) (node rec101)"
    "\<not> sameNode (EvtTargetNode (CEData evt_start)) (node rec101)"
    "TrimSpace (EvtNode (CEData evt_start)) \<noteq> []"
    using nodes12(4) by (simp_all add: n evt_start_def evt0_def)
qed

lemma quiet_rec_program:
  "fst (program_host (recording (quiet rd)) unchanged first ms desired managed applied s) = None"
  by (cases s) (auto simp: program_host_def apply_nft_def quiet_def recording_simps split: prod.splits if_splits)

theorem cutover_from_cache_witness:
  "\<exists>R' l w'. HandleEvent (recording (quiet sim_rd)) 0 [] evt_synced (target101, [], ()) = (R', l, w') \<and>
     mget (lastAppliedByVMID R') 101 = Some [web2]"
proof -
  obtain R' l w' where call: "HandleEvent (recording (quiet sim_rd)) 0 [] evt_synced (target101, [], ()) = (R', l, w')"
    by (metis prod.exhaust)
  have n: "node target101 = ''pve2''" by (simp add: target101_def rebuildMappingCache_def)
  have R: "store_wf (store target101)" "cache_inv target101" "mappingCacheReady target101" "(0::int) < 101"
    by (simp_all add: target101_def cache_inv_rebuild) (simp_all add: rebuildMappingCache_def store_wf_New)
  have kt: "known_until 101 (time_Unix 1704067200 0) (store target101)"
    by (simp add: known_until_def Get_def target101_def rebuildMappingCache_def New_Store_def)
  let ?R = "target101\<lparr>store := SetActive 101 ''web'' (time_Unix 1704067200 0) New_Store\<rparr>"
  let ?d = "recording (quiet sim_rd)" and ?src = "sourceCached ''migration-synced-cache''"
  obtain err R2 l2 w2 where run: "applyMappingsTimed ?d (cachedMappings ?R) ?src (?R, [], ()) = (err, R2, l2, w2)"
    by (metis prod.exhaust)
  have "err = None"
    by (rule apply_decompose [OF run]) (metis quiet_rec_program fst_conv)
  moreover have "store_wf (store ?R)" by (simp add: SetActive_def store_wf_store_set store_wf_New)
  ultimately have "rulesetKeyValid R2" using apply_reconciler [OF run] by blast
  moreover have pl: "placement_of ''pve2'' [] evt_synced = Handover True False"
    using nodes12 by (simp add: placement_of_def evt_synced_def evt0_def)
  have st: "store target101 = New_Store" by (simp add: target101_def rebuildMappingCache_def)
  have "event_time 0 evt_synced = time_Unix 1704067200 0" "EvtVMID (CEData evt_synced) = 101"
    "EvtName (CEData evt_synced) = ''web''"
    by (simp_all add: event_time_def evt_synced_def evt0_def parseEventTime_def evt_time)
  then have "R' = verifyLater R2"
    using call run R(3) by (simp add: HandleEvent_as n pl st cutover_def applyCachedImmediately_def)
  ultimately have valid: "rulesetKeyValid R'" by (simp add: verifyLater_def)
  have m: "mgetd [] (mappingByVMID target101) 101 = [web2]"
    by (simp add: target101_def rebuildMappingCache_def mgetd_group_mappings) (simp add: web2_def web_mapping_def)
  have "mget (lastAppliedByVMID R') 101 = Some [web2]"
    using cutover_from_cache [OF R vm_events(3) _ _ kt m _ call valid, unfolded n] nodes12 by simp
  with call show ?thesis by blast
qed

end
