(* ===== verification/Daemon.thy ===== *)
theory Daemon
  imports Events
begin

text \<open>
  The running daemon: what \<open>Run\<close> of \<open>internal/reconciler/reconciler.go\<close> does with
  ticks, webhook deltas and reconcile requests, interleaved with the NATS callback, the
  webhook server and the verification timer, as a step relation; its start and its shutdown
  (\<open>cmd/network-reconciler/main.go\<close>). The invariants of the parts hold in every state
  it reaches.

  Each step is a whole apply, or a whole handler; the fetch before an apply is a step of its
  own, so that other steps can come between. The theory \<open>Interleaving\<close> cuts the same threads
  into their single steps: what is shown here is about the serial ones among their runs.
\<close>

section \<open>Sound data\<close>

text \<open>
  Mappings that can be stored and whose external address is one of a given set \<open>E\<close>:
  the addresses this service is responsible for.
\<close>

definition owned :: "Addr set \<Rightarrow> NATMapping \<Rightarrow> bool" where
  "owned E m \<longleftrightarrow> storable m \<and> ExternalIP m \<in> E"

definition delta_ok :: "Addr set \<Rightarrow> WebhookDelta \<Rightarrow> bool" where
  "delta_ok E d \<longleftrightarrow>
     in_int64 (DeltaVMID d) \<and> valid_utf8 (DeltaVMName d) \<and> valid_utf8 (TrimSpace (DeltaVMName d)) \<and>
     (case parseIPorCIDR (DeltaInternalIP d) of Some a \<Rightarrow> Is4 a | None \<Rightarrow> True) \<and>
     (\<forall>raw \<in> set (NATOutside d). case parseIPorCIDR raw of Some a \<Rightarrow> Is4 a \<and> a \<in> E | None \<Rightarrow> True)"

text \<open>Everything the reconciler could apply is about IPv4 addresses.\<close>

definition data_ok :: "Addr set \<Rightarrow> (int \<Rightarrow> read_result) \<Rightarrow> Reconciler \<Rightarrow> bool" where
  "data_ok E rd R \<longleftrightarrow>
     backup_ok rd (backup R) \<and> (\<forall>m \<in> set (cachedMappings R). owned E m) \<and>
     (\<forall>v. \<forall>m \<in> set (mgetd [] (lastAppliedByVMID R) v). owned E m) \<and>
     (\<forall>v ms. backup_view rd (backup R) v = Inr (Some ms) \<longrightarrow> (\<forall>m \<in> set ms. owned E m)) \<and>
     (\<forall>n k. mget (vmIDByName R) n = Some k \<longrightarrow> in_int64 k)"

lemma data_okD:
  assumes "data_ok E rd R"
  shows "backup_ok rd (backup R)" "m \<in> set (cachedMappings R) \<Longrightarrow> owned E m"
    "m \<in> set (mgetd [] (lastAppliedByVMID R) v) \<Longrightarrow> owned E m"
    "backup_view rd (backup R) v = Inr (Some ms) \<Longrightarrow> m \<in> set ms \<Longrightarrow> owned E m"
    "mget (vmIDByName R) n = Some k \<Longrightarrow> in_int64 k"
  using assms unfolding data_ok_def by blast+

lemma owned_storable: "owned E m \<Longrightarrow> storable m"
  by (simp add: owned_def)

lemma storable_addressed: "storable m \<Longrightarrow> addressed m"
  by (cases "InternalIP m") (simp_all add: storable_def addressed_def)

lemma vm_mappings_storable:
  assumes "m \<in> set (vm_mappings source auth current backed_up prev)"
    and "\<forall>m \<in> set current. owned E m" and "\<forall>m \<in> set prev. owned E m"
    and "\<And>ms m. backed_up = Inr (Some ms) \<Longrightarrow> m \<in> set ms \<Longrightarrow> owned E m"
  shows "owned E m"
  using assms by (auto simp: vm_mappings_def split: if_splits sum.splits option.splits list.splits)

lemma wanted_vm_storable:
  assumes "data_ok E rd R" "\<forall>m \<in> set allMappings. owned E m" "m \<in> set (wanted_vm rd allMappings source R v)"
  shows "owned E m"
  using assms(3) unfolding wanted_vm_def
  by (rule vm_mappings_storable) (use data_okD(3,4) [OF assms(1)] assms(2) in auto)

lemma load_each_views:
  "m \<in> set (fst (load_each rd vs b)) \<Longrightarrow> \<exists>v ms. backup_view rd b v = Inr (Some ms) \<and> m \<in> set ms"
proof (induction rd vs b rule: load_each.induct)
  case (2 rd u us b)
  obtain res b1 where l: "load_backup rd u b = (res, b1)" by fastforce
  have v: "backup_view rd b1 v = backup_view rd b v" for v using load_load [of rd v u b] by (simp add: l)
  show ?case
  proof (cases "m \<in> set (fst (load_each rd us b1))")
    case True
    then show ?thesis using "2.IH" [OF l [symmetric] refl] v by auto
  next
    case False
    then have "\<exists>ms. res = Inr (Some ms) \<and> m \<in> set ms"
      using "2.prems" by (auto simp: l split: prod.splits sum.splits option.splits)
    then show ?thesis using l by (metis fst_conv)
  qed
qed simp

lemma managedIPs_views:
  assumes "a \<in> set (fst (managedIPs rd R))"
  shows "\<exists>m. a = ExternalIP m \<and> (m \<in> set (cachedMappings R) \<or>
    (\<exists>v ms. backup_view rd (backup R) v = Inr (Some ms) \<and> m \<in> set ms))"
proof -
  obtain m where m: "a = ExternalIP m" "m \<in> set (cachedMappings R) \<or> m \<in> set (fst (all_backups rd (backup R)))"
    using assms by (auto simp: managedIPs_def split: prod.splits)
  moreover have "\<exists>v ms. backup_view rd (backup R) v = Inr (Some ms) \<and> m \<in> set ms"
    if "m \<in> set (fst (all_backups rd (backup R)))"
    using load_each_views [OF that [unfolded all_backups_def]] by (simp add: allScans_view)
  ultimately show ?thesis by blast
qed

lemma vm_backup_storable:
  assumes "vm_backup source auth current backed_up = Inr (Some ms)" "m \<in> set ms"
    and "\<forall>m \<in> set current. owned E m"
    and "\<And>ms m. backed_up = Inr (Some ms) \<Longrightarrow> m \<in> set ms \<Longrightarrow> owned E m"
  shows "owned E m"
  using assms by (auto simp: vm_backup_def split: if_splits sum.splits option.splits list.splits)

lemma resolved_backup_storable:
  assumes "store_wf (store R)" "data_ok E rd R" "\<forall>m \<in> set allMappings. owned E m"
    and "backup_view rd (res_backup (resolve_all rd allMappings source R)) v = Inr (Some ms)" "m \<in> set ms"
  shows "owned E m"
proof (cases "v \<in> set (active_ids R)")
  case True
  have "\<forall>m \<in> set allMappings. VMProxmoxVMID m = v \<longrightarrow> storable m" using assms(3) owned_storable by blast
  from resolve_all_spec(7) [OF assms(1) data_okD(1) [OF assms(2)] True this, of source] assms(4)
  have "vm_backup source (is_authoritative source allMappings (GetActive (store R)))
      (filter (\<lambda>m. VMProxmoxVMID m = v) allMappings) (backup_view rd (backup R) v) = Inr (Some ms)"
    by simp
  from vm_backup_storable [OF this assms(5)] assms(3) data_okD(4) [OF assms(2)]
  show ?thesis by auto
next
  case False
  have "backup_view rd (backup R) v = Inr (Some ms)"
    using resolve_all_spec(6) [OF assms(1) False, of rd allMappings source] assms(4) by simp
  then show ?thesis using data_okD(4) [OF assms(2)] assms(5) by blast
qed

lemma input_ok:
  assumes "store_wf (store R)" "data_ok E rd R" "\<forall>m \<in> set allMappings. owned E m"
  shows "apply_input_ok rd allMappings source R"
proof -
  have "Is4 a" if "a \<in> set (managed_of rd allMappings source R)" for a
  proof -
    let ?R = "R\<lparr>backup := res_backup (resolve_all rd allMappings source R)\<rparr>"
    have "a \<in> set (fst (managedIPs rd ?R))" using that by (auto simp: managed_of_def split: if_splits)
    moreover have "cachedMappings ?R = cachedMappings R" by (simp add: cachedMappings_def)
    ultimately obtain m where "a = ExternalIP m" "m \<in> set (cachedMappings R) \<or>
      (\<exists>v ms. backup_view rd (res_backup (resolve_all rd allMappings source R)) v = Inr (Some ms) \<and> m \<in> set ms)"
      using managedIPs_views [of a rd ?R] by force
    then have "owned E m" using data_okD(2) [OF assms(2)] resolved_backup_storable [OF assms] by blast
    with \<open>a = ExternalIP m\<close> show ?thesis by (simp add: owned_def storable_def)
  qed
  moreover have "addressed m" if "m \<in> set (wanted rd allMappings source R)" for m
    using that wanted_vm_storable [OF assms(2,3)] by (auto simp: wanted_def intro!: storable_addressed owned_storable)
  ultimately show ?thesis using assms(1) by (simp add: apply_input_ok_def)
qed

lemma data_ok_apply:
  assumes "applyMappingsTimed d allMappings source (R, w) = (err, R', w')" and "ReadBackup d w = rd"
    and "store_wf (store R)" "data_ok E rd R" "\<forall>m \<in> set allMappings. owned E m"
  shows "data_ok E rd R'"
proof -
  note A = apply_reconciler [OF assms(1,3,2)]
  have fr: "apply_frame R R'" using A by blast
  note F = apply_frameD [OF fr]
  have last_ok: "owned E m" if "m \<in> set (mgetd [] (lastAppliedByVMID R') v)" for m v
  proof (cases "err = None")
    case True
    then have "mget (lastAppliedByVMID R') v =
          (if v \<in> set (active_ids R) \<and> wanted_vm rd allMappings source R v \<noteq> []
           then Some (wanted_vm rd allMappings source R v) else None)" using A by blast
    then show ?thesis using that wanted_vm_storable [OF assms(4,5)] by (auto simp: mgetd_def split: if_splits)
  next
    case False
    then show ?thesis using A that data_okD(3) [OF assms(4)] by simp
  qed
  have view: "backup_view rd (backup R') v = backup_view rd (res_backup (resolve_all rd allMappings source R)) v" for v
    using A by blast
  have "backup_ok rd (backup R')" using A data_okD(1) [OF assms(4)] by blast
  then show ?thesis
    using last_ok resolved_backup_storable [OF assms(3-5)] data_okD(2,5) [OF assms(4)]
    unfolding data_ok_def view by (auto simp: cachedMappings_def F)
qed

section \<open>What can be advertised\<close>

lemma advertise_new_set:
  "set (advertisedIPs (fst (snd (advertise_new d ips (R, w))))) \<subseteq> set (advertisedIPs R) \<union> set ips"
proof (induction ips arbitrary: R w)
  case (Cons ip ips)
  obtain err w1 where call: "FrrAdvertise d ip w = (err, w1)" by fastforce
  show ?case
    using Cons.IH [of "R\<lparr>advertisedIPs := advertisedIPs R @ [ip]\<rparr>" w1] Cons.IH [of R w1] Cons.IH [of R w] call
    by (cases err) (auto split: prod.splits)
qed simp

lemma withdraw_old_set:
  "set (advertisedIPs (fst (snd (withdraw_old d desired ips (R, w))))) \<subseteq> set (advertisedIPs R)"
proof (induction ips arbitrary: R w)
  case (Cons ip ips)
  obtain err w1 where call: "FrrWithdraw d ip w = (err, w1)" by fastforce
  show ?case
    using Cons.IH [of "R\<lparr>advertisedIPs := filter (\<lambda>a. a \<noteq> ip) (advertisedIPs R)\<rparr>" w1] Cons.IH [of R w1]
      Cons.IH [of R w] call
    by (cases err) (auto split: prod.splits)
qed simp

lemma adopt_set:
  "set (advertisedIPs (fst (adoptKernelStateLocked d managed (R, w)))) \<subseteq> set (advertisedIPs R) \<union> set managed"
  by (auto simp: adoptKernelStateLocked_def split: prod.splits sum.splits)

lemma reconcileBGP_set:
  assumes "reconcileBGP d desired managed (R, w) = (err, R', w')"
  shows "set (advertisedIPs R') \<subseteq> set (advertisedIPs R) \<union> set desired \<union> set managed"
proof -
  define s1 where "s1 = (if \<not> kernelSynced R \<and> 0 < length managed
      then adoptKernelStateLocked d managed (R, w) else (R, w))"
  obtain R1 w1 where s1: "s1 = (R1, w1)" by fastforce
  have 1: "set (advertisedIPs R1) \<subseteq> set (advertisedIPs R) \<union> set managed"
    using s1 adopt_set [of d managed R w] by (auto simp: s1_def split: if_splits)
  obtain errs1 R2 w2 where a: "advertise_new d desired (R1, w1) = (errs1, R2, w2)"
    by (metis prod.exhaust)
  obtain errs2 R3 w3 where b: "withdraw_old d desired (advertisedIPs R2) (R2, w2) = (errs2, R3, w3)"
    by (metis prod.exhaust)
  have "R' = R3"
    using assms unfolding reconcileBGP_def fst_conv s1_def [symmetric] s1 Let_def a prod.case b by simp
  then show ?thesis
    using 1 advertise_new_set [of d desired R1 w1] withdraw_old_set [of d desired "advertisedIPs R2" R2 w2]
    by (auto simp: a b)
qed

lemma program_host_set:
  assumes "program_host d unchanged first ms desired managed applied (R, w) = (err, R', w')"
  shows "set (advertisedIPs R') \<subseteq> set (advertisedIPs R) \<union> set desired \<union> set managed"
proof (cases first)
  case True
  obtain e1 R1 w1 where b: "reconcileBGP d desired managed (R, w) = (e1, R1, w1)" by (metis prod.exhaust)
  obtain e2 R2 w2 where n: "apply_nft d unchanged ms (R1, w1) = (e2, R2, w2)" by (metis prod.exhaust)
  show ?thesis using assms True b n reconcileBGP_set [OF b] apply_nft_frame [OF n]
    by (auto simp: program_host_def split: if_splits)
next
  case False
  obtain e2 R2 w2 where n: "apply_nft d unchanged ms (R, w) = (e2, R2, w2)" by (metis prod.exhaust)
  obtain e1 R1 w1 where b: "reconcileBGP d desired managed (R2, w2) = (e1, R1, w1)" by (metis prod.exhaust)
  show ?thesis using assms False b n reconcileBGP_set [OF b] apply_nft_frame [OF n]
    by (auto simp: program_host_def split: if_splits)
qed

lemma apply_advertised:
  assumes "applyMappingsTimed d allMappings source (R, w) = (err, R', w')" and "ReadBackup d w = rd"
    and "store_wf (store R)"
  shows "set (advertisedIPs R') \<subseteq> set (advertisedIPs R) \<union>
    ExternalIP ` set (wanted rd allMappings source R) \<union> set (managed_of rd allMappings source R)"
proof -
  let ?r = "resolve_all rd allMappings source R"
  obtain unchanged first R2 where
    prog: "program_host d unchanged first (sortMappings (res_nft ?r)) (res_bgp ?r)
       (managed_of rd allMappings source R) (res_applied ?r) (R2, w) = (err, R', w')"
    and "advertisedIPs R2 = advertisedIPs R"
    by (rule apply_decompose [OF assms(1)], unfold assms(2)) blast
  then show ?thesis using program_host_set [OF prog] resolve_all_spec(2) [OF assms(3), of rd allMappings source] by simp
qed

lemma managed_owned:
  assumes "store_wf (store R)" "data_ok E rd R" "\<forall>m \<in> set allMappings. owned E m"
  shows "set (managed_of rd allMappings source R) \<subseteq> E"
proof
  fix a
  let ?R = "R\<lparr>backup := res_backup (resolve_all rd allMappings source R)\<rparr>"
  assume "a \<in> set (managed_of rd allMappings source R)"
  then have "a \<in> set (fst (managedIPs rd ?R))" by (auto simp: managed_of_def split: if_splits)
  moreover have "cachedMappings ?R = cachedMappings R" by (simp add: cachedMappings_def)
  ultimately obtain m where "a = ExternalIP m" "m \<in> set (cachedMappings R) \<or>
      (\<exists>v ms. backup_view rd (res_backup (resolve_all rd allMappings source R)) v = Inr (Some ms) \<and> m \<in> set ms)"
    using managedIPs_views [of a rd ?R] by force
  then have "owned E m" using data_okD(2) [OF assms(2)] resolved_backup_storable [OF assms] by blast
  with \<open>a = ExternalIP m\<close> show "a \<in> E" by (simp add: owned_def)
qed

lemma wanted_owned:
  assumes "data_ok E rd R" "\<forall>m \<in> set allMappings. owned E m"
  shows "ExternalIP ` set (wanted rd allMappings source R) \<subseteq> E"
  using wanted_vm_storable [OF assms] by (auto simp: wanted_def owned_def)

section \<open>Deltas keep the data sound\<close>

definition stored_ok :: "Addr set \<Rightarrow> Reconciler \<Rightarrow> bool" where
  "stored_ok E R \<longleftrightarrow>
     (\<forall>k ms. mget (mappingByVMID R) k = Some ms \<longrightarrow> (\<forall>m \<in> set ms. owned E m)) \<and>
     (\<forall>n ms. mget (mappingPendingByName R) n = Some ms \<longrightarrow> (\<forall>m \<in> set ms. owned E m)) \<and>
     (\<forall>n k. mget (vmIDByName R) n = Some k \<longrightarrow> in_int64 k)"

lemma stored_ok_cached:
  assumes "cache_inv R"
  shows "stored_ok E R \<longleftrightarrow> (\<forall>m \<in> set (cachedMappings R). owned E m) \<and>
    (\<forall>n k. mget (vmIDByName R) n = Some k \<longrightarrow> in_int64 k)"
proof -
  have k: "mkeys_ok (mappingByVMID R)" "mkeys_ok (mappingPendingByName R)"
    using assms by (simp_all add: cache_inv_def)
  show ?thesis
    unfolding stored_ok_def mget_iff_mem [OF k(1)] mget_iff_mem [OF k(2)] cachedMappings_def by fastforce
qed

lemma storable_vmid: "owned E m \<Longrightarrow> in_int64 v \<Longrightarrow> owned E (m\<lparr>VMProxmoxVMID := v\<rparr>)"
  by (simp add: owned_def storable_def)

lemma stored_ok_claim: "stored_ok E R \<Longrightarrow> delta_ok E d \<Longrightarrow> stored_ok E (claim_pending d R)"
  by (auto simp: stored_ok_def claim_pending_def delta_ok_def Let_def gomap_simps storable_vmid
      split: option.splits if_splits)

lemma stored_ok_drop: "stored_ok E R \<Longrightarrow> stored_ok E (drop_entries v n R)"
  by (auto simp: stored_ok_def drop_entries_def gomap_simps split: if_splits)

lemma stored_ok_forget:
  assumes "stored_ok E R" "cache_inv R"
  shows "stored_ok E (forget_vm v R)"
proof -
  have k: "mkeys_ok (vmIDByName R)" "mkeys_ok (filter (\<lambda>(_, j). j \<noteq> v) (vmIDByName R))"
    using assms(2) by (simp_all add: cache_inv_def)
  have ids: "in_int64 k" if "mget (filter (\<lambda>(_, j). j \<noteq> v) (vmIDByName R)) n = Some k" for n k
  proof -
    have "(n, k) \<in> set (vmIDByName R)" using that unfolding mget_iff_mem [OF k(2)] by simp
    then show ?thesis using assms(1) unfolding mget_iff_mem [OF k(1), symmetric] by (simp add: stored_ok_def)
  qed
  then show ?thesis
    using assms(1) by (auto simp: stored_ok_def forget_vm_def Let_def gomap_simps mget_filter_key split: if_splits)
qed

lemma stored_ok_store:
  "stored_ok E R \<Longrightarrow> \<forall>m \<in> set ms. owned E m \<Longrightarrow> in_int64 v \<Longrightarrow> stored_ok E (store_entries v n ms R)"
  by (auto simp: stored_ok_def store_entries_def Let_def gomap_simps split: if_splits)

lemma delta_vmid_int64: "stored_ok E R \<Longrightarrow> delta_ok E d \<Longrightarrow> in_int64 (delta_vmid d n R)"
  by (auto simp: delta_vmid_def delta_ok_def stored_ok_def mgetd_def in_int64_def split: option.splits)

lemma delta_entries_storable:
  assumes "delta_ok E d" "parseIPorCIDR (DeltaInternalIP d) = Some ip" "in_int64 v" "valid_utf8 n"
  shows "\<forall>m \<in> set (delta_entries d ip v n). owned E m"
proof -
  have "Is4 ip" using assms(1,2) by (auto simp: delta_ok_def)
  moreover have "Is4 a \<and> a \<in> E" if "a \<in> set (List.map_filter parseIPorCIDR (NATOutside d))" for a
    using that assms(1) by (auto simp: delta_ok_def set_map_filter)
  ultimately show ?thesis using assms(3,4) by (auto simp: delta_entries_def owned_def storable_def)
qed

lemma stored_ok_delta:
  assumes "stored_ok E R" "delta_ok E d" "cache_inv R"
  shows "stored_ok E (applyDeltaToCache d R)"
proof -
  let ?R = "claim_pending d R"
  have R: "stored_ok E ?R" using assms(1,2) by (rule stored_ok_claim)
  have v: "in_int64 (delta_vmid d n ?R)" for n using R assms(2) by (rule delta_vmid_int64)
  have utf: "valid_utf8 (TrimSpace (DeltaVMName d))" using assms(2) by (simp add: delta_ok_def)
  have entries: "stored_ok E (store_entries (delta_vmid d n ?R) n (delta_entries d ip (delta_vmid d n ?R) n) ?R)"
    if "parseIPorCIDR (DeltaInternalIP d) = Some ip" "n = TrimSpace (DeltaVMName d)" for ip n
    using stored_ok_store [OF R delta_entries_storable [OF assms(2) that(1) v] v] utf that(2) by simp
  have "stored_ok E (Q\<lparr>mappingPendingByName := mdel n (mappingPendingByName Q)\<rparr>)" if "stored_ok E Q" for Q n
    using that by (auto simp: stored_ok_def gomap_simps split: if_splits)
  then show ?thesis
    using R stored_ok_forget [OF R cache_inv_claim [OF assms(3)]] stored_ok_drop [OF R] entries
    by (auto simp: applyDeltaToCache_def Let_def split: option.split)
qed

lemma sync_views:
  assumes "delta_ok E d" "backup_ok rd (backup R)" "stored_ok E R"
    and "\<And>v ms m. backup_view rd (backup R) v = Inr (Some ms) \<Longrightarrow> m \<in> set ms \<Longrightarrow> owned E m"
    and "backup_view rd (backup (syncBackupFromDelta rd d R)) v = Inr (Some ms)" "m \<in> set ms"
  shows "owned E m"
proof -
  let ?v = "delta_vmid d (DeltaVMName d) R"
  obtain res b where l: "load_backup rd ?v (backup R) = (res, b)" by fastforce
  have vb: "backup_view rd b u = backup_view rd (backup R) u" for u
    using load_load [of rd u ?v "backup R"] by (simp add: l)
  have okb: "backup_ok rd b" using backup_ok_load [OF assms(2), of ?v] by (simp add: l)
  have keep: "owned E m" if "backup_view rd b u = Inr (Some ms)" "m \<in> set ms" for u ms m
    using assms(4) that by (simp add: vb)
  define G where "G c \<longleftrightarrow> (\<forall>u ms m. backup_view rd c u = Inr (Some ms) \<longrightarrow> m \<in> set ms \<longrightarrow> owned E m)" for c
  have del: "G (delete_backup ?v c)" if "backup_ok rd c" "G c" for c
    unfolding G_def
  proof (intro allI impI)
    fix u ms m
    assume "backup_view rd (delete_backup ?v c) u = Inr (Some ms)" "m \<in> set ms"
    then show "owned E m"
      using that(2) bk.load_delete [OF that(1), of ?v] bk.load_delete_other [of u ?v rd c]
      unfolding G_def by (cases "u = ?v") auto
  qed
  have save: "owned E m" if "ups \<noteq> []" "\<forall>m \<in> set ups. owned E m"
      "backup_view rd (save_backup ?v ups b) u = Inr (Some ms)" "m \<in> set ms" for ups u ms m
  proof -
    have "\<forall>m \<in> set ups. storable m" using that(2) owned_storable by blast
    then show ?thesis
      using that(2-4) bk.load_save [OF okb that(1), of ?v] bk.load_save_other [of u ?v rd ups b] keep
      by (cases "u = ?v") auto
  qed
  have fresh: "\<forall>m \<in> set (delta_entries d ip ?v (DeltaVMName d)). owned E m"
    if "parseIPorCIDR (DeltaInternalIP d) = Some ip" for ip
  proof -
    have "valid_utf8 (DeltaVMName d)" using assms(1) by (simp add: delta_ok_def)
    from delta_entries_storable [OF assms(1) that delta_vmid_int64 [OF assms(3,1)] this] show ?thesis .
  qed
  have old: "\<forall>m \<in> set (case found of None \<Rightarrow> [] | Some ms \<Rightarrow> ms). owned E m" if "res = Inr found" for found
    using that assms(4) [of ?v] by (auto simp: l split: option.splits)
  have G0: "G (backup R)" "G b" using assms(4) keep unfolding G_def by blast+
  note G = G0 del [OF assms(2) G0(1)] del [OF okb G0(2)]
  have Gs: "G (save_backup ?v ups b)" if "ups \<noteq> []" "\<forall>m \<in> set ups. owned E m" for ups
    using save [OF that] unfolding G_def by blast
  have "G (backup (syncBackupFromDelta rd d R))"
  proof (cases "parseIPorCIDR (DeltaInternalIP d)")
    case None
    then show ?thesis by (simp add: syncBackupFromDelta_def Let_def G split: option.split)
  next
    case (Some ip)
    show ?thesis
    proof (cases res)
      case (Inl e)
      then show ?thesis using Some by (simp add: syncBackupFromDelta_def Let_def l G split: option.split)
    next
      case (Inr found)
      define ups where "ups = filter (sync_keep d ip) (case found of None \<Rightarrow> [] | Some ms \<Rightarrow> ms) @
           (if normalized (Event d) \<noteq> ''deleted'' then delta_entries d ip ?v (DeltaVMName d) else [])"
      have "\<forall>m \<in> set ups. owned E m" unfolding ups_def using fresh [OF Some] old [OF Inr] by auto
      then have "G (save_backup ?v ups b)" if "ups \<noteq> []" using Gs that by blast
      then show ?thesis using Some Inr
        by (simp add: syncBackupFromDelta_def Let_def l G ups_def [symmetric] split: option.split)
          (auto simp: ups_def)
    qed
  qed
  then show ?thesis using assms(5,6) unfolding G_def by blast
qed

section \<open>The steps of the daemon\<close>

text \<open>
  A full reconcile in its two halves: the fetch, and what \<open>reconcile\<close> does with its
  result. Between them other steps may run.
\<close>

definition finish_reconcile ::
  "'w deps \<Rightarrow> gtime \<Rightarrow> gerror + NATMapping list \<Rightarrow> Reconciler \<times> 'w \<Rightarrow> gerror option \<times> Reconciler \<times> 'w" where
  "finish_reconcile d now res s =
     (case res of
        Inl err \<Rightarrow> applyMappings d [] sourceBackupFallback s
      | Inr allMappings \<Rightarrow>
          (case s of (R, w) \<Rightarrow>
             applyMappings d allMappings sourceFullFetch
               (rebuildMappingCache allMappings (R\<lparr>lastFullFetch := now, lastActiveKey := activeStateKey R\<rparr>), w)))"

lemma reconcile_halves:
  "reconcile d now (R, w) =
     (case FetchNATMappings d w of (res, w') \<Rightarrow> finish_reconcile d now res (R, w'))"
  by (auto simp: reconcile_def finish_reconcile_def split: prod.split sum.split)

text \<open>
  The state: the reconciler, the world, and the result of a fetch that is not yet applied.
  The loop \<open>Run\<close> takes one case of its \<open>select\<close> at a time; the handlers of events, of the
  webhook server and of the timer run beside it.
\<close>

type_synonym 'w dstate = "Reconciler \<times> 'w \<times> (gerror + NATMapping list) option"

datatype dlabel =
  LEvent gtime string CloudEvent
| LOffer WebhookDelta
| LTrigger
| LVerify
| LTick gtime
| LDelta gtime
| LFetch
| LApply gtime

inductive dstep :: "'w deps \<Rightarrow> dlabel \<Rightarrow> 'w dstate \<Rightarrow> 'w dstate \<Rightarrow> bool" for d where
  event: "HandleEvent d now subject evt (R, w) = (R', w') \<Longrightarrow>
    dstep d (LEvent now subject evt) (R, w, f) (R', w', f)"
| offer: "ApplyWebhookDelta delta R = (accepted, R') \<Longrightarrow>
    dstep d (LOffer delta) (R, w, f) (if accepted then R' else TriggerReconcile R', w, f)"
| trigger: "dstep d LTrigger (R, w, f) (TriggerReconcile R, w, f)"
| verify: "verifyPending R \<Longrightarrow> dstep d LVerify (R, w, f) (verify_fires R, w, f)"
| tick: "dstep d (LTick now) (R, w, None) (TriggerReconcile (expireStagedVMs now R), w, None)"
| delta: "webhookDeltaCh R = delta # rest \<Longrightarrow>
    reconcileFromWebhookDelta d now delta (R\<lparr>webhookDeltaCh := rest\<rparr>, w) = (err, R', w') \<Longrightarrow>
    dstep d (LDelta now) (R, w, None) (R', w', None)"
| fetch: "reconcileCh R \<Longrightarrow> FetchNATMappings d w = (res, w') \<Longrightarrow>
    dstep d LFetch (R, w, None) (R\<lparr>reconcileCh := False\<rparr>, w', Some res)"
| finish: "finish_reconcile d now res (R, w) = (err, R', w') \<Longrightarrow>
    dstep d (LApply now) (R, w, Some res) (R', w', None)"

inductive_cases dstepE: "dstep d l s s'"

inductive dsteps :: "'w deps \<Rightarrow> dlabel list \<Rightarrow> 'w dstate \<Rightarrow> 'w dstate \<Rightarrow> bool" for d where
  none: "dsteps d [] s s"
| more: "dstep d l s s' \<Longrightarrow> dsteps d ls s' s'' \<Longrightarrow> dsteps d (l # ls) s s''"

section \<open>The invariant\<close>

text \<open>
  Without \<open>strict\<close> the fingerprint is left out: that is what holds between any two single
  steps of the threads (\<open>Interleaving\<close>).
\<close>

definition daemon_inv_on ::
  "bool \<Rightarrow> Addr set \<Rightarrow> (int \<Rightarrow> read_result) \<Rightarrow> ('w \<Rightarrow> Addr set) \<Rightarrow> ('w \<Rightarrow> string option) \<Rightarrow> Reconciler \<Rightarrow> 'w \<Rightarrow> bool" where
  "daemon_inv_on strict E rd addrs table R w \<longleftrightarrow>
     store_wf (store R) \<and> cache_inv R \<and> data_ok E rd R \<and>
     adv_inv addrs R w \<and> (strict \<longrightarrow> nft_inv table R w) \<and>
     set (advertisedIPs R) \<subseteq> E \<and> length (webhookDeltaCh R) \<le> webhookDeltaCap \<and> list_all (delta_ok E) (webhookDeltaCh R)"

abbreviation daemon_inv ::
  "Addr set \<Rightarrow> (int \<Rightarrow> read_result) \<Rightarrow> ('w \<Rightarrow> Addr set) \<Rightarrow> ('w \<Rightarrow> string option) \<Rightarrow> Reconciler \<Rightarrow> 'w \<Rightarrow> bool" where
  "daemon_inv \<equiv> daemon_inv_on True"

lemma daemon_inv_def:
  "daemon_inv E rd addrs table R w \<longleftrightarrow>
     store_wf (store R) \<and> cache_inv R \<and> data_ok E rd R \<and> host_inv addrs table R w \<and>
     set (advertisedIPs R) \<subseteq> E \<and> length (webhookDeltaCh R) \<le> webhookDeltaCap \<and> list_all (delta_ok E) (webhookDeltaCh R)"
  by (auto simp: daemon_inv_on_def host_inv_def)

text \<open>What a step may do to the host: addresses outside \<open>E\<close> stay, and the table stays or
  becomes the ruleset of mappings of \<open>E\<close>.\<close>

definition touches ::
  "Addr set \<Rightarrow> ('w \<Rightarrow> Addr set) \<Rightarrow> ('w \<Rightarrow> string option) \<Rightarrow> 'w \<Rightarrow> 'w \<Rightarrow> bool" where
  "touches E addrs table w w' \<longleftrightarrow> addrs w' - E = addrs w - E \<and>
     (table w' = table w \<or> (\<exists>ms. table w' = Some (render ms) \<and> (\<forall>m \<in> set ms. owned E m)))"

lemma touches_refl [simp]: "touches E addrs table w w"
  by (simp add: touches_def)

lemma touches_trans: "touches E addrs table u v \<Longrightarrow> touches E addrs table v w \<Longrightarrow> touches E addrs table u w"
  by (auto simp: touches_def)

lemma touches_same:
  "addrs v = addrs u \<Longrightarrow> table v = table u \<Longrightarrow> touches E addrs table u w = touches E addrs table v w"
  "addrs v = addrs u \<Longrightarrow> table v = table u \<Longrightarrow> touches E addrs table w u = touches E addrs table w v"
  by (simp_all add: touches_def)

definition fetched_ok :: "Addr set \<Rightarrow> (gerror + NATMapping list) option \<Rightarrow> bool" where
  "fetched_ok E f \<longleftrightarrow> (\<forall>ms. f = Some (Inr ms) \<longrightarrow> (\<forall>m \<in> set ms. owned E m))"

fun label_ok :: "Addr set \<Rightarrow> dlabel \<Rightarrow> bool" where
  "label_ok E (LOffer delta) \<longleftrightarrow> delta_ok E delta"
| "label_ok E _ \<longleftrightarrow> True"

lemma daemon_inv_signals:
  "daemon_inv_on strict E rd addrs table (R\<lparr>reconcileCh := b\<rparr>) w = daemon_inv_on strict E rd addrs table R w"
  "daemon_inv_on strict E rd addrs table (R\<lparr>verifyPending := b\<rparr>) w = daemon_inv_on strict E rd addrs table R w"
  "daemon_inv_on strict E rd addrs table (R\<lparr>lastFullFetch := t, lastActiveKey := k\<rparr>) w = daemon_inv_on strict E rd addrs table R w"
  "daemon_inv_on strict E rd addrs table (TriggerReconcile R) w = daemon_inv_on strict E rd addrs table R w"
  "daemon_inv_on strict E rd addrs table (verifyLater R) w = daemon_inv_on strict E rd addrs table R w"
  by (simp_all add: daemon_inv_on_def cache_inv_def data_ok_def cachedMappings_def host_inv_def adv_inv_def
      nft_inv_def TriggerReconcile_def verifyLater_def)

lemma daemon_inv_store:
  "daemon_inv_on strict E rd addrs table R w \<Longrightarrow> store_wf st \<Longrightarrow> daemon_inv_on strict E rd addrs table (R\<lparr>store := st\<rparr>) w"
  by (simp add: daemon_inv_on_def cache_inv_def data_ok_def cachedMappings_def host_inv_def adv_inv_def nft_inv_def)

lemma place_wf: "store_wf st \<Longrightarrow> store_wf (place p d t st)"
  by (cases p) (simp_all add: store_wf_SetStaged store_wf_UpdateFromSnapshot SetActive_def SetAbsent_def
      store_wf_store_set Let_def)

lemma daemon_inv_rebuild:
  assumes "daemon_inv_on strict E rd addrs table R w" "\<forall>m \<in> set ms. owned E m"
  shows "daemon_inv_on strict E rd addrs table (rebuildMappingCache ms R) w"
proof -
  have cached: "owned E m" if m: "m \<in> set (cachedMappings (rebuildMappingCache ms R))" for m
  proof -
    have "m \<in> set (filter (\<lambda>x. VMProxmoxVMID x = VMProxmoxVMID m) (cachedMappings (rebuildMappingCache ms R)))"
      using m by simp
    then show ?thesis unfolding cached_after_rebuild using assms(2) by simp
  qed
  have ids: "in_int64 k"
    if "\<forall>n k. mget g n = Some k \<longrightarrow> in_int64 k" "\<forall>m \<in> set ms. in_int64 (VMProxmoxVMID m)"
      "mget (fold (\<lambda>m ids. if VMName m \<noteq> [] then mput (VMName m) (VMProxmoxVMID m) ids else ids) ms g) n = Some k"
    for g n k
    using that
  proof (induction ms arbitrary: g)
    case (Cons m ms)
    let ?g = "if VMName m \<noteq> [] then mput (VMName m) (VMProxmoxVMID m) g else g"
    have "\<forall>n k. mget ?g n = Some k \<longrightarrow> in_int64 k" using Cons.prems(1,2) by (auto simp: gomap_simps)
    from Cons.IH [OF this] Cons.prems(2,3) show ?case by simp
  qed simp
  have "in_int64 k" if "mget (vmIDByName (rebuildMappingCache ms R)) n = Some k" for n k
    using that assms(2) by (intro ids [of "[]"]) (auto simp: rebuildMappingCache_def owned_def storable_def)
  then show ?thesis
    using assms(1) cached cache_inv_rebuild [of ms R]
    by (simp add: daemon_inv_on_def data_ok_def host_inv_def adv_inv_def nft_inv_def)
      (simp add: rebuildMappingCache_def)
qed

context host begin

lemma program_host_weak:
  assumes "program_host d unchanged first ms desired managed applied (R, w) = (err, R', w')"
    and "ok w" "adv_inv addrs R w" "\<forall>a \<in> set desired. Is4 a" "\<forall>a \<in> set managed. Is4 a"
  shows "ok w' \<and> adv_inv addrs R' w' \<and> (table w' = table w \<or> table w' = Some (render ms)) \<and>
    (\<forall>a. a \<notin> set (advertisedIPs R) \<and> a \<notin> set desired \<and> a \<notin> set managed \<longrightarrow> (a \<in> addrs w') = (a \<in> addrs w))"
proof -
  have nft: "ok v' \<and> addrs v' = addrs v \<and> advertisedIPs Q' = advertisedIPs Q \<and> (table v' = table v \<or> table v' = Some (render ms))"
    if "apply_nft d unchanged ms (Q, v) = (e, Q', v')" "ok v" for Q v e Q' v'
    using that nf.apply_rules [OF that(2)] apply_addrs [OF that(2)]
    by (fastforce simp: apply_nft_def split: if_splits prod.splits option.splits)
  show ?thesis
  proof (cases first)
    case True
    obtain e1 R1 w1 where b: "reconcileBGP d desired managed (R, w) = (e1, R1, w1)" by (metis prod.exhaust)
    obtain e2 R2 w2 where n: "apply_nft d unchanged ms (R1, w1) = (e2, R2, w2)" by (metis prod.exhaust)
    note B = reconcileBGP_spec [OF b assms(2-5)]
    then have N: "ok w2 \<and> addrs w2 = addrs w1 \<and> advertisedIPs R2 = advertisedIPs R1 \<and>
        (table w2 = table w1 \<or> table w2 = Some (render ms))" using nft [OF n] by blast
    have "R' = (if e2 = None then R2\<lparr>lastAppliedByVMID := applied\<rparr> else R2)" "w' = w2"
      using assms(1) True b n by (auto simp: program_host_def split: if_splits)
    then show ?thesis using B N by (auto simp: adv_inv_def)
  next
    case False
    obtain e2 R2 w2 where n: "apply_nft d unchanged ms (R, w) = (e2, R2, w2)" by (metis prod.exhaust)
    note N = nft [OF n assms(2)]
    then have inv2: "adv_inv addrs R2 w2" using assms(3) by (simp add: adv_inv_def)
    obtain e1 R1 w1 where b: "reconcileBGP d desired managed (R2, w2) = (e1, R1, w1)" by (metis prod.exhaust)
    have "ok w2" using N by blast
    note B = reconcileBGP_spec [OF b this inv2 assms(4,5)]
    have "R' = (if e2 = None then R1\<lparr>lastAppliedByVMID := applied\<rparr> else R2)" "w' = (if e2 = None then w1 else w2)"
      using assms(1) False b n by (auto simp: program_host_def split: if_splits)
    then show ?thesis using B N inv2 by (cases "e2 = None") (auto simp: adv_inv_def)
  qed
qed

lemma apply_weak:
  assumes "applyMappingsTimed d allMappings source (R, w) = (err, R', w')" and "ok w" "adv_inv addrs R w"
    and "apply_input_ok (ReadBackup d w) allMappings source R"
  shows "ok w' \<and> adv_inv addrs R' w' \<and>
    (table w' = table w \<or> table w' = Some (render (sortMappings (wanted (ReadBackup d w) allMappings source R)))) \<and>
    (\<forall>a. a \<notin> set (advertisedIPs R) \<and> a \<notin> ExternalIP ` set (wanted (ReadBackup d w) allMappings source R) \<and>
         a \<notin> set (managed_of (ReadBackup d w) allMappings source R) \<longrightarrow> (a \<in> addrs w') = (a \<in> addrs w))"
proof -
  let ?rd = "ReadBackup d w"
  let ?r = "resolve_all ?rd allMappings source R"
  have wf: "store_wf (store R)" using assms(4) by (simp add: apply_input_ok_def)
  note r = resolve_all_spec [OF wf, where rd = ?rd and allMappings = allMappings and source = source]
  obtain unchanged first R2 where
    prog: "program_host d unchanged first (sortMappings (res_nft ?r)) (res_bgp ?r)
       (managed_of ?rd allMappings source R) (res_applied ?r) (R2, w) = (err, R', w')"
    and adv: "advertisedIPs R2 = advertisedIPs R"
    by (rule apply_decompose [OF assms(1)]) blast
  have "adv_inv addrs R2 w" using assms(3) adv by (simp add: adv_inv_def)
  moreover have "\<forall>a \<in> set (res_bgp ?r). Is4 a" "\<forall>a \<in> set (managed_of ?rd allMappings source R). Is4 a"
    using assms(4) by (auto simp: r(2) apply_input_ok_def addressed_def)
  ultimately show ?thesis using program_host_weak [OF prog assms(2)] by (simp add: r(1,2) adv)
qed

lemma apply_inv:
  assumes "applyMappingsTimed d allMappings source (R, w) = (err, R', w')" and "ok w"
    and "ReadBackup d w = rd" and "daemon_inv_on strict E rd addrs table R w" and "\<forall>m \<in> set allMappings. owned E m"
  shows "ok w' \<and> daemon_inv_on strict E rd addrs table R' w' \<and> touches E addrs table w w'"
proof -
  have wf: "store_wf (store R)" and data: "data_ok E rd R" and inv: "adv_inv addrs R w"
    using assms(4) by (simp_all add: daemon_inv_on_def)
  have input: "apply_input_ok (ReadBackup d w) allMappings source R"
    using input_ok [OF wf data assms(5)] assms(3) by simp
  note W = apply_weak [OF assms(1,2) inv input, unfolded assms(3)]
  have fr: "apply_frame R R'" using apply_reconciler [OF assms(1) wf assms(3)] by blast
  note F = apply_frameD [OF fr]
  have data': "data_ok E rd R'" by (rule data_ok_apply [OF assms(1,3) wf data assms(5)])
  have adv: "set (advertisedIPs R) \<subseteq> E" using assms(4) by (simp add: daemon_inv_on_def)
  have want: "ExternalIP ` set (wanted rd allMappings source R) \<subseteq> E" by (rule wanted_owned [OF data assms(5)])
  have man: "set (managed_of rd allMappings source R) \<subseteq> E" by (rule managed_owned [OF wf data assms(5)])
  have "a \<in> addrs w' \<longleftrightarrow> a \<in> addrs w" if "a \<notin> E" for a
    using that adv want man W by (metis subsetD)
  then have "addrs w' - E = addrs w - E" by blast
  moreover have "\<forall>m \<in> set (sortMappings (wanted rd allMappings source R)). owned E m"
    using wanted_vm_storable [OF data assms(5)] by (auto simp: wanted_def)
  ultimately have touch: "touches E addrs table w w'" using W unfolding touches_def by blast
  have "nft_inv table R' w'" if "strict"
  proof -
    have "host_inv addrs table R w" using assms(4) that by (simp add: daemon_inv_on_def host_inv_def)
    from apply_spec [OF assms(1,2) this input] show ?thesis by (simp add: host_inv_def)
  qed
  moreover have "set (advertisedIPs R') \<subseteq> E"
    by (rule subset_trans [OF apply_advertised [OF assms(1,3) wf]]) (intro Un_least adv want man)
  ultimately show ?thesis using F W data' touch assms(4) by (simp add: daemon_inv_on_def cache_inv_def)
qed

lemma cached_inv:
  assumes "applyCachedImmediately d source (R, w) = (fast, R', w')" and "ok w"
    and "ReadBackup d w = rd" and "daemon_inv_on strict E rd addrs table R w"
  shows "ok w' \<and> daemon_inv_on strict E rd addrs table R' w' \<and> touches E addrs table w w'"
proof (cases "mappingCacheReady R")
  case True
  obtain err where call: "applyMappingsTimed d (cachedMappings R) (sourceCached source) (R, w) = (err, R', w')"
    using assms(1) True by (cases "applyMappingsTimed d (cachedMappings R) (sourceCached source) (R, w)")
      (auto simp: applyCachedImmediately_def)
  have "\<forall>m \<in> set (cachedMappings R). owned E m"
    using assms(4) by (simp add: daemon_inv_on_def data_ok_def)
  from apply_inv [OF call assms(2-4) this] show ?thesis .
next
  case False
  then show ?thesis using assms by (simp add: applyCachedImmediately_def)
qed

lemma apply_or_trigger_inv:
  assumes "apply_or_trigger d source (R, w) = (R', w')" and "ok w"
    and "ReadBackup d w = rd" and "daemon_inv_on strict E rd addrs table R w"
  shows "ok w' \<and> daemon_inv_on strict E rd addrs table R' w' \<and> touches E addrs table w w'"
proof -
  obtain fast R1 w1 where call: "applyCachedImmediately d source (R, w) = (fast, R1, w1)" by (metis prod.exhaust)
  from cached_inv [OF call assms(2-4)] show ?thesis
    using assms(1) call by (auto simp: apply_or_trigger_def daemon_inv_signals split: if_splits)
qed

lemma cutover_inv:
  assumes "cutover d (R, w) = (R', w')" and "ok w"
    and "ReadBackup d w = rd" and "daemon_inv_on strict E rd addrs table R w"
  shows "ok w' \<and> daemon_inv_on strict E rd addrs table R' w' \<and> touches E addrs table w w'"
proof -
  obtain fast R1 w1 where call: "applyCachedImmediately d ''migration-synced-cache'' (R, w) = (fast, R1, w1)"
    by (metis prod.exhaust)
  from cached_inv [OF call assms(2-4)] show ?thesis
    using assms(1) call by (auto simp: cutover_def daemon_inv_signals split: if_splits)
qed

lemma handle_inv:
  assumes "HandleEvent d now subject evt (R, w) = (R', w')" and "ok w"
    and "\<And>w. ReadBackup d w = rd" and "daemon_inv_on strict E rd addrs table R w"
  shows "ok w' \<and> daemon_inv_on strict E rd addrs table R' w' \<and> touches E addrs table w w'"
proof -
  have st: "daemon_inv_on strict E rd addrs table (Q\<lparr>store := place p e t (store Q)\<rparr>) u" if "daemon_inv_on strict E rd addrs table Q u"
    for p e t Q u
    using that by (intro daemon_inv_store place_wf) (simp_all add: daemon_inv_on_def)
  have act: "daemon_inv_on strict E rd addrs table (Q\<lparr>store := SetActive v n t (store Q)\<rparr>) u" if "daemon_inv_on strict E rd addrs table Q u"
    for v n t Q u
    using that by (intro daemon_inv_store) (simp_all add: daemon_inv_on_def SetActive_def store_wf_store_set)
  note h = assms(1) [unfolded HandleEvent_as]
  show ?thesis
  proof (cases "placement_of (node R) subject evt")
    case Inbound
    then have "apply_or_trigger d ''migration-started''
        (R\<lparr>store := place Inbound (CEData evt) (event_time now evt) (store R)\<rparr>, w) = (R', w')"
      using h by simp
    from apply_or_trigger_inv [OF this assms(2,3) st [OF assms(4)]] show ?thesis .
  next
    case (Handover target source)
    let ?e = "CEData evt" and ?t = "event_time now evt"
    obtain R1 w1 where 1: "(if target then cutover d (R\<lparr>store := place (Handover True False) ?e ?t (store R)\<rparr>, w)
        else (R, w)) = (R1, w1)" by fastforce
    have I1: "ok w1 \<and> daemon_inv_on strict E rd addrs table R1 w1 \<and> touches E addrs table w w1"
    proof (cases target)
      case True
      then have "cutover d (R\<lparr>store := place (Handover True False) ?e ?t (store R)\<rparr>, w) = (R1, w1)"
        using 1 by simp
      from cutover_inv [OF this assms(2,3) st [OF assms(4)]] show ?thesis .
    qed (use 1 assms(2,4) in auto)
    have 2: "(if source then cutover d (R1\<lparr>store := place (Handover False True) ?e ?t (store R1)\<rparr>, w1)
        else (R1, w1)) = (R', w')"
      using h 1 by (simp add: Handover Let_def)
    show ?thesis
    proof (cases source)
      case True
      then have c: "cutover d (R1\<lparr>store := place (Handover False True) ?e ?t (store R1)\<rparr>, w1) = (R', w')"
        using 2 by simp
      have "ok w1" "daemon_inv_on strict E rd addrs table R1 w1" using I1 by simp_all
      from cutover_inv [OF c this(1) assms(3) st [OF this(2)]] I1 show ?thesis by (blast intro: touches_trans)
    qed (use 2 I1 in auto)
  next
    case Abandoned
    then have "apply_or_trigger d ''migration-failed-cache''
        (R\<lparr>store := place Abandoned (CEData evt) (event_time now evt) (store R)\<rparr>, w) = (R', w')"
      using h by simp
    from apply_or_trigger_inv [OF this assms(2,3) st [OF assms(4)]] show ?thesis .
  next
    case Started
    then show ?thesis using h assms(2,4) act [OF assms(4)]
      by (auto simp: daemon_inv_signals split: if_splits)
  next
    case Stopped
    then show ?thesis using h assms(2) st [OF assms(4), of Stopped] by (auto simp: daemon_inv_signals)
  next
    case Observed
    then show ?thesis using h assms(2) st [OF assms(4), of Observed] by auto
  next
    case BatchDone
    then show ?thesis using h assms(2,4) by (auto simp: daemon_inv_signals split: if_splits)
  next
    case Irrelevant
    then show ?thesis using h assms(2,4) by auto
  qed
qed

end

lemma daemon_inv_deltas:
  assumes "daemon_inv_on strict E rd addrs table R w" "length ds \<le> webhookDeltaCap" "list_all (delta_ok E) ds"
  shows "daemon_inv_on strict E rd addrs table (R\<lparr>webhookDeltaCh := ds\<rparr>) w"
  using assms by (simp add: daemon_inv_on_def cache_inv_def data_ok_def cachedMappings_def host_inv_def
      adv_inv_def nft_inv_def)

lemma delta_applied_inv:
  assumes "daemon_inv_on strict E rd addrs table R w" and "delta_ok E delta"
  shows "daemon_inv_on strict E rd addrs table (delta_applied rd now delta R) w"
proof -
  let ?R1 = "if mappingCacheReady R then R
        else R\<lparr>mappingByVMID := [], mappingPendingByName := [], vmIDByName := [], mappingCacheReady := True\<rparr>"
  let ?S = "applyDeltaToState now delta ?R1"
  let ?C = "applyDeltaToCache delta ?S"
  have wf: "store_wf (store R)" "cache_inv R" using assms(1) by (simp_all add: daemon_inv_on_def)
  have I1: "daemon_inv_on strict E rd addrs table ?R1 w"
    using assms(1) by (auto simp: daemon_inv_on_def cache_inv_def data_ok_def cachedMappings_def host_inv_def
        adv_inv_def nft_inv_def)
  have "store_wf (store ?S)" using I1 by (intro state_wf) (simp add: daemon_inv_on_def)
  then have IS: "daemon_inv_on strict E rd addrs table ?S w"
    using daemon_inv_store [OF I1] by (subst state_frame) simp
  have cS: "cache_inv ?S" using IS by (simp add: daemon_inv_on_def)
  have sS: "stored_ok E ?S" using IS stored_ok_cached [OF cS] by (simp add: daemon_inv_on_def data_ok_def)
  have cC: "cache_inv ?C" using cS by (rule cache_inv_delta)
  have sC: "stored_ok E ?C" using sS assms(2) cS by (rule stored_ok_delta)
  have fr: "cache_frame ?S ?C" by (rule delta_frame)
  note F = cache_frameD [OF fr]
  obtain b where D: "delta_applied rd now delta R = ?C\<lparr>backup := b\<rparr>"
    unfolding delta_applied_def using sync_frame by blast
  then have b: "b = backup (syncBackupFromDelta rd delta ?C)" by (simp add: delta_applied_def)
  have okC: "backup_ok rd (backup ?C)"
    and viewC: "\<And>v ms m. backup_view rd (backup ?C) v = Inr (Some ms) \<Longrightarrow> m \<in> set ms \<Longrightarrow> owned E m"
    using IS F data_okD(1,4) [of E rd ?S] by (simp_all add: daemon_inv_on_def)
  have "backup_ok rd b" unfolding b by (rule sync_backup_ok [OF okC])
  moreover have "owned E m" if "backup_view rd b v = Inr (Some ms)" "m \<in> set ms" for v ms m
    using sync_views [OF assms(2) okC sC viewC that(1) [unfolded b] that(2)] .
  moreover have "\<forall>m \<in> set (cachedMappings ?C). owned E m" "\<forall>n k. mget (vmIDByName ?C) n = Some k \<longrightarrow> in_int64 k"
    using sC stored_ok_cached [OF cC] by blast+
  moreover have "\<forall>v. \<forall>m \<in> set (mgetd [] (lastAppliedByVMID ?C) v). owned E m"
    using IS F by (simp add: daemon_inv_on_def data_ok_def)
  ultimately have "data_ok E rd (?C\<lparr>backup := b\<rparr>)"
    unfolding data_ok_def cachedMappings_def by simp
  moreover have "webhookDeltaCh ?C = webhookDeltaCh ?S" by (rule F(9))
  ultimately show ?thesis
    unfolding D using IS cC F
    by (simp add: daemon_inv_on_def cache_inv_def host_inv_def adv_inv_def nft_inv_def)
qed

context host begin

lemma webhook_inv:
  assumes "reconcileFromWebhookDelta d now delta (R, w) = (err, R', w')" and "ok w"
    and "\<And>w. ReadBackup d w = rd" and "daemon_inv_on strict E rd addrs table R w" and "delta_ok E delta"
  shows "ok w' \<and> daemon_inv_on strict E rd addrs table R' w' \<and> touches E addrs table w w'"
proof -
  have ID: "daemon_inv_on strict E rd addrs table (delta_applied rd now delta R) w"
    using assms(4,5) by (rule delta_applied_inv)
  have call: "applyMappingsTimed d (cachedMappings (delta_applied rd now delta R)) sourceWebhookDelta
      (delta_applied rd now delta R, w) = (err, R', w')"
    using assms(1,3) by (simp add: reconcileFromWebhookDelta_apply Let_def)
  have "\<forall>m \<in> set (cachedMappings (delta_applied rd now delta R)). owned E m"
    using ID by (simp add: daemon_inv_on_def data_ok_def)
  from apply_inv [OF call assms(2,3) ID this] show ?thesis .
qed

lemma finish_inv:
  assumes "finish_reconcile d now res (R, w) = (err, R', w')" and "ok w"
    and "\<And>w. ReadBackup d w = rd" and "daemon_inv_on strict E rd addrs table R w" and "fetched_ok E (Some res)"
  shows "ok w' \<and> daemon_inv_on strict E rd addrs table R' w' \<and> touches E addrs table w w'"
proof (cases res)
  case (Inl e)
  then have "applyMappingsTimed d [] sourceBackupFallback (R, w) = (err, R', w')"
    using assms(1) by (simp add: finish_reconcile_def applyMappings_def)
  from apply_inv [OF this assms(2,3,4)] show ?thesis by simp
next
  case (Inr ms)
  let ?R = "rebuildMappingCache ms (R\<lparr>lastFullFetch := now, lastActiveKey := activeStateKey R\<rparr>)"
  have ms: "\<forall>m \<in> set ms. owned E m" using assms(5) Inr by (simp add: fetched_ok_def)
  have call: "applyMappingsTimed d ms sourceFullFetch (?R, w) = (err, R', w')"
    using assms(1) Inr by (simp add: finish_reconcile_def applyMappings_def)
  have "daemon_inv_on strict E rd addrs table ?R w"
    using assms(4) by (intro daemon_inv_rebuild ms) (simp add: daemon_inv_signals)
  from apply_inv [OF call assms(2,3) this ms] show ?thesis .
qed

lemma step_inv:
  assumes "dstep d l s s'" and "\<And>w. ReadBackup d w = rd"
    and "\<And>w ms w'. FetchNATMappings d w = (Inr ms, w') \<Longrightarrow> \<forall>m \<in> set ms. owned E m"
    and "ok (fst (snd s))" and "daemon_inv_on strict E rd addrs table (fst s) (fst (snd s))"
    and "fetched_ok E (snd (snd s))" and "label_ok E l"
  shows "ok (fst (snd s')) \<and> daemon_inv_on strict E rd addrs table (fst s') (fst (snd s')) \<and> fetched_ok E (snd (snd s')) \<and>
    touches E addrs table (fst (snd s)) (fst (snd s'))"
  using assms(1)
proof cases
  case (event now subject evt R w R' w' f)
  then show ?thesis using handle_inv [OF event(4) _ assms(2)] assms(4-6) by simp
next
  case (offer delta R accepted R' w f)
  have inv: "daemon_inv_on strict E rd addrs table R w" and dl: "delta_ok E delta" using offer assms(5,7) by simp_all
  have "daemon_inv_on strict E rd addrs table R' w"
  proof (cases "length (webhookDeltaCh R) < webhookDeltaCap")
    case True
    then have "R' = R\<lparr>webhookDeltaCh := webhookDeltaCh R @ [delta]\<rparr>"
      using offer(4) by (simp add: ApplyWebhookDelta_def)
    then show ?thesis using daemon_inv_deltas [OF inv] True dl inv by (simp add: daemon_inv_on_def)
  next
    case False
    then show ?thesis using offer(4) inv by (simp add: ApplyWebhookDelta_def)
  qed
  then show ?thesis using offer assms(4,6) by (simp add: daemon_inv_signals)
next
  case (trigger R w f)
  then show ?thesis using assms(4-6) by (simp add: daemon_inv_signals)
next
  case (verify R w f)
  then show ?thesis using assms(4-6) by (simp add: daemon_inv_signals verify_fires_def)
next
  case (tick now R w)
  have "daemon_inv_on strict E rd addrs table (expireStagedVMs now R) w"
    unfolding expireStagedVMs_def using tick assms(5)
    by (intro daemon_inv_store store_wf_ExpireStaged) (simp_all add: daemon_inv_on_def)
  then show ?thesis using tick assms(4,6) by (simp add: daemon_inv_signals)
next
  case (delta R dl rest now w err R' w')
  have inv: "daemon_inv_on strict E rd addrs table R w" using delta assms(5) by simp
  then have "daemon_inv_on strict E rd addrs table (R\<lparr>webhookDeltaCh := rest\<rparr>) w" "delta_ok E dl"
    using delta(4) by (simp_all add: daemon_inv_deltas daemon_inv_on_def [of _ _ _ _ _ R])
  from webhook_inv [OF delta(5) _ assms(2) this] show ?thesis
    using delta assms(4) by (simp add: fetched_ok_def)
next
  case (fetch R w res w')
  have "ok w" using fetch assms(4) by simp
  from fetch_frame [OF this fetch(5)] have "ok w'" "addrs w' = addrs w" "table w' = table w" by simp_all
  moreover have "daemon_inv_on strict E rd addrs table R w'"
    using fetch assms(5) calculation(2,3) by (simp add: daemon_inv_on_def host_inv_def adv_inv_def nft_inv_def)
  moreover have "fetched_ok E (Some res)" using assms(3) fetch(5) by (auto simp: fetched_ok_def)
  ultimately show ?thesis using fetch by (simp add: daemon_inv_signals touches_def)
next
  case (finish now res R w err R' w')
  then show ?thesis using finish_inv [OF finish(4) _ assms(2)] assms(4-6) by (simp add: fetched_ok_def)
qed

end

section \<open>Start, single rounds, shutdown\<close>

lemma daemon_inv_new:
  assumes "backup_ok rd newBackupStore"
    and "\<And>v ms. backup_view rd newBackupStore v = Inr (Some ms) \<Longrightarrow> \<forall>m \<in> set ms. owned E m"
  shows "daemon_inv E rd addrs table (newReconciler n New_Store) w"
  using assms by (simp add: daemon_inv_def store_wf_New cache_inv_empty data_ok_def cachedMappings_def
      host_inv_def adv_inv_def nft_inv_def)

text \<open>\<open>RunOnce\<close>: a queued delta if there is one, else a full reconcile.\<close>

definition RunOnce :: "'w deps \<Rightarrow> gtime \<Rightarrow> Reconciler \<times> 'w \<Rightarrow> Reconciler \<times> 'w" where
  "RunOnce d now s =
     (case s of (R, w) \<Rightarrow>
        case webhookDeltaCh R of
          delta # rest \<Rightarrow> snd (reconcileFromWebhookDelta d now delta (R\<lparr>webhookDeltaCh := rest\<rparr>, w))
        | [] \<Rightarrow> snd (reconcile d now (R\<lparr>reconcileCh := False\<rparr>, w)))"

lemma RunOnce_steps:
  assumes "webhookDeltaCh R \<noteq> [] \<or> reconcileCh R" and "RunOnce d now (R, w) = (R', w')"
  shows "\<exists>ls. dsteps d ls (R, w, None) (R', w', None)"
proof (cases "webhookDeltaCh R")
  case (Cons delta rest)
  obtain err where "reconcileFromWebhookDelta d now delta (R\<lparr>webhookDeltaCh := rest\<rparr>, w) = (err, R', w')"
    using assms(2) Cons by (cases "reconcileFromWebhookDelta d now delta (R\<lparr>webhookDeltaCh := rest\<rparr>, w)")
      (simp add: RunOnce_def)
  from dstep.delta [OF Cons this] show ?thesis by (blast intro: dsteps.intros)
next
  case Nil
  obtain res w1 where f: "FetchNATMappings d w = (res, w1)" by fastforce
  obtain err where "finish_reconcile d now res (R\<lparr>reconcileCh := False\<rparr>, w1) = (err, R', w')"
    using assms(2) Nil f
    by (cases "finish_reconcile d now res (R\<lparr>reconcileCh := False\<rparr>, w1)") (simp add: RunOnce_def reconcile_halves)
  note 2 = dstep.finish [OF this]
  have 1: "dstep d LFetch (R, w, None) (R\<lparr>reconcileCh := False\<rparr>, w1, Some res)"
    using assms(1) Nil by (intro dstep.fetch f) simp
  show ?thesis by (rule exI, rule dsteps.more [OF 1], rule dsteps.more [OF 2], rule dsteps.none)
qed

text \<open>
  The end of \<open>main\<close>, after \<open>Run\<close> returned: the queued backups are written, the announced
  addresses withdrawn, the table removed. Each error is only logged; the three results are
  returned here. \<open>writeOk\<close> and \<open>drained\<close> say how the file system and the flusher behave.
\<close>

definition shutdown ::
  "'w deps \<Rightarrow> (int \<Rightarrow> slice \<Rightarrow> bool) \<Rightarrow> bool \<Rightarrow> Reconciler \<times> 'w \<Rightarrow>
   (gerror option \<times> gerror option \<times> gerror option) \<times> Reconciler \<times> 'w" where
  "shutdown d writeOk drained s =
     (case s of (R, w) \<Rightarrow>
        let (backup_err, b) = close_store writeOk drained (backup R);
            (route_err, R1, w1) = FlushRoutes d (R\<lparr>backup := b\<rparr>, w);
            (nft_err, w2) = NftFlush d w1
        in ((backup_err, route_err, nft_err), R1, w2))"

lemma close_store_drained:
  "close_store writeOk drained s = (None, s') \<Longrightarrow> pending s' = []"
proof -
  have "flush writeOk u = (True, s') \<Longrightarrow> pending s' = []" for u by (metis flush_all_ok fst_conv snd_conv)
  then show "close_store writeOk drained s = (None, s') \<Longrightarrow> pending s' = []"
    by (auto simp: close_store_def Let_def flushNow_def lastFlushError_def split: if_splits prod.splits)
qed

context host begin

lemma shutdown_spec:
  assumes "shutdown d writeOk drained (R, w) = ((None, None, None), R', w')"
    and "ok w" "adv_inv addrs R w"
  shows "addrs w' = addrs w - set (advertisedIPs R) \<and> table w' = None \<and> advertisedIPs R' = [] \<and>
    pending (backup R') = []"
proof -
  obtain berr b where b: "close_store writeOk drained (backup R) = (berr, b)" by fastforce
  obtain rerr R1 w1 where r: "reconcileBGP d [] [] (R\<lparr>backup := b\<rparr>, w) = (rerr, R1, w1)"
    by (metis prod.exhaust)
  obtain nerr w2 where n: "NftFlush d w1 = (nerr, w2)" by fastforce
  have res: "berr = None" "rerr = None" "nerr = None" "R' = R1" "w' = w2"
    using assms(1) b r n by (simp_all add: shutdown_def FlushRoutes_def)
  have inv: "adv_inv addrs (R\<lparr>backup := b\<rparr>) w" using assms(3) by (simp add: adv_inv_def)
  have none: "\<forall>a \<in> set []. Is4 a" by simp
  note B = reconcileBGP_spec [OF r assms(2) inv none none]
  have ok1: "ok w1" using B by blast
  have "addrs w1 = addrs w - set (advertisedIPs R) \<and> set (advertisedIPs R1) = {} \<and> backup R1 = b"
    using B bgp_frameD [of "R\<lparr>backup := b\<rparr>" R1] res(2) by (simp add: adopted_def)
  moreover have "table w2 = None" using nf.flush_rules [OF ok1 n] res(3) by simp
  moreover have "addrs w2 = addrs w1" by (rule flush_addrs [OF ok1 n])
  moreover have "pending b = []" using close_store_drained b res(1) by blast
  ultimately show ?thesis using res by simp
qed

lemma steps_inv:
  assumes "dsteps d ls s s'" and "\<And>w. ReadBackup d w = rd"
    and "\<And>w ms w'. FetchNATMappings d w = (Inr ms, w') \<Longrightarrow> \<forall>m \<in> set ms. owned E m"
    and "list_all (label_ok E) ls"
    and "ok (fst (snd s))" and "daemon_inv_on strict E rd addrs table (fst s) (fst (snd s))"
    and "fetched_ok E (snd (snd s))"
  shows "ok (fst (snd s')) \<and> daemon_inv_on strict E rd addrs table (fst s') (fst (snd s')) \<and>
    touches E addrs table (fst (snd s)) (fst (snd s'))"
  using assms(1,4-7)
proof induction
  case (more l s s' ls s'')
  have "ok (fst (snd s')) \<and> daemon_inv_on strict E rd addrs table (fst s') (fst (snd s')) \<and> fetched_ok E (snd (snd s')) \<and>
    touches E addrs table (fst (snd s)) (fst (snd s'))"
    using step_inv [OF more(1) assms(2,3) more.prems(2-4)] more.prems(1) by simp
  then show ?case using more.IH more.prems(1) touches_trans by fastforce
qed simp

end

section \<open>Properties\<close>

lemma run_sound:
  assumes "live_host exec m h fetch addrs table"
    and "\<forall>u ms. fst (fetch u) = Inr ms \<longrightarrow> list_all (owned E) ms"
    and "daemon_inv E rd addrs table R w" and "list_all (label_ok E) ls"
    and "dsteps (live_deps exec m h fetch (\<lambda>_. rd)) ls (R, w, None) (R', w', f)"
  shows "daemon_inv E rd addrs table R' w' \<and> touches E addrs table w w'"
proof -
  let ?d = "live_deps exec m h fetch (\<lambda>_. rd)"
  have "\<forall>m \<in> set ms. owned E m" if "FetchNATMappings ?d u = (Inr ms, u')" for u ms u'
  proof -
    have "fst (fetch u) = Inr ms" using that by (simp add: live_deps_def)
    then show ?thesis using assms(2) by (simp add: list_all_iff)
  qed
  then show ?thesis
    using live.steps_inv [OF assms(5) ReadBackup_live _ assms(4)] assms(1,3) by (auto simp: fetched_ok_def)
qed

lemma daemon_inv_facts:
  assumes "daemon_inv E rd addrs table R w"
  shows "store_wf (store R) \<and> cache_inv R \<and> data_ok E rd R \<and>
    length (webhookDeltaCh R) \<le> 32 \<and> set (advertisedIPs R) \<subseteq> addrs w \<inter> E \<and>
    (rulesetKeyValid R \<longrightarrow> (\<exists>ms. lastRulesetKey R = rulesetKey ms \<and> table w = Some (render ms)))"
proof -
  have "store_wf (store R) \<and> cache_inv R \<and> data_ok E rd R \<and>
    length (webhookDeltaCh R) \<le> 32 \<and> set (advertisedIPs R) \<subseteq> E"
    using assms by (simp add: daemon_inv_def webhookDeltaCap_def)
  moreover have "set (advertisedIPs R) \<subseteq> addrs w"
    using assms by (auto simp: daemon_inv_def host_inv_def adv_inv_def)
  moreover have "rulesetKeyValid R \<longrightarrow>
       (\<exists>ms. lastRulesetKey R = rulesetKey ms \<and> table w = Some (render ms))"
    using assms by (auto simp: daemon_inv_def host_inv_def nft_inv_def)
  ultimately show ?thesis by blast
qed

lemma sound_steps:
  assumes "live_host exec m h fetch addrs table"
    and "\<forall>u ms. fst (fetch u) = Inr ms \<longrightarrow> list_all (owned E) ms"
    and "backup_ok rd newBackupStore"
    and "\<forall>v ms. fst (load_backup rd v newBackupStore) = Inr (Some ms) \<longrightarrow> list_all (owned E) ms"
    and "list_all (label_ok E) ls"
    and "dsteps (live_deps exec m h fetch (\<lambda>_. rd)) ls (newReconciler n New_Store, w, None) (R', w', f)"
  shows "daemon_inv E rd addrs table R' w' \<and> touches E addrs table w w'"
proof -
  have "daemon_inv E rd addrs table (newReconciler n New_Store) w"
    using assms(4) by (intro daemon_inv_new assms(3)) (auto simp: list_all_iff)
  from run_sound [OF assms(1,2) this assms(5,6)] show ?thesis .
qed

text \<open>
  The daemon is always sound. In every state it reaches from its start, whatever fails
  and however events, deltas, ticks, fetches and applies are ordered: the placement store, the
  cache and the data are well formed, at most 32 deltas are queued, every address it counts
  as announced is on the interface, and a remembered fingerprint is that of the loaded table.
\<close>

theorem daemon_always_sound:
  assumes "live_host exec m h fetch addrs table"
    and "\<forall>u ms. fst (fetch u) = Inr ms \<longrightarrow> list_all (owned E) ms"
    and "backup_ok rd newBackupStore"
    and "\<forall>v ms. fst (load_backup rd v newBackupStore) = Inr (Some ms) \<longrightarrow> list_all (owned E) ms"
    and "list_all (label_ok E) ls"
    and "dsteps (live_deps exec m h fetch (\<lambda>_. rd)) ls (newReconciler n New_Store, w, None) (R', w', f)"
  shows "store_wf (store R') \<and> cache_inv R' \<and> data_ok E rd R' \<and>
    length (webhookDeltaCh R') \<le> 32 \<and> set (advertisedIPs R') \<subseteq> addrs w' \<inter> E \<and>
    (rulesetKeyValid R' \<longrightarrow>
       (\<exists>ms. lastRulesetKey R' = rulesetKey ms \<and> table w' = Some (render ms)))"
  by (rule daemon_inv_facts [OF conjunct1 [OF sound_steps [OF assms]]])

text \<open>
  The daemon touches only what it owns. Whatever runs, an address on the interface that
  NetBox, the deltas and the backups never name as an external address stays as it was, so
  that operators' and other tools' addresses are never added or withdrawn; and every rule it
  ever loads is about addresses that they name.
\<close>

theorem daemon_touches_only_its_own:
  assumes "live_host exec m h fetch addrs table"
    and "\<forall>u ms. fst (fetch u) = Inr ms \<longrightarrow> list_all (owned E) ms"
    and "backup_ok rd newBackupStore"
    and "\<forall>v ms. fst (load_backup rd v newBackupStore) = Inr (Some ms) \<longrightarrow> list_all (owned E) ms"
    and "list_all (label_ok E) ls"
    and "dsteps (live_deps exec m h fetch (\<lambda>_. rd)) ls (newReconciler n New_Store, w, None) (R', w', f)"
  shows "addrs w' - E = addrs w - E \<and>
    (table w' = table w \<or> (\<exists>ms. table w' = Some (render ms) \<and> (\<forall>m \<in> set ms. ExternalIP m \<in> E)))"
  using sound_steps [OF assms] unfolding touches_def owned_def by blast

text \<open>
  A clean shutdown leaves nothing behind. If none of its three parts reports an error,
  the addresses this process announced are gone from the interface, all others still there,
  the table is gone, and no backup write is left in the queue.
\<close>

theorem shutdown_leaves_nothing:
  assumes "live_host exec m h fetch addrs table" and "host_inv addrs table R w"
    and "shutdown (live_deps exec m h fetch rd) writeOk drained (R, w) = ((None, None, None), R', w')"
  shows "addrs w' = addrs w - set (advertisedIPs R) \<and> table w' = None \<and> advertisedIPs R' = [] \<and>
    pending (backup R') = []"
  using live.shutdown_spec [OF assms(3,1)] assms(2) by (simp add: host_inv_def)

lemma shutdown_run:
  "\<exists>R' w'. shutdown (sim_live sim_rd) (\<lambda>_ _. True) True (rec101, sim1) = ((None, None, None), R', w')"
proof -
  have c: "close_store (\<lambda>_ _. True) True newBackupStore = (None, newBackupStore\<lparr>closed := True\<rparr>)"
    by (simp add: close_store_def newBackupStore_def flushNow_def flush_def)
  have n: "Contains ''No such file or directory'' ''No such file''" by code_simp
  show ?thesis
    by (simp add: shutdown_def c n FlushRoutes_def reconcileBGP_def sim_simps sim1_def anycast_def
        Flush_def sim_nft_def HasPrefix_def Let_def)
qed

theorem shutdown_leaves_nothing_witness:
  "\<exists>R' w'. shutdown (sim_live sim_rd) (\<lambda>_ _. True) True (rec101, sim1) = ((None, None, None), R', w') \<and>
     sim_addrs w' = {quad_addr anycast}"
proof -
  obtain R' w' where call: "shutdown (sim_live sim_rd) (\<lambda>_ _. True) True (rec101, sim1) = ((None, None, None), R', w')"
    using shutdown_run by blast
  have "sim_addrs sim1 - set (advertisedIPs rec101) = {quad_addr anycast}"
    by (simp add: sim_addrs_def sim1_def anycast_def insert_Diff_if)
  with shutdown_leaves_nothing [OF sim_host rec101_ok(1) call] call show ?thesis by auto
qed

abbreviation fetch2 :: "sim \<Rightarrow> (gerror + NATMapping list) \<times> sim" where
  "fetch2 \<equiv> \<lambda>w. (Inr [web2], w)"

lemma fetch2_host: "live_host sim_exec sim_frr sim_nft fetch2 sim_addrs sim_table"
  using sim_host by (simp add: live_host_def separate_def)

lemma fetch2_run:
  "\<exists>R' w' f. dsteps (live_deps sim_exec sim_frr sim_nft fetch2 (\<lambda>_. sim_rd)) [LTrigger, LFetch, LApply 5]
     (newReconciler ''pve1'' New_Store, sim1, None) (R', w', f)"
proof -
  let ?d = "live_deps sim_exec sim_frr sim_nft fetch2 (\<lambda>_. sim_rd)"
  let ?R = "TriggerReconcile (newReconciler ''pve1'' New_Store)"
  have ch: "reconcileCh ?R" by (simp add: TriggerReconcile_def)
  have f: "FetchNATMappings ?d sim1 = (Inr [web2], sim1)" by (simp add: live_deps_def)
  obtain err R' w' where a: "finish_reconcile ?d 5 (Inr [web2]) (?R\<lparr>reconcileCh := False\<rparr>, sim1) = (err, R', w')"
    by (metis prod.exhaust)
  show ?thesis
    using dsteps.more [OF dstep.trigger dsteps.more [OF dstep.fetch [OF ch f]
        dsteps.more [OF dstep.finish [OF a] dsteps.none]]] by blast
qed

lemma sim_rd_ok:
  "backup_ok sim_rd newBackupStore" "fst (load_backup sim_rd v newBackupStore) \<noteq> Inr (Some ms)"
  by (simp_all add: backup_ok_def no_empty_def newBackupStore_def load_backup_def)

lemma owned_web2: "owned {V4 203 0 113 2} web2"
  by (simp add: owned_def web2_def web_mapping_def storable_def in_int64_def valid_utf8_ascii)

theorem daemon_always_sound_witness:
  "\<exists>R' w' f. dsteps (live_deps sim_exec sim_frr sim_nft fetch2 (\<lambda>_. sim_rd)) [LTrigger, LFetch, LApply 5]
     (newReconciler ''pve1'' New_Store, sim1, None) (R', w', f) \<and> set (advertisedIPs R') \<subseteq> sim_addrs w'"
proof -
  obtain R' w' f where run: "dsteps (live_deps sim_exec sim_frr sim_nft fetch2 (\<lambda>_. sim_rd)) [LTrigger, LFetch, LApply 5]
     (newReconciler ''pve1'' New_Store, sim1, None) (R', w', f)" using fetch2_run by blast
  have "set (advertisedIPs R') \<subseteq> sim_addrs w'"
    using daemon_always_sound [OF fetch2_host _ sim_rd_ok(1) _ _ run, of "{V4 203 0 113 2}"] owned_web2
    by (simp add: sim_rd_ok(2))
  with run show ?thesis by blast
qed

theorem daemon_touches_only_its_own_witness:
  "\<exists>R' w' f. dsteps (live_deps sim_exec sim_frr sim_nft fetch2 (\<lambda>_. sim_rd)) [LTrigger, LFetch, LApply 5]
     (newReconciler ''pve1'' New_Store, sim1, None) (R', w', f) \<and> quad_addr anycast \<in> sim_addrs w'"
proof -
  obtain R' w' f where run: "dsteps (live_deps sim_exec sim_frr sim_nft fetch2 (\<lambda>_. sim_rd)) [LTrigger, LFetch, LApply 5]
     (newReconciler ''pve1'' New_Store, sim1, None) (R', w', f)" using fetch2_run by blast
  have "sim_addrs w' - {V4 203 0 113 2} = sim_addrs sim1 - {V4 203 0 113 2}"
    using daemon_touches_only_its_own [OF fetch2_host _ sim_rd_ok(1) _ _ run, of "{V4 203 0 113 2}"] owned_web2
    by (simp add: sim_rd_ok(2))
  moreover have "quad_addr anycast \<in> sim_addrs sim1 - {V4 203 0 113 2}"
    by (simp add: sim_addrs_def sim1_def anycast_def)
  ultimately have "quad_addr anycast \<in> sim_addrs w'" by blast
  with run show ?thesis by blast
qed

section \<open>The gate for snapshot-driven fetches\<close>

lemma Itoa_no_comma: "CHR '','' \<notin> set (Itoa n)"
proof -
  have "CHR '','' \<notin> set (dec k)" for k
    using dec_digits [of k] by (auto simp: list_all_iff is_digit_def)
  then show ?thesis by (simp add: Itoa_def)
qed

lemma join_ids_inj:
  "concat (map (\<lambda>n. Itoa n @ '','') ns) = concat (map (\<lambda>n. Itoa n @ '','') ms) \<Longrightarrow> ns = ms"
proof (induction ns arbitrary: ms)
  case Nil
  then show ?case by (cases ms) auto
next
  case (Cons n ns)
  then obtain m ms' where ms: "ms = m # ms'" by (cases ms) auto
  have "Itoa n @ CHR '','' # concat (map (\<lambda>n. Itoa n @ '','') ns) =
        Itoa m @ CHR '','' # concat (map (\<lambda>n. Itoa n @ '','') ms')"
    using Cons.prems by (simp add: ms)
  from split_at_sep [OF this Itoa_no_comma Itoa_no_comma] Cons.IH show ?case
    by (auto simp: ms dest: Itoa_inj)
qed

definition held_ids :: "Reconciler \<Rightarrow> int list" where
  "held_ids R = map VMID (GetActive (store R) @ GetStaged (store R))"

lemma activeStateKey_iff: "activeStateKey R = activeStateKey R' \<longleftrightarrow> mset (held_ids R) = mset (held_ids R')"
proof
  assume "activeStateKey R = activeStateKey R'"
  then have "sort (held_ids R) = sort (held_ids R')"
    unfolding activeStateKey_def held_ids_def by (rule join_ids_inj)
  then show "mset (held_ids R) = mset (held_ids R')" by (metis mset_sort)
next
  assume "mset (held_ids R) = mset (held_ids R')"
  then have "sort (held_ids R) = sort (held_ids R')" by (metis properties_for_sort sort_key_id_if_sorted sorted_sort mset_sort)
  then show "activeStateKey R = activeStateKey R'" by (simp add: activeStateKey_def held_ids_def)
qed

lemma reconcile_keeps:
  assumes "reconcile d t (R, w) = (err, R1, w1)" and "FetchNATMappings d w = (res, w0)"
  shows "store R1 = store R"
    "lastFullFetch R1 = (if isl res then lastFullFetch R else t)"
    "lastActiveKey R1 = (if isl res then lastActiveKey R else activeStateKey R)"
proof -
  have fin: "finish_reconcile d t res (R, w0) = (err, R1, w1)" using assms by (simp add: reconcile_halves)
  have "store R1 = store R \<and> lastFullFetch R1 = (if isl res then lastFullFetch R else t) \<and>
    lastActiveKey R1 = (if isl res then lastActiveKey R else activeStateKey R)"
  proof (cases res)
    case (Inl e)
    then have "apply_frame R R1"
      using fin apply_keeps by (auto simp: finish_reconcile_def applyMappings_def)
    note F = apply_frameD [OF this]
    show ?thesis using Inl by (simp add: F)
  next
    case (Inr ms)
    let ?R = "rebuildMappingCache ms (R\<lparr>lastFullFetch := t, lastActiveKey := activeStateKey R\<rparr>)"
    have "apply_frame ?R R1"
      using fin Inr apply_keeps [of d ms sourceFullFetch ?R w0] by (simp add: finish_reconcile_def applyMappings_def)
    note F = apply_frameD [OF this]
    show ?thesis using Inr F(1,10,11) by (simp add: rebuildMappingCache_def)
  qed
  then show "store R1 = store R"
    "lastFullFetch R1 = (if isl res then lastFullFetch R else t)"
    "lastActiveKey R1 = (if isl res then lastActiveKey R else activeStateKey R)"
    by blast+
qed

text \<open>
  C8: When a finished snapshot batch fetches. A failed fetch leaves the gate as it was. After
  a successful fetch, and until the next one, a snapshot batch fetches exactly if the node
  holds other VMs (active or staged) than at that fetch, or the interval has passed.
\<close>

theorem snapshot_gate_exact:
  assumes "reconcile d t (R, w) = (err, R1, w1)"
    and "lastFullFetch R2 = lastFullFetch R1" and "lastActiveKey R2 = lastActiveKey R1"
  shows "case fst (FetchNATMappings d w) of
      Inl e \<Rightarrow> shouldFullFetchForSnapshot now interval R1 = shouldFullFetchForSnapshot now interval R
    | Inr ms \<Rightarrow> shouldFullFetchForSnapshot now interval R2 \<longleftrightarrow>
        mset (held_ids R2) \<noteq> mset (held_ids R) \<or> interval \<le> 0 \<or> interval \<le> now - t"
proof -
  obtain res w0 where f: "FetchNATMappings d w = (res, w0)" by fastforce
  note K = reconcile_keeps [OF assms(1) f]
  have key: "activeStateKey R1 = activeStateKey R" by (simp add: activeStateKey_def K(1))
  show ?thesis
  proof (cases res)
    case (Inl e)
    then show ?thesis by (simp add: f shouldFullFetchForSnapshot_def K key)
  next
    case (Inr ms)
    then show ?thesis using K assms(2,3) by (simp add: f shouldFullFetchForSnapshot_def activeStateKey_iff)
  qed
qed

theorem snapshot_gate_exact_witness:
  "\<exists>err R1. reconcile (quiet sim_rd) 100 (rec101, ()) = (err, R1, ()) \<and>
     \<not> shouldFullFetchForSnapshot 130 60 R1 \<and>
     shouldFullFetchForSnapshot 130 60 (R1\<lparr>store := New_Store\<rparr>)"
proof -
  obtain err R1 where call: "reconcile (quiet sim_rd) 100 (rec101, ()) = (err, R1, ())"
    by (metis prod.exhaust old.unit.exhaust)
  have "FetchNATMappings (quiet sim_rd) () = (Inr [], ())" by (simp add: quiet_def)
  moreover have ids: "held_ids rec101 = [101]"
    using active_store101 by (simp add: held_ids_def GetStaged_def store101_def SetActive_def store_set_def New_Store_def)
  have "held_ids R1 = [101]"
    using reconcile_keeps(1) [OF call calculation] ids by (simp add: held_ids_def)
  moreover have "held_ids (R1\<lparr>store := New_Store\<rparr>) = []"
    by (simp add: held_ids_def New_Store_def GetActive_def GetStaged_def)
  moreover note snapshot_gate_exact [OF call refl refl, of 130 60]
  moreover note snapshot_gate_exact [OF call, of "R1\<lparr>store := New_Store\<rparr>" 130 60]
  ultimately show ?thesis using call ids by simp
qed

end
