(* ===== verification/Stepped_Apply.thy ===== *)
theory Stepped_Apply
  imports Daemon
begin

text \<open>
  An apply in its single steps. \<open>applyMappingsTimed\<close> of \<open>internal/reconciler/reconciler.go\<close>
  is no critical section of its own: what runs beside it can come between the resolution of two
  VMs, between the decision which ruleset is loaded and the load, or between the load and the
  record of its fingerprint. Run without interference, the steps are the apply.
\<close>

section \<open>The steps\<close>

text \<open>What is decided before the host is programmed.\<close>

record plan =
  pl_rules :: "NATMapping list"
  pl_ips :: "Addr list"
  pl_applied :: "(int, NATMapping list) gomap"
  pl_unchanged :: bool
  pl_first :: bool

datatype act = ConvergeBGP | LoadRules | RecordKey | DropKey | Remember

datatype stage =
  Resolving bool "VMState list" resolution
| Deciding resolution
| Managing plan
| Programming plan "Addr list" "act list"

definition plan_acts :: "plan \<Rightarrow> act list" where
  "plan_acts p =
     (let nft = (if pl_unchanged p then [] else [LoadRules])
      in if pl_first p then ConvergeBGP # nft @ [Remember] else nft @ [ConvergeBGP, Remember])"

text \<open>An apply begins with reading the active VMs.\<close>

definition start_job :: "NATMapping list \<Rightarrow> apply_source \<Rightarrow> Reconciler \<Rightarrow> stage" where
  "start_job allMappings source R =
     (let activeVMs = GetActive (store R)
      in Resolving (is_authoritative source allMappings activeVMs) activeVMs
           \<lparr>res_applied = [], res_nft = [], res_bgp = [], res_backup = backup R,
            res_retained = 0, res_unresolved = 0\<rparr>)"

text \<open>
  Programming the host. A load that fails ends the apply once the fingerprint is dropped;
  \<open>reconcileBGP\<close> holds \<open>advMu\<close> throughout and is one step.
\<close>

fun apply_act ::
  "'w deps \<Rightarrow> plan \<Rightarrow> Addr list \<Rightarrow> act \<Rightarrow> act list \<Rightarrow> Reconciler \<times> 'w \<Rightarrow> act list \<times> Reconciler \<times> 'w" where
  "apply_act d p managed ConvergeBGP acts (R, w) =
     (let (bgp_err, s) = reconcileBGP d (pl_ips p) managed (R, w) in (acts, s))"
| "apply_act d p managed LoadRules acts (R, w) =
     (case NftApply d (pl_rules p) w of
        (Some err, w') \<Rightarrow> ([DropKey], R, w')
      | (None, w') \<Rightarrow> (RecordKey # acts, R, w'))"
| "apply_act d p managed RecordKey acts (R, w) =
     (acts, R\<lparr>lastRulesetKey := rulesetKey (pl_rules p), rulesetKeyValid := True\<rparr>, w)"
| "apply_act d p managed DropKey acts (R, w) = (acts, R\<lparr>rulesetKeyValid := False\<rparr>, w)"
| "apply_act d p managed Remember acts (R, w) = (acts, R\<lparr>lastAppliedByVMID := pl_applied p\<rparr>, w)"

fun job_step ::
  "'w deps \<Rightarrow> NATMapping list \<Rightarrow> apply_source \<Rightarrow> stage \<Rightarrow> Reconciler \<times> 'w \<Rightarrow> stage option \<times> Reconciler \<times> 'w"
where
  "job_step d allMappings source (Resolving authoritative (vm # others) r) (R, w) =
     (let r1 = resolve_step (ReadBackup d w) source authoritative (group_mappings allMappings)
                 (lastAppliedByVMID R) vm (r\<lparr>res_backup := backup R\<rparr>)
      in (Some (Resolving authoritative others r1), R\<lparr>backup := res_backup r1\<rparr>, w))"
| "job_step d allMappings source (Resolving authoritative [] r) (R, w) =
     (Some (Deciding r),
      R\<lparr>unresolvedStreak := (if 0 < res_retained r \<or> 0 < res_unresolved r then Suc (unresolvedStreak R) else 0)\<rparr>, w)"
| "job_step d allMappings source (Deciding r) (R, w) =
     (let nftMappings = sortMappings (res_nft r);
          unchanged = (rulesetKeyValid R \<and> rulesetKey nftMappings = lastRulesetKey R)
      in (Some (Managing \<lparr>pl_rules = nftMappings, pl_ips = res_bgp r, pl_applied = res_applied r,
             pl_unchanged = unchanged, pl_first = (unchanged \<or> \<not> hasNewAdvertisements (res_bgp r) R)\<rparr>), R, w))"
| "job_step d allMappings source (Managing p) (R, w) =
     (let (managed, R1) = (if kernelSynced R then ([], R) else managedIPs (ReadBackup d w) R)
      in (Some (Programming p managed (plan_acts p)), R1, w))"
| "job_step d allMappings source (Programming p managed (a # acts)) (R, w) =
     (let (acts1, s) = apply_act d p managed a acts (R, w) in (Some (Programming p managed acts1), s))"
| "job_step d allMappings source (Programming p managed []) (R, w) = (None, R, w)"

text \<open>Nothing between the steps: at most \<open>fuel\<close> of them.\<close>

fun run_job ::
  "nat \<Rightarrow> 'w deps \<Rightarrow> NATMapping list \<Rightarrow> apply_source \<Rightarrow> stage \<Rightarrow> Reconciler \<times> 'w \<Rightarrow> (Reconciler \<times> 'w) option"
where
  "run_job 0 d allMappings source g s = None"
| "run_job (Suc fuel) d allMappings source g s =
     (case job_step d allMappings source g s of
        (None, s') \<Rightarrow> Some s'
      | (Some g', s') \<Rightarrow> run_job fuel d allMappings source g' s')"

section \<open>Without interference\<close>

lemma run_job_more:
  "run_job n d allMappings source g s = Some s' \<Longrightarrow> run_job (n + k) d allMappings source g s = Some s'"
  by (induction n arbitrary: g s) (auto split: prod.splits option.splits)

lemma run_resolving:
  "res_backup r = backup R \<Longrightarrow>
   run_job (length xs + n) d allMappings source (Resolving a xs r) (R, w) =
     (let r1 = fold (resolve_step (ReadBackup d w) source a (group_mappings allMappings) (lastAppliedByVMID R)) xs r
      in run_job n d allMappings source (Resolving a [] r1) (R\<lparr>backup := res_backup r1\<rparr>, w))"
proof (induction xs arbitrary: r R)
  case (Cons vm xs)
  have "r\<lparr>res_backup := backup R\<rparr> = r" using Cons.prems by (cases r) simp
  then show ?case using Cons.IH by (simp add: Let_def)
qed simp

lemma run_programming:
  "run_job 5 d allMappings source (Programming p managed (plan_acts p)) (R, w) =
     Some (snd (program_host d (pl_unchanged p) (pl_first p) (pl_rules p) (pl_ips p) managed (pl_applied p) (R, w)))"
  by (simp add: plan_acts_def program_host_def apply_nft_def Let_def eval_nat_numeral split: prod.split option.split)

lemma run_job_apply:
  "run_job (length (GetActive (store R)) + 8) d allMappings source (start_job allMappings source R) (R, w) =
     Some (snd (applyMappingsTimed d allMappings source (R, w)))"
proof -
  let ?r = "resolve_all (ReadBackup d w) allMappings source R"
  let ?R = "R\<lparr>backup := res_backup ?r, unresolvedStreak :=
      (if 0 < res_retained ?r \<or> 0 < res_unresolved ?r then Suc (unresolvedStreak R) else 0)\<rparr>"
  define nft where "nft = sortMappings (res_nft ?r)"
  define unchanged where "unchanged \<longleftrightarrow> rulesetKeyValid ?R \<and> rulesetKey nft = lastRulesetKey ?R"
  define p where "p = \<lparr>pl_rules = nft, pl_ips = res_bgp ?r, pl_applied = res_applied ?r,
      pl_unchanged = unchanged, pl_first = (unchanged \<or> \<not> hasNewAdvertisements (res_bgp ?r) ?R)\<rparr>"
  obtain managed R2 where m: "(if kernelSynced ?R then ([], ?R) else managedIPs (ReadBackup d w) ?R) = (managed, R2)"
    by fastforce
  have "run_job (length (GetActive (store R)) + 8) d allMappings source (start_job allMappings source R) (R, w) =
      run_job 8 d allMappings source (Resolving (is_authoritative source allMappings (GetActive (store R))) [] ?r)
        (R\<lparr>backup := res_backup ?r\<rparr>, w)"
    unfolding start_job_def Let_def by (subst run_resolving) (simp_all add: resolve_all_def Let_def)
  also have "\<dots> = run_job (Suc (Suc (Suc 5))) d allMappings source (Resolving (is_authoritative source allMappings (GetActive (store R))) [] ?r)
        (R\<lparr>backup := res_backup ?r\<rparr>, w)"
    by simp
  also have "\<dots> = run_job (Suc (Suc 5)) d allMappings source (Deciding ?r) (?R, w)"
    by (simp only: run_job.simps job_step.simps prod.case option.case) simp
  also have "\<dots> = run_job (Suc 5) d allMappings source (Managing p) (?R, w)"
    by (simp only: run_job.simps job_step.simps prod.case option.case Let_def p_def nft_def unchanged_def)
  also have "\<dots> = run_job 5 d allMappings source (Programming p managed (plan_acts p)) (R2, w)"
    by (simp only: run_job.simps job_step.simps m prod.case option.case Let_def)
  also have "\<dots> = Some (snd (program_host d unchanged (unchanged \<or> \<not> hasNewAdvertisements (res_bgp ?r) ?R) nft (res_bgp ?r)
      managed (res_applied ?r) (R2, w)))"
    unfolding run_programming by (simp add: p_def)
  also have "\<dots> = Some (snd (applyMappingsTimed d allMappings source (R, w)))"
    unfolding applyMappingsTimed_def prod.case Let_def
    by (simp only: m prod.case nft_def unchanged_def)
  finally show ?thesis .
qed


section \<open>Sound stages\<close>

definition resolution_ok :: "Addr set \<Rightarrow> resolution \<Rightarrow> bool" where
  "resolution_ok E r \<longleftrightarrow>
     (\<forall>m \<in> set (res_nft r). owned E m) \<and> (\<forall>a \<in> set (res_bgp r). Is4 a \<and> a \<in> E) \<and>
     (\<forall>v. \<forall>m \<in> set (mgetd [] (res_applied r) v). owned E m)"

definition plan_ok :: "Addr set \<Rightarrow> plan \<Rightarrow> bool" where
  "plan_ok E p \<longleftrightarrow>
     (\<forall>m \<in> set (pl_rules p). owned E m) \<and> (\<forall>a \<in> set (pl_ips p). Is4 a \<and> a \<in> E) \<and>
     (\<forall>v. \<forall>m \<in> set (mgetd [] (pl_applied p) v). owned E m)"

text \<open>The fingerprint is only recorded or dropped right after the load.\<close>

fun stage_ok :: "Addr set \<Rightarrow> stage \<Rightarrow> bool" where
  "stage_ok E (Resolving authoritative others r) \<longleftrightarrow> resolution_ok E r"
| "stage_ok E (Deciding r) \<longleftrightarrow> resolution_ok E r"
| "stage_ok E (Managing p) \<longleftrightarrow> plan_ok E p"
| "stage_ok E (Programming p managed acts) \<longleftrightarrow>
     plan_ok E p \<and> (\<forall>a \<in> set managed. Is4 a \<and> a \<in> E) \<and> set (tl acts) \<subseteq> {ConvergeBGP, LoadRules, Remember}"

lemma owned_is4: "owned E m \<Longrightarrow> Is4 (ExternalIP m) \<and> ExternalIP m \<in> E"
  by (simp add: owned_def storable_def)

section \<open>What one step of an apply does to the data\<close>

text \<open>The backups answer with mappings of \<open>E\<close>.\<close>

definition backup_owned :: "Addr set \<Rightarrow> (int \<Rightarrow> read_result) \<Rightarrow> backupStore \<Rightarrow> bool" where
  "backup_owned E rd b \<longleftrightarrow>
     backup_ok rd b \<and> (\<forall>v ms. backup_view rd b v = Inr (Some ms) \<longrightarrow> (\<forall>m \<in> set ms. owned E m))"

lemma backup_owned_load: "backup_owned E rd b \<Longrightarrow> backup_owned E rd (snd (load_backup rd v b))"
  by (simp add: backup_owned_def backup_ok_load load_load)

lemma backup_owned_managed: "backup_owned E rd (backup R) \<Longrightarrow> backup_owned E rd (backup (snd (managedIPs rd R)))"
  by (simp add: backup_owned_def managedIPs_view managedIPs_ok)

lemma backup_owned_delete:
  assumes "backup_owned E rd b"
  shows "backup_owned E rd (delete_backup v b)"
proof -
  have ok: "backup_ok rd b" using assms by (simp add: backup_owned_def)
  have "\<forall>m \<in> set ms. owned E m" if "backup_view rd (delete_backup v b) u = Inr (Some ms)" for u ms
    using that assms bk.load_delete [OF ok, of v] bk.load_delete_other [of u v rd b]
    by (cases "u = v") (simp_all add: backup_owned_def)
  then show ?thesis using bk.ok_delete [OF ok] by (simp add: backup_owned_def)
qed

lemma backup_owned_save:
  assumes "backup_owned E rd b" "ms \<noteq> []" "\<forall>m \<in> set ms. owned E m"
  shows "backup_owned E rd (save_backup v ms b)"
proof -
  have ok: "backup_ok rd b" using assms(1) by (simp add: backup_owned_def)
  have st: "\<forall>m \<in> set ms. storable m" using assms(3) owned_storable by blast
  have "\<forall>m \<in> set ns. owned E m" if "backup_view rd (save_backup v ms b) u = Inr (Some ns)" for u ns
    using that assms bk.load_save [OF ok assms(2) st, of v] bk.load_save_other [of u v rd ms b]
    by (cases "u = v") (simp_all add: backup_owned_def)
  then show ?thesis using bk.ok_save [OF ok] by (simp add: backup_owned_def)
qed

lemma data_ok_backup:
  "data_ok E rd R \<Longrightarrow> backup_owned E rd (backup R)"
  "data_ok E rd R \<Longrightarrow> backup_owned E rd b \<Longrightarrow> data_ok E rd (R\<lparr>backup := b\<rparr>)"
  unfolding data_ok_def backup_owned_def cachedMappings_def by auto

lemma resolve_vm_owned:
  assumes "resolve_vm rd source a (group_mappings allMappings) last_applied v b = (ms, b', ret, unres)"
    and "backup_owned E rd b" and "\<forall>m \<in> set allMappings. owned E m"
    and "\<forall>m \<in> set (mgetd [] last_applied v). owned E m"
  shows "(\<forall>m \<in> set ms. owned E m) \<and> backup_owned E rd b'"
proof -
  let ?current = "filter (\<lambda>m. VMProxmoxVMID m = v) allMappings"
  obtain res b1 where l: "load_backup rd v b = (res, b1)" by fastforce
  have b1: "backup_owned E rd b1" using backup_owned_load [OF assms(2), of v] by (simp add: l)
  have loaded: "\<forall>m \<in> set ns. owned E m" if "res = Inr (Some ns)" for ns
    using that assms(2) l unfolding backup_owned_def by (metis fst_conv)
  show ?thesis
  proof (cases "?current = []")
    case False
    then show ?thesis using assms(1,3) backup_owned_save [OF assms(2) False]
      by (auto simp: resolve_vm_def mgetd_group_mappings Let_def)
  next
    case True
    define found where "found = (case res of Inr (Some ns) \<Rightarrow> ns | _ \<Rightarrow> [])"
    have "\<forall>m \<in> set found. owned E m" using loaded by (auto simp: found_def split: sum.split option.split)
    then show ?thesis
      using assms(1,4) True b1 backup_owned_delete [OF b1] backup_owned_delete [OF assms(2)]
      by (simp add: resolve_vm_def mgetd_group_mappings l Let_def found_def [symmetric] split: if_splits)
        auto
  qed
qed

lemma resolve_step_owned:
  assumes "resolution_ok E r" and "backup_owned E rd (res_backup r)" and "\<forall>m \<in> set allMappings. owned E m"
    and "\<forall>v. \<forall>m \<in> set (mgetd [] last_applied v). owned E m"
  shows "resolution_ok E (resolve_step rd source a (group_mappings allMappings) last_applied vm r) \<and>
    backup_owned E rd (res_backup (resolve_step rd source a (group_mappings allMappings) last_applied vm r))"
proof -
  obtain ms b ret unres where
    v: "resolve_vm rd source a (group_mappings allMappings) last_applied (VMID vm) (res_backup r) = (ms, b, ret, unres)"
    by (metis prod.exhaust)
  from resolve_vm_owned [OF v assms(2,3)] have "\<forall>m \<in> set ms. owned E m" "backup_owned E rd b"
    using assms(4) by simp_all
  moreover have "mgetd [] (mput (VMID vm) ms g) u = (if u = VMID vm then ms else mgetd [] g u)" for g u
    by (simp add: mgetd_def mget_mput)
  ultimately show ?thesis
    using assms(1) owned_is4
    by (auto simp: resolve_step_def v Let_def resolution_ok_def set_bgp_insert)
qed

section \<open>What one step of an apply does to the daemon\<close>

text \<open>
  The fingerprint tells the truth, or is about to: between a load and its record the table
  is the one that will be recorded.
\<close>

fun key_known :: "('w \<Rightarrow> string option) \<Rightarrow> stage option \<Rightarrow> Reconciler \<Rightarrow> 'w \<Rightarrow> bool" where
  "key_known table (Some (Programming p managed (RecordKey # acts))) R w \<longleftrightarrow> table w = Some (render (pl_rules p))"
| "key_known table (Some (Programming p managed (DropKey # acts))) R w \<longleftrightarrow> True"
| "key_known table stage R w \<longleftrightarrow> nft_inv table R w"

lemma key_known_acts:
  assumes "set acts \<subseteq> {ConvergeBGP, LoadRules, Remember}"
  shows "key_known table (Some (Programming p managed acts)) R w \<longleftrightarrow> nft_inv table R w"
proof (cases acts)
  case (Cons a as)
  then show ?thesis using assms by (cases a) simp_all
qed simp

lemma plan_acts_set: "set (plan_acts p) \<subseteq> {ConvergeBGP, LoadRules, Remember}"
  by (simp add: plan_acts_def Let_def)

lemma tl_subset: "set acts \<subseteq> S \<Longrightarrow> set (tl acts) \<subseteq> S"
  by (cases acts) auto

lemma daemon_inv_set_backup:
  "daemon_inv_on False E rd addrs table R w \<Longrightarrow> backup_owned E rd b \<Longrightarrow>
   daemon_inv_on False E rd addrs table (R\<lparr>backup := b\<rparr>) w"
  using data_ok_backup(2) [of E rd R b]
  by (simp add: daemon_inv_on_def cache_inv_def adv_inv_def)

lemma daemon_inv_applied:
  assumes "daemon_inv_on False E rd addrs table R w" and "\<forall>v. \<forall>m \<in> set (mgetd [] applied v). owned E m"
  shows "daemon_inv_on False E rd addrs table (R\<lparr>lastAppliedByVMID := applied\<rparr>) w"
  using assms by (simp add: daemon_inv_on_def cache_inv_def adv_inv_def data_ok_def cachedMappings_def)

lemma daemon_inv_marks:
  "daemon_inv_on False E rd addrs table (R\<lparr>unresolvedStreak := n\<rparr>) w = daemon_inv_on False E rd addrs table R w"
  "daemon_inv_on False E rd addrs table (R\<lparr>rulesetKeyValid := b\<rparr>) w = daemon_inv_on False E rd addrs table R w"
  "daemon_inv_on False E rd addrs table (R\<lparr>lastRulesetKey := k\<rparr>) w = daemon_inv_on False E rd addrs table R w"
  by (simp_all add: daemon_inv_on_def cache_inv_def adv_inv_def data_ok_def cachedMappings_def)

lemma managed_step:
  assumes "daemon_inv_on False E rd addrs table R w"
    and "(if kernelSynced R then ([], R) else managedIPs rd R) = (managed, R')"
  shows "daemon_inv_on False E rd addrs table R' w \<and> (\<forall>a \<in> set managed. Is4 a \<and> a \<in> E) \<and>
    nft_inv table R' w = nft_inv table R w"
proof (cases "kernelSynced R")
  case False
  have data: "data_ok E rd R" using assms(1) by (simp add: daemon_inv_on_def)
  then have b: "backup_owned E rd (backup R)" by (rule data_ok_backup)
  have R': "R' = R\<lparr>backup := backup R'\<rparr>" using assms(2) False managedIPs_frame [of rd R] by simp
  have "backup_owned E rd (backup R')"
    using backup_owned_managed [OF b] assms(2) False by simp
  then have "daemon_inv_on False E rd addrs table R' w" by (subst R') (rule daemon_inv_set_backup [OF assms(1)])
  moreover have "Is4 a \<and> a \<in> E" if "a \<in> set managed" for a
  proof -
    have "a \<in> set (fst (managedIPs rd R))" using that assms(2) False by simp
    from managedIPs_views [OF this] show ?thesis
      using data_okD(2,4) [OF data] owned_is4 by metis
  qed
  moreover have "nft_inv table R' w = nft_inv table R w" by (subst R') (simp add: nft_inv_def)
  ultimately show ?thesis by blast
qed (use assms in auto)

context host begin

lemma converge_inv:
  assumes "reconcileBGP d ips managed (R, w) = (err, R', w')" and "ok w"
    and "daemon_inv_on False E rd addrs table R w"
    and "\<forall>a \<in> set ips. Is4 a \<and> a \<in> E" "\<forall>a \<in> set managed. Is4 a \<and> a \<in> E"
  shows "ok w' \<and> daemon_inv_on False E rd addrs table R' w' \<and> touches E addrs table w w' \<and>
    nft_inv table R' w' = nft_inv table R w"
proof -
  have inv: "adv_inv addrs R w" and adv: "set (advertisedIPs R) \<subseteq> E" using assms(3) by (simp_all add: daemon_inv_on_def)
  have B: "ok w' \<and> table w' = table w \<and> bgp_frame R R' \<and> adv_inv addrs R' w' \<and>
      (\<forall>a. a \<notin> set (advertisedIPs R) \<and> a \<notin> set ips \<and> a \<notin> set managed \<longrightarrow> (a \<in> addrs w') = (a \<in> addrs w))"
    using reconcileBGP_spec [OF assms(1,2) inv] assms(4,5) by simp
  then have "(a \<in> addrs w') = (a \<in> addrs w)" if "a \<notin> E" for a
    using that adv assms(4,5) by blast
  then have touch: "touches E addrs table w w'" using B by (auto simp: touches_def)
  have set': "set (advertisedIPs R') \<subseteq> E"
    using reconcileBGP_set [OF assms(1)] adv assms(4,5) by blast
  have R': "R' = R\<lparr>advertisedIPs := advertisedIPs R', kernelSynced := kernelSynced R'\<rparr>"
    using B by (simp add: bgp_frame_def)
  have "daemon_inv_on False E rd addrs table R' w'"
    using assms(3) B set' by (subst R') (simp add: daemon_inv_on_def cache_inv_def data_ok_def cachedMappings_def adv_inv_def)
  moreover have "nft_inv table R' w' = nft_inv table R w" using B by (subst R') (simp add: nft_inv_def)
  ultimately show ?thesis using B touch by blast
qed

lemma act_inv:
  assumes "apply_act d p managed a acts (R, w) = (acts', R', w')" and "ok w"
    and "daemon_inv_on False E rd addrs table R w" and "stage_ok E (Programming p managed (a # acts))"
  shows "ok w' \<and> daemon_inv_on False E rd addrs table R' w' \<and> touches E addrs table w w' \<and>
    stage_ok E (Programming p managed acts') \<and>
    (key_known table (Some (Programming p managed (a # acts))) R w \<longrightarrow>
     key_known table (Some (Programming p managed acts')) R' w')"
proof -
  have p: "plan_ok E p" "\<forall>a \<in> set managed. Is4 a \<and> a \<in> E" and acts: "set acts \<subseteq> {ConvergeBGP, LoadRules, Remember}"
    using assms(4) by simp_all
  note tail = tl_subset [OF acts] and known = key_known_acts [OF acts]
  show ?thesis
  proof (cases a)
    case ConvergeBGP
    obtain err where b: "reconcileBGP d (pl_ips p) managed (R, w) = (err, R', w')" and acts': "acts' = acts"
      using assms(1) ConvergeBGP by (auto split: prod.splits)
    have "\<forall>a \<in> set (pl_ips p). Is4 a \<and> a \<in> E" using p(1) by (simp add: plan_ok_def)
    from converge_inv [OF b assms(2,3) this p(2)] show ?thesis
      using p tail acts' ConvergeBGP by (simp add: known)
  next
    case LoadRules
    obtain err where n: "NftApply d (pl_rules p) w = (err, w')" and R': "R' = R"
      and acts': "acts' = (if err = None then RecordKey # acts else [DropKey])"
      using assms(1) LoadRules by (auto split: prod.splits option.splits)
    note N = nf.apply_rules [OF assms(2) n] apply_addrs [OF assms(2) n]
    have "daemon_inv_on False E rd addrs table R w'" using assms(3) N by (simp add: daemon_inv_on_def adv_inv_def)
    moreover have "touches E addrs table w w'" using N p(1) by (cases err) (auto simp: touches_def plan_ok_def)
    ultimately show ?thesis using N p acts by (simp add: R' acts')
  next
    case RecordKey
    have "\<forall>m \<in> set (pl_rules p). key_safe_mapping m"
      using p(1) owned_storable storable_addressed addressed_key_safe by (auto simp: plan_ok_def)
    moreover have "acts' = acts" "R' = R\<lparr>lastRulesetKey := rulesetKey (pl_rules p), rulesetKeyValid := True\<rparr>" "w' = w"
      using assms(1) RecordKey by simp_all
    ultimately show ?thesis using assms(2,3) p tail RecordKey by (auto simp: daemon_inv_marks known nft_inv_def)
  next
    case DropKey
    then have "acts' = acts" "R' = R\<lparr>rulesetKeyValid := False\<rparr>" "w' = w" using assms(1) by simp_all
    then show ?thesis using assms(2,3) p tail by (auto simp: daemon_inv_marks known nft_inv_def)
  next
    case Remember
    then have "acts' = acts" "R' = R\<lparr>lastAppliedByVMID := pl_applied p\<rparr>" "w' = w" using assms(1) by simp_all
    then show ?thesis using assms(2,3) p tail daemon_inv_applied [OF assms(3)] Remember
      by (auto simp: known nft_inv_def plan_ok_def)
  qed
qed

text \<open>One step of an apply keeps the daemon sound, whatever comes between the steps.\<close>

lemma job_inv:
  assumes "job_step d allMappings source g (R, w) = (g', R', w')" and "ok w" and "ReadBackup d w = rd"
    and "daemon_inv_on False E rd addrs table R w" and "\<forall>m \<in> set allMappings. owned E m" and "stage_ok E g"
  shows "ok w' \<and> daemon_inv_on False E rd addrs table R' w' \<and> touches E addrs table w w' \<and>
    (\<forall>h. g' = Some h \<longrightarrow> stage_ok E h) \<and>
    (key_known table (Some g) R w \<longrightarrow> key_known table g' R' w')"
proof (cases g)
  case (Resolving a others r)
  have data: "data_ok E rd R" using assms(4) by (simp add: daemon_inv_on_def)
  show ?thesis
  proof (cases others)
    case Nil
    then show ?thesis using assms Resolving by (auto simp: daemon_inv_marks nft_inv_def)
  next
    case (Cons vm others')
    let ?r = "resolve_step rd source a (group_mappings allMappings) (lastAppliedByVMID R) vm (r\<lparr>res_backup := backup R\<rparr>)"
    have res: "g' = Some (Resolving a others' ?r)" "R' = R\<lparr>backup := res_backup ?r\<rparr>" "w' = w"
      using assms(1,3) Resolving Cons by (simp_all add: Let_def)
    have "resolution_ok E (r\<lparr>res_backup := backup R\<rparr>)" using assms(6) Resolving by (simp add: resolution_ok_def)
    moreover have "backup_owned E rd (res_backup (r\<lparr>res_backup := backup R\<rparr>))" using data_ok_backup(1) [OF data] by simp
    moreover have "\<forall>v. \<forall>m \<in> set (mgetd [] (lastAppliedByVMID R) v). owned E m" using data_okD(3) [OF data] by blast
    ultimately have "resolution_ok E ?r \<and> backup_owned E rd (res_backup ?r)"
      using resolve_step_owned [OF _ _ assms(5)] by blast
    then show ?thesis using assms(2) daemon_inv_set_backup [OF assms(4)] Resolving by (auto simp: res nft_inv_def)
  qed
next
  case (Deciding r)
  then show ?thesis using assms by (auto simp: Let_def resolution_ok_def plan_ok_def)
next
  case (Managing p)
  obtain managed R1 where m: "(if kernelSynced R then ([], R) else managedIPs rd R) = (managed, R1)" by fastforce
  have "g' = Some (Programming p managed (plan_acts p))" "R' = R1" "w' = w"
    using assms(1) unfolding Managing job_step.simps assms(3) m by simp_all
  then show ?thesis
    using managed_step [OF assms(4) m] assms(2,6) Managing
    by (simp add: key_known_acts [OF plan_acts_set] tl_subset [OF plan_acts_set])
next
  case (Programming p managed acts)
  show ?thesis
  proof (cases acts)
    case (Cons a as)
    obtain as' where "apply_act d p managed a as (R, w) = (as', R', w')" "g' = Some (Programming p managed as')"
      using assms(1) Programming Cons by (auto split: prod.splits)
    then show ?thesis using act_inv [OF _ assms(2,4)] assms(6) Programming Cons by blast
  qed (use assms Programming in auto)
qed

end

end
