(* ===== verification/Interleaving.thy ===== *)
theory Interleaving
  imports Stepped_Apply
begin

text \<open>
  The daemon with its threads cut into single steps, and the mutex \<open>reconcileMu\<close> among
  them: the loop \<open>Run\<close> of \<open>internal/reconciler/reconciler.go\<close>, any number of event handlers,
  the webhook server and the verification timer. An apply that holds the mutex excludes other
  applies that take it, and nothing else. The apply after a failed fetch takes no mutex
  (\<open>reconcile\<close>), and runs beside them.

  Racy reads and writes of a field are taken to be atomic; the Go memory model promises less.
\<close>

section \<open>Threads\<close>

text \<open>
  What is left to do for a handler. The updates of the placement store take only its own
  mutex, the applies \<open>reconcileMu\<close>. The status of a started VM is read and set in two steps.
\<close>

datatype todo =
  DoPlace placement | DoCheckStaged | DoActivate | DoTrigger | DoGate | DoVerifyLater
| DoCached string | DoCutover

fun todos :: "placement \<Rightarrow> todo list" where
  "todos Inbound = [DoPlace Inbound, DoCached ''migration-started'']"
| "todos (Handover target source) =
     (if target then [DoPlace (Handover True False), DoCutover] else []) @
     (if source then [DoPlace (Handover False True), DoCutover] else [])"
| "todos Abandoned = [DoPlace Abandoned, DoCached ''migration-failed-cache'']"
| "todos Started = [DoCheckStaged, DoActivate, DoTrigger]"
| "todos Stopped = [DoPlace Stopped, DoTrigger]"
| "todos Observed = [DoPlace Observed]"
| "todos BatchDone = [DoGate]"
| "todos Irrelevant = []"

text \<open>The applies among them: the source, and what follows the apply.\<close>

fun cached_source :: "todo \<Rightarrow> (string \<times> todo list) option" where
  "cached_source (DoCached source) = Some (source, [])"
| "cached_source DoCutover = Some (''migration-synced-cache'', [DoVerifyLater])"
| "cached_source _ = None"

text \<open>Each of the others, and an apply that finds no cache to apply.\<close>

fun do_todo :: "CloudEvent \<Rightarrow> gtime \<Rightarrow> todo \<Rightarrow> todo list \<Rightarrow> Reconciler \<Rightarrow> todo list \<times> Reconciler" where
  "do_todo evt now (DoPlace p) later R =
     (later, R\<lparr>store := place p (CEData evt) (event_time now evt) (store R)\<rparr>)"
| "do_todo evt now DoCheckStaged later R =
     (if (case Get (EvtVMID (CEData evt)) (store R) of Some vm \<Rightarrow> Status vm = StatusStaged | None \<Rightarrow> False)
      then [] else later, R)"
| "do_todo evt now DoActivate later R =
     (later, R\<lparr>store := SetActive (EvtVMID (CEData evt)) (EvtName (CEData evt)) (event_time now evt) (store R)\<rparr>)"
| "do_todo evt now DoTrigger later R = (later, TriggerReconcile R)"
| "do_todo evt now DoGate later R =
     (later, if shouldFullFetchForSnapshot now (reconcileIntervalOrDefault R) R then TriggerReconcile R else R)"
| "do_todo evt now DoVerifyLater later R = (later, verifyLater R)"
| "do_todo evt now (DoCached source) later R = (later, TriggerReconcile R)"
| "do_todo evt now DoCutover later R = (later, TriggerReconcile R)"

text \<open>
  Where the loop is: at its \<open>select\<close>; with the result of a fetch; in the apply of a failed
  fetch; with a delta, or a listing that is already booked, before the mutex; or in an apply
  that holds it.
\<close>

datatype loop =
  Selecting
| Fetched "gerror + NATMapping list"
| Fallback stage
| Taken WebhookDelta
| Booked "NATMapping list"
| Applying

datatype owner = Loop | Handler CloudEvent gtime "todo list"

text \<open>\<open>t_lock\<close> is the apply that holds \<open>reconcileMu\<close>, its stage and its thread.\<close>

record 'w threads =
  t_rec :: Reconciler
  t_world :: 'w
  t_loop :: loop
  t_lock :: "(NATMapping list \<times> apply_source \<times> stage \<times> owner) option"
  t_handlers :: "(CloudEvent \<times> gtime \<times> todo list) list"

datatype tlabel =
  TEvent gtime string CloudEvent
| THandle
| TEnter
| TLeave
| TJob
| TOffer WebhookDelta
| TTrigger
| TVerify
| TTick gtime
| TTake
| TDelta gtime
| TFetch
| TFallback
| TFallbackStep
| TBook gtime
| TFull

inductive tstep :: "'w deps \<Rightarrow> tlabel \<Rightarrow> 'w threads \<Rightarrow> 'w threads \<Rightarrow> bool" for d where
  event: "tstep d (TEvent now subject evt) \<sigma>
    (\<sigma>\<lparr>t_handlers := t_handlers \<sigma> @ [(evt, now, todos (placement_of (node (t_rec \<sigma>)) subject evt))]\<rparr>)"
| handle: "t_handlers \<sigma> = hs @ (evt, now, t # later) # hs' \<Longrightarrow>
    cached_source t = None \<or> \<not> mappingCacheReady (t_rec \<sigma>) \<and> t_lock \<sigma> = None \<Longrightarrow>
    do_todo evt now t later (t_rec \<sigma>) = (later', R') \<Longrightarrow>
    tstep d THandle \<sigma> (\<sigma>\<lparr>t_rec := R', t_handlers := hs @ (evt, now, later') # hs'\<rparr>)"
| enter: "t_handlers \<sigma> = hs @ (evt, now, t # later) # hs' \<Longrightarrow>
    cached_source t = Some (source, after) \<Longrightarrow> mappingCacheReady (t_rec \<sigma>) \<Longrightarrow> t_lock \<sigma> = None \<Longrightarrow>
    ms = cachedMappings (t_rec \<sigma>) \<Longrightarrow>
    tstep d TEnter \<sigma>
      (\<sigma>\<lparr>t_lock := Some (ms, sourceCached source, start_job ms (sourceCached source) (t_rec \<sigma>),
                        Handler evt now (after @ later)),
         t_handlers := hs @ hs'\<rparr>)"
| leave: "t_handlers \<sigma> = hs @ (evt, now, []) # hs' \<Longrightarrow>
    tstep d TLeave \<sigma> (\<sigma>\<lparr>t_handlers := hs @ hs'\<rparr>)"
| job: "t_lock \<sigma> = Some (ms, source, g, who) \<Longrightarrow>
    job_step d ms source g (t_rec \<sigma>, t_world \<sigma>) = (Some g', R', w') \<Longrightarrow>
    tstep d TJob \<sigma> (\<sigma>\<lparr>t_rec := R', t_world := w', t_lock := Some (ms, source, g', who)\<rparr>)"
| release: "t_lock \<sigma> = Some (ms, source, g, who) \<Longrightarrow>
    job_step d ms source g (t_rec \<sigma>, t_world \<sigma>) = (None, R', w') \<Longrightarrow>
    tstep d TJob \<sigma>
      (\<sigma>\<lparr>t_rec := R', t_world := w', t_loop := (if who = Loop then Selecting else t_loop \<sigma>), t_lock := None,
         t_handlers := (case who of Loop \<Rightarrow> t_handlers \<sigma> | Handler evt now later \<Rightarrow> t_handlers \<sigma> @ [(evt, now, later)])\<rparr>)"
| offer: "ApplyWebhookDelta delta (t_rec \<sigma>) = (accepted, R') \<Longrightarrow>
    tstep d (TOffer delta) \<sigma> (\<sigma>\<lparr>t_rec := (if accepted then R' else TriggerReconcile R')\<rparr>)"
| trigger: "tstep d TTrigger \<sigma> (\<sigma>\<lparr>t_rec := TriggerReconcile (t_rec \<sigma>)\<rparr>)"
| verify: "verifyPending (t_rec \<sigma>) \<Longrightarrow> tstep d TVerify \<sigma> (\<sigma>\<lparr>t_rec := verify_fires (t_rec \<sigma>)\<rparr>)"
| tick: "t_loop \<sigma> = Selecting \<Longrightarrow>
    tstep d (TTick now) \<sigma> (\<sigma>\<lparr>t_rec := TriggerReconcile (expireStagedVMs now (t_rec \<sigma>))\<rparr>)"
| take: "t_loop \<sigma> = Selecting \<Longrightarrow> webhookDeltaCh (t_rec \<sigma>) = delta # rest \<Longrightarrow>
    tstep d TTake \<sigma> (\<sigma>\<lparr>t_rec := (t_rec \<sigma>)\<lparr>webhookDeltaCh := rest\<rparr>, t_loop := Taken delta\<rparr>)"
| delta: "t_loop \<sigma> = Taken delta \<Longrightarrow> t_lock \<sigma> = None \<Longrightarrow>
    R' = delta_applied (ReadBackup d (t_world \<sigma>)) now delta (t_rec \<sigma>) \<Longrightarrow> ms = cachedMappings R' \<Longrightarrow>
    tstep d (TDelta now) \<sigma>
      (\<sigma>\<lparr>t_rec := R', t_loop := Applying, t_lock := Some (ms, sourceWebhookDelta, start_job ms sourceWebhookDelta R', Loop)\<rparr>)"
| fetch: "t_loop \<sigma> = Selecting \<Longrightarrow> reconcileCh (t_rec \<sigma>) \<Longrightarrow> FetchNATMappings d (t_world \<sigma>) = (res, w') \<Longrightarrow>
    tstep d TFetch \<sigma> (\<sigma>\<lparr>t_rec := (t_rec \<sigma>)\<lparr>reconcileCh := False\<rparr>, t_world := w', t_loop := Fetched res\<rparr>)"
| fallback: "t_loop \<sigma> = Fetched (Inl err) \<Longrightarrow>
    tstep d TFallback \<sigma> (\<sigma>\<lparr>t_loop := Fallback (start_job [] sourceBackupFallback (t_rec \<sigma>))\<rparr>)"
| fallback_step: "t_loop \<sigma> = Fallback g \<Longrightarrow>
    job_step d [] sourceBackupFallback g (t_rec \<sigma>, t_world \<sigma>) = (g', R', w') \<Longrightarrow>
    tstep d TFallbackStep \<sigma>
      (\<sigma>\<lparr>t_rec := R', t_world := w', t_loop := (case g' of None \<Rightarrow> Selecting | Some h \<Rightarrow> Fallback h)\<rparr>)"
| book: "t_loop \<sigma> = Fetched (Inr ms) \<Longrightarrow>
    tstep d (TBook now) \<sigma>
      (\<sigma>\<lparr>t_rec := (t_rec \<sigma>)\<lparr>lastFullFetch := now, lastActiveKey := activeStateKey (t_rec \<sigma>)\<rparr>, t_loop := Booked ms\<rparr>)"
| full: "t_loop \<sigma> = Booked ms \<Longrightarrow> t_lock \<sigma> = None \<Longrightarrow> R' = rebuildMappingCache ms (t_rec \<sigma>) \<Longrightarrow>
    tstep d TFull \<sigma>
      (\<sigma>\<lparr>t_rec := R', t_loop := Applying, t_lock := Some (ms, sourceFullFetch, start_job ms sourceFullFetch R', Loop)\<rparr>)"

inductive tsteps :: "'w deps \<Rightarrow> tlabel list \<Rightarrow> 'w threads \<Rightarrow> 'w threads \<Rightarrow> bool" for d where
  none: "tsteps d [] \<sigma> \<sigma>"
| more: "tstep d l \<sigma> \<sigma>' \<Longrightarrow> tsteps d ls \<sigma>' \<sigma>'' \<Longrightarrow> tsteps d (l # ls) \<sigma> \<sigma>''"

text \<open>Nobody in the mutex; and, for the start, no handler, the loop at its \<open>select\<close>.\<close>

definition unlocked :: "loop \<Rightarrow> (CloudEvent \<times> gtime \<times> todo list) list \<Rightarrow> Reconciler \<times> 'w \<Rightarrow> 'w threads" where
  "unlocked lp hs s = \<lparr>t_rec = fst s, t_world = snd s, t_loop = lp, t_lock = None, t_handlers = hs\<rparr>"

abbreviation quiet :: "Reconciler \<Rightarrow> 'w \<Rightarrow> 'w threads" where
  "quiet R w \<equiv> unlocked Selecting [] (R, w)"

section \<open>The invariant\<close>

fun loop_ok :: "Addr set \<Rightarrow> loop \<Rightarrow> bool" where
  "loop_ok E (Fetched res) \<longleftrightarrow> fetched_ok E (Some res)"
| "loop_ok E (Fallback g) \<longleftrightarrow> stage_ok E g"
| "loop_ok E (Taken delta) \<longleftrightarrow> delta_ok E delta"
| "loop_ok E (Booked ms) \<longleftrightarrow> (\<forall>m \<in> set ms. owned E m)"
| "loop_ok E _ \<longleftrightarrow> True"

fun tlabel_ok :: "Addr set \<Rightarrow> tlabel \<Rightarrow> bool" where
  "tlabel_ok E (TOffer delta) \<longleftrightarrow> delta_ok E delta"
| "tlabel_ok E _ \<longleftrightarrow> True"

definition in_fallback :: "loop \<Rightarrow> bool" where
  "in_fallback l \<longleftrightarrow> (case l of Fallback _ \<Rightarrow> True | _ \<Rightarrow> False)"

abbreviation lock_stage :: "'w threads \<Rightarrow> stage option" where
  "lock_stage \<sigma> \<equiv> map_option (\<lambda>(_, _, g, _). g) (t_lock \<sigma>)"

text \<open>With \<open>strict\<close>, no apply of a failed fetch is under way, and the fingerprint is known.\<close>

definition threads_ok ::
  "bool \<Rightarrow> Addr set \<Rightarrow> (int \<Rightarrow> read_result) \<Rightarrow> ('w \<Rightarrow> Addr set) \<Rightarrow> ('w \<Rightarrow> string option) \<Rightarrow> 'w threads \<Rightarrow> bool" where
  "threads_ok strict E rd addrs table \<sigma> \<longleftrightarrow>
     daemon_inv_on False E rd addrs table (t_rec \<sigma>) (t_world \<sigma>) \<and> loop_ok E (t_loop \<sigma>) \<and>
     (\<forall>ms source g who. t_lock \<sigma> = Some (ms, source, g, who) \<longrightarrow> stage_ok E g \<and> (\<forall>m \<in> set ms. owned E m)) \<and>
     (strict \<longrightarrow> \<not> in_fallback (t_loop \<sigma>) \<and> key_known table (lock_stage \<sigma>) (t_rec \<sigma>) (t_world \<sigma>))"

definition same_key :: "Reconciler \<Rightarrow> Reconciler \<Rightarrow> bool" where
  "same_key R R' \<longleftrightarrow> rulesetKeyValid R' = rulesetKeyValid R \<and> lastRulesetKey R' = lastRulesetKey R"

lemma key_known_same:
  assumes "same_key R R'" "table w' = table w"
  shows "key_known table g R' w' = key_known table g R w"
  using assms by (cases "(table, g, R, w)" rule: key_known.cases) (simp_all add: same_key_def nft_inv_def)

lemma key_known_start [simp]: "key_known table (Some (start_job ms source R)) R' w = nft_inv table R' w"
  by (simp add: start_job_def Let_def)

lemma stage_ok_start [simp]: "stage_ok E (start_job ms source R)"
  by (simp add: start_job_def Let_def resolution_ok_def mgetd_def)

lemma same_key_simps [simp]:
  "same_key R (R\<lparr>store := st\<rparr>)" "same_key R (R\<lparr>webhookDeltaCh := ds\<rparr>)" "same_key R (R\<lparr>reconcileCh := b\<rparr>)"
  "same_key R (R\<lparr>lastFullFetch := t, lastActiveKey := k\<rparr>)" "same_key R (TriggerReconcile R)" "same_key R (verifyLater R)"
  "same_key R (verify_fires R)" "same_key R (TriggerReconcile (expireStagedVMs now R))" "same_key R R"
  "same_key R (rebuildMappingCache ms R)"
  by (simp_all add: same_key_def TriggerReconcile_def verifyLater_def verify_fires_def expireStagedVMs_def rebuildMappingCache_def)

lemma same_key_delta: "same_key R (delta_applied rd now delta R)"
proof -
  let ?R = "if mappingCacheReady R then R
        else R\<lparr>mappingByVMID := [], mappingPendingByName := [], vmIDByName := [], mappingCacheReady := True\<rparr>"
  let ?S = "applyDeltaToState now delta ?R"
  obtain b where D: "delta_applied rd now delta R = (applyDeltaToCache delta ?S)\<lparr>backup := b\<rparr>"
    unfolding delta_applied_def using sync_frame by blast
  have "same_key R ?S" by (simp add: same_key_def applyDeltaToState_def)
  then show ?thesis unfolding D using cache_frameD [OF delta_frame [of ?S delta]] by (simp add: same_key_def)
qed

lemma offer_inv:
  assumes "ApplyWebhookDelta delta R = (accepted, R')" and "daemon_inv_on strict E rd addrs table R w" and "delta_ok E delta"
  shows "daemon_inv_on strict E rd addrs table (if accepted then R' else TriggerReconcile R') w \<and>
    same_key R (if accepted then R' else TriggerReconcile R')"
proof (cases "length (webhookDeltaCh R) < webhookDeltaCap")
  case True
  then have "accepted" "R' = R\<lparr>webhookDeltaCh := webhookDeltaCh R @ [delta]\<rparr>"
    using assms(1) by (simp_all add: ApplyWebhookDelta_def)
  then show ?thesis using daemon_inv_deltas [OF assms(2)] True assms(2,3) by (simp add: daemon_inv_on_def)
next
  case False
  then show ?thesis using assms(1,2) by (auto simp: ApplyWebhookDelta_def daemon_inv_signals)
qed

lemma expire_inv:
  assumes "daemon_inv_on strict E rd addrs table R w"
  shows "daemon_inv_on strict E rd addrs table (expireStagedVMs now R) w"
  unfolding expireStagedVMs_def using assms
  by (intro daemon_inv_store store_wf_ExpireStaged) (simp_all add: daemon_inv_on_def)

lemma taken_inv:
  assumes "daemon_inv_on strict E rd addrs table R w" and "webhookDeltaCh R = delta # rest"
  shows "daemon_inv_on strict E rd addrs table (R\<lparr>webhookDeltaCh := rest\<rparr>) w \<and> delta_ok E delta"
  using assms by (simp add: daemon_inv_deltas daemon_inv_on_def [of _ _ _ _ _ R])

lemma todo_inv:
  assumes "do_todo evt now t later R = (later', R')" and "daemon_inv_on False E rd addrs table R w"
  shows "daemon_inv_on False E rd addrs table R' w \<and> same_key R R'"
proof -
  have wf: "store_wf (store R)" using assms(2) by (simp add: daemon_inv_on_def)
  have st: "daemon_inv_on False E rd addrs table (R\<lparr>store := st\<rparr>) w" if "store_wf st" for st
    using daemon_inv_store [OF assms(2) that] .
  show ?thesis
    using assms st [OF place_wf [OF wf]] st [of "SetActive v n u (store R)" for v n u] wf
    by (cases t) (auto simp: daemon_inv_signals SetActive_def store_wf_store_set)
qed

text \<open>Steps that leave the host alone: without a change of the mutex, and into it.\<close>

lemma threads_ok_still:
  assumes "threads_ok strict E rd addrs table \<sigma>" and "t_world \<sigma>' = t_world \<sigma>" and "t_lock \<sigma>' = t_lock \<sigma>"
    and "daemon_inv_on False E rd addrs table (t_rec \<sigma>') (t_world \<sigma>)" and "same_key (t_rec \<sigma>) (t_rec \<sigma>')"
    and "loop_ok E (t_loop \<sigma>')" and "strict \<longrightarrow> \<not> in_fallback (t_loop \<sigma>')"
  shows "threads_ok strict E rd addrs table \<sigma>' \<and> touches E addrs table (t_world \<sigma>) (t_world \<sigma>')"
proof -
  have "key_known table g (t_rec \<sigma>') (t_world \<sigma>) = key_known table g (t_rec \<sigma>) (t_world \<sigma>)" for g
    by (rule key_known_same [OF assms(5)]) simp
  then show ?thesis using assms by (auto simp: threads_ok_def)
qed

lemma threads_ok_locked:
  assumes "threads_ok strict E rd addrs table \<sigma>" and "t_world \<sigma>' = t_world \<sigma>" and "t_lock \<sigma> = None"
    and "t_lock \<sigma>' = Some (ms, source, start_job ms source R, who)" and "\<forall>m \<in> set ms. owned E m"
    and "daemon_inv_on False E rd addrs table (t_rec \<sigma>') (t_world \<sigma>)" and "same_key (t_rec \<sigma>) (t_rec \<sigma>')"
    and "loop_ok E (t_loop \<sigma>')" and "strict \<longrightarrow> \<not> in_fallback (t_loop \<sigma>')"
  shows "threads_ok strict E rd addrs table \<sigma>' \<and> touches E addrs table (t_world \<sigma>) (t_world \<sigma>')"
proof -
  have "key_known table None (t_rec \<sigma>') (t_world \<sigma>) = key_known table None (t_rec \<sigma>) (t_world \<sigma>)"
    by (rule key_known_same [OF assms(7)]) simp
  then show ?thesis using assms by (auto simp: threads_ok_def)
qed

lemma threads_okD:
  assumes "threads_ok strict E rd addrs table \<sigma>"
  shows "daemon_inv_on False E rd addrs table (t_rec \<sigma>) (t_world \<sigma>)" and "loop_ok E (t_loop \<sigma>)"
    and "t_lock \<sigma> = Some (ms, source, g, who) \<Longrightarrow> stage_ok E g \<and> (\<forall>m \<in> set ms. owned E m)"
    and "strict \<Longrightarrow> \<not> in_fallback (t_loop \<sigma>) \<and> key_known table (lock_stage \<sigma>) (t_rec \<sigma>) (t_world \<sigma>)"
  using assms by (auto simp: threads_ok_def)

lemma cached_owned:
  "daemon_inv_on False E rd addrs table R w \<Longrightarrow> \<forall>m \<in> set (cachedMappings R). owned E m"
  by (simp add: daemon_inv_on_def data_ok_def)

context host begin

lemma tstep_inv:
  assumes "tstep d l \<sigma> \<sigma>'" and "\<And>w. ReadBackup d w = rd"
    and "\<And>w ms w'. FetchNATMappings d w = (Inr ms, w') \<Longrightarrow> \<forall>m \<in> set ms. owned E m"
    and "ok (t_world \<sigma>)" and "threads_ok strict E rd addrs table \<sigma>" and "tlabel_ok E l" and "strict \<longrightarrow> l \<noteq> TFallback"
  shows "ok (t_world \<sigma>') \<and> threads_ok strict E rd addrs table \<sigma>' \<and> touches E addrs table (t_world \<sigma>) (t_world \<sigma>')"
proof -
  note inv = threads_okD(1) [OF assms(5)] and lp = threads_okD(2) [OF assms(5)]
    and lk = threads_okD(3) [OF assms(5)] and known = threads_okD(4) [OF assms(5)]
    and still = threads_ok_still [OF assms(5)] and locked = threads_ok_locked [OF assms(5)] and cached = cached_owned [OF inv]
  have stepped: "ok w' \<and> daemon_inv_on False E rd addrs table R' w' \<and> touches E addrs table (t_world \<sigma>) w' \<and>
      (\<forall>h. g' = Some h \<longrightarrow> stage_ok E h) \<and>
      (key_known table (Some g) (t_rec \<sigma>) (t_world \<sigma>) \<longrightarrow> key_known table g' R' w')"
    if "job_step d ms source g (t_rec \<sigma>, t_world \<sigma>) = (g', R', w')" "\<forall>m \<in> set ms. owned E m" "stage_ok E g"
    for ms source g g' R' w'
    by (rule job_inv [OF that(1) assms(4,2) inv that(2,3)])
  show ?thesis
    using assms(1)
  proof cases
    case (event now subject evt)
    show ?thesis by (rule conjI [OF _ still]) (use assms(4) event(2) inv lp known in simp_all)
  next
    case (handle hs evt now t later hs' later' R')
    show ?thesis by (rule conjI [OF _ still]) (use assms(4) handle(2) todo_inv [OF handle(5) inv] lp known in simp_all)
  next
    case (enter hs evt now t later hs' source after ms)
    have ms: "\<forall>m \<in> set ms. owned E m" using cached enter(7) by simp
    show ?thesis by (rule conjI [OF _ locked [OF _ enter(6) _ ms]]) (use assms(4) enter(2) inv lp known in simp_all)
  next
    case (leave hs evt now hs')
    show ?thesis by (rule conjI [OF _ still]) (use assms(4) leave(2) inv lp known in simp_all)
  next
    case (job ms source g who g' R' w')
    have "stage_ok E g \<and> (\<forall>m \<in> set ms. owned E m)" using lk job(3) by blast
    with stepped [OF job(4)] show ?thesis using job(2,3) lp known by (simp add: threads_ok_def)
  next
    case (release ms source g who R' w')
    have "stage_ok E g \<and> (\<forall>m \<in> set ms. owned E m)" using lk release(3) by blast
    with stepped [OF release(4)] show ?thesis using release(2,3) lp known by (simp add: threads_ok_def in_fallback_def)
  next
    case (offer delta accepted R')
    have "delta_ok E delta" using assms(6) offer(1) by simp
    note I = offer_inv [OF offer(3) inv this]
    show ?thesis by (rule conjI [OF _ still]) (use assms(4) offer(2) I lp known in simp_all)
  next
    case trigger
    show ?thesis by (rule conjI [OF _ still]) (use assms(4) trigger(2) inv lp known in \<open>simp_all add: daemon_inv_signals\<close>)
  next
    case verify
    have "daemon_inv_on False E rd addrs table (verify_fires (t_rec \<sigma>)) (t_world \<sigma>)"
      using inv by (simp add: verify_fires_def daemon_inv_signals)
    then show ?thesis by (intro conjI [OF _ still]) (use assms(4) verify(2) lp known in simp_all)
  next
    case (tick now)
    show ?thesis by (rule conjI [OF _ still]) (use assms(4) tick(2) expire_inv [OF inv] lp known in \<open>simp_all add: daemon_inv_signals\<close>)
  next
    case (take delta rest)
    show ?thesis by (rule conjI [OF _ still]) (use assms(4) take(2) taken_inv [OF inv take(4)] in \<open>simp_all add: in_fallback_def\<close>)
  next
    case (delta dl R' now ms)
    have "delta_ok E dl" using lp delta(3) by simp
    note I = delta_applied_inv [OF inv this, of now]
    have R': "R' = delta_applied rd now dl (t_rec \<sigma>)" using delta(5) assms(2) by simp
    then have ms: "\<forall>m \<in> set ms. owned E m" using cached_owned [OF I] delta(6) by simp
    show ?thesis
      by (rule conjI [OF _ locked [OF _ delta(4) _ ms]])
        (use assms(4) delta(2) I R' same_key_delta in \<open>simp_all add: in_fallback_def\<close>)
  next
    case (fetch res w')
    note F = fetch_frame [OF assms(4) fetch(5)]
    have "daemon_inv_on False E rd addrs table (t_rec \<sigma>) w'"
      using inv F by (simp add: daemon_inv_on_def adv_inv_def)
    moreover have "fetched_ok E (Some res)" using assms(3) fetch(5) by (auto simp: fetched_ok_def)
    moreover have "key_known table g (t_rec \<sigma>\<lparr>reconcileCh := False\<rparr>) w' = key_known table g (t_rec \<sigma>) (t_world \<sigma>)" for g
      by (rule key_known_same) (use F in simp_all)
    ultimately show ?thesis using F fetch(2) lk known
      by (auto simp: threads_ok_def daemon_inv_signals in_fallback_def touches_def)
  next
    case (fallback err)
    show ?thesis by (rule conjI [OF _ still]) (use assms(4) fallback(1,2) inv assms(7) in simp_all)
  next
    case (fallback_step g g' R' w')
    have st: "stage_ok E g" "\<not> strict" using lp known fallback_step(3) by (auto simp: in_fallback_def)
    from stepped [OF fallback_step(4) _ st(1)] show ?thesis using fallback_step(2) lk st(2)
      by (auto simp: threads_ok_def split: option.split)
  next
    case (book ms now)
    show ?thesis by (rule conjI [OF _ still]) (use assms(4) book(2,3) inv lp in \<open>simp_all add: daemon_inv_signals in_fallback_def fetched_ok_def\<close>)
  next
    case (full ms R')
    have ms: "\<forall>m \<in> set ms. owned E m" using lp full(3) by simp
    show ?thesis
      by (rule conjI [OF _ locked [OF _ full(4) _ ms]])
        (use assms(4) full(2,5) daemon_inv_rebuild [OF inv ms] in \<open>simp_all add: in_fallback_def\<close>)
  qed
qed

end

section \<open>The serial runs are among them\<close>

lemma tsteps_append: "tsteps d ls \<sigma> \<sigma>' \<Longrightarrow> tsteps d ls' \<sigma>' \<sigma>'' \<Longrightarrow> tsteps d (ls @ ls') \<sigma> \<sigma>''"
  by (induction rule: tsteps.induct) (auto intro: tsteps.more)

definition reaches :: "'w deps \<Rightarrow> 'w threads \<Rightarrow> 'w threads \<Rightarrow> bool" where
  "reaches d \<sigma> \<sigma>' \<longleftrightarrow> (\<exists>ls. tsteps d ls \<sigma> \<sigma>')"

lemma reaches_refl [simp]: "reaches d \<sigma> \<sigma>"
  unfolding reaches_def by (blast intro: tsteps.none)

lemma reaches_trans: "reaches d \<sigma> \<sigma>' \<Longrightarrow> reaches d \<sigma>' \<sigma>'' \<Longrightarrow> reaches d \<sigma> \<sigma>''"
  unfolding reaches_def by (blast intro: tsteps_append)

lemma reaches_step: "tstep d l \<sigma> \<sigma>' \<Longrightarrow> reaches d \<sigma> \<sigma>'"
  unfolding reaches_def by (blast intro: tsteps.intros)

text \<open>Who holds the mutex, and where its thread is afterwards.\<close>

fun loop_after :: "owner \<Rightarrow> loop \<Rightarrow> loop" where
  "loop_after Loop lp = Selecting"
| "loop_after (Handler evt now later) lp = lp"

fun handlers_after :: "owner \<Rightarrow> (CloudEvent \<times> gtime \<times> todo list) list \<Rightarrow> (CloudEvent \<times> gtime \<times> todo list) list" where
  "handlers_after Loop hs = hs"
| "handlers_after (Handler evt now later) hs = hs @ [(evt, now, later)]"

lemma locked_run:
  "run_job n d ms source g (R, w) = Some s \<Longrightarrow>
   reaches d \<lparr>t_rec = R, t_world = w, t_loop = lp, t_lock = Some (ms, source, g, who), t_handlers = hs\<rparr>
     (unlocked (loop_after who lp) (handlers_after who hs) s)"
proof (induction n arbitrary: g R w)
  case (Suc n)
  obtain g' R' w' where j: "job_step d ms source g (R, w) = (g', R', w')" by (metis prod.exhaust)
  let ?\<sigma> = "\<lparr>t_rec = R, t_world = w, t_loop = lp, t_lock = Some (ms, source, g, who), t_handlers = hs\<rparr>"
  show ?case
  proof (cases g')
    case None
    then have "s = (R', w')" using Suc.prems j by simp
    moreover have "reaches d ?\<sigma> (unlocked (loop_after who lp) (handlers_after who hs) (R', w'))"
      using reaches_step [OF tstep.release [of ?\<sigma> ms source g who d R' w']] j None
      by (cases who) (simp_all add: unlocked_def)
    ultimately show ?thesis by simp
  next
    case (Some h)
    then have "run_job n d ms source h (R', w') = Some s" using Suc.prems j by simp
    note IH = Suc.IH [OF this]
    have "reaches d ?\<sigma> \<lparr>t_rec = R', t_world = w', t_loop = lp, t_lock = Some (ms, source, h, who), t_handlers = hs\<rparr>"
      using reaches_step [OF tstep.job [of ?\<sigma> ms source g who d h R' w']] j Some by simp
    with IH show ?thesis by (blast intro: reaches_trans)
  qed
qed simp

lemma locked_apply:
  "reaches d \<lparr>t_rec = R, t_world = w, t_loop = lp, t_lock = Some (ms, source, start_job ms source R, who), t_handlers = hs\<rparr>
     (unlocked (loop_after who lp) (handlers_after who hs) (snd (applyMappingsTimed d ms source (R, w))))"
  by (rule locked_run [OF run_job_apply])

lemma handle_step:
  "cached_source t = None \<or> \<not> mappingCacheReady R \<Longrightarrow> do_todo evt now t later R = (later', R') \<Longrightarrow>
   reaches d (unlocked lp [(evt, now, t # later)] (R, w)) (unlocked lp [(evt, now, later')] (R', w))"
  using reaches_step [OF tstep.handle [of "unlocked lp [(evt, now, t # later)] (R, w)" "[]" evt now t later "[]" later' R' d]]
  by (simp add: unlocked_def)

lemma cached_run:
  assumes "cached_source t = Some (source, after)" and "mappingCacheReady R"
  shows "reaches d (unlocked lp [(evt, now, t # later)] (R, w))
    (unlocked lp [(evt, now, after @ later)]
      (snd (applyMappingsTimed d (cachedMappings R) (sourceCached source) (R, w))))"
proof -
  let ?\<sigma> = "unlocked lp [(evt, now, t # later)] (R, w)"
  have "reaches d ?\<sigma> \<lparr>t_rec = R, t_world = w, t_loop = lp,
      t_lock = Some (cachedMappings R, sourceCached source, start_job (cachedMappings R) (sourceCached source) R,
        Handler evt now (after @ later)), t_handlers = []\<rparr>"
    using reaches_step [OF tstep.enter [of ?\<sigma> "[]" evt now t later "[]" source after "cachedMappings R" d]] assms
    by (simp add: unlocked_def)
  from reaches_trans [OF this locked_apply] show ?thesis by simp
qed

lemma apply_or_trigger_run:
  "reaches d (unlocked lp [(evt, now, DoCached source # later)] s) (unlocked lp [(evt, now, later)] (apply_or_trigger d source s))"
proof (cases s)
  case (Pair R w)
  show ?thesis
  proof (cases "mappingCacheReady R")
    case True
    then show ?thesis using cached_run [of "DoCached source" source "[]" R d lp evt now later w]
      by (simp add: Pair apply_or_trigger_def applyCachedImmediately_def split_beta)
  next
    case False
    then show ?thesis by (simp add: Pair apply_or_trigger_def applyCachedImmediately_def handle_step)
  qed
qed

lemma cutover_run:
  "reaches d (unlocked lp [(evt, now, DoCutover # later)] s) (unlocked lp [(evt, now, later)] (cutover d s))"
proof (cases s)
  case (Pair R w)
  show ?thesis
  proof (cases "mappingCacheReady R")
    case True
    let ?source = "''migration-synced-cache''"
    obtain R1 w1 where 1: "snd (applyMappingsTimed d (cachedMappings R) (sourceCached ?source) (R, w)) = (R1, w1)" by fastforce
    have "reaches d (unlocked lp [(evt, now, DoCutover # later)] (R, w)) (unlocked lp [(evt, now, DoVerifyLater # later)] (R1, w1))"
      using cached_run [of DoCutover ?source "[DoVerifyLater]" R d lp evt now later w] True 1 by simp
    moreover have "reaches d (unlocked lp [(evt, now, DoVerifyLater # later)] (R1, w1)) (unlocked lp [(evt, now, later)] (verifyLater R1, w1))"
      by (rule handle_step) simp_all
    ultimately have "reaches d (unlocked lp [(evt, now, DoCutover # later)] (R, w)) (unlocked lp [(evt, now, later)] (verifyLater R1, w1))"
      by (rule reaches_trans)
    then show ?thesis using True 1 by (simp add: Pair cutover_def applyCachedImmediately_def)
  next
    case False
    then show ?thesis by (simp add: Pair cutover_def applyCachedImmediately_def handle_step)
  qed
qed

lemma place_run:
  "reaches d (unlocked lp [(evt, now, DoPlace p # later)] (R, w))
     (unlocked lp [(evt, now, later)] (R\<lparr>store := place p (CEData evt) (event_time now evt) (store R)\<rparr>, w))"
  by (rule handle_step) simp_all

lemma handler_run:
  "reaches d (unlocked lp [(evt, now, todos p)] (R, w)) (unlocked lp [(evt, now, [])] (handle_as d now evt p R w))"
proof (cases p)
  case (Handover target source)
  let ?P = "\<lambda>q Q. Q\<lparr>store := place q (CEData evt) (event_time now evt) (store Q)\<rparr>"
  let ?tail = "if source then [DoPlace (Handover False True), DoCutover] else []"
  obtain R1 w1 where 1: "(if target then cutover d (?P (Handover True False) R, w) else (R, w)) = (R1, w1)" by fastforce
  have A: "reaches d (unlocked lp [(evt, now, todos p)] (R, w)) (unlocked lp [(evt, now, ?tail)] (R1, w1))"
  proof (cases target)
    case True
    then show ?thesis
      using reaches_trans [OF place_run [of d lp evt now "Handover True False" "DoCutover # ?tail" R w] cutover_run] 1
      by (simp add: Handover)
  qed (use 1 Handover in simp)
  have B: "reaches d (unlocked lp [(evt, now, ?tail)] (R1, w1)) (unlocked lp [(evt, now, [])]
      (if source then cutover d (?P (Handover False True) R1, w1) else (R1, w1)))"
    by (cases source) (simp_all add: reaches_trans [OF place_run cutover_run] del: place.simps)
  have C: "handle_as d now evt p R w = (if source then cutover d (?P (Handover False True) R1, w1) else (R1, w1))"
    using 1 by (simp add: Handover Let_def del: place.simps)
  show ?thesis unfolding C by (rule reaches_trans [OF A B])
next
  case Started
  let ?staged = "case Get (EvtVMID (CEData evt)) (store R) of Some vm \<Rightarrow> Status vm = StatusStaged | None \<Rightarrow> False"
  let ?R = "R\<lparr>store := SetActive (EvtVMID (CEData evt)) (EvtName (CEData evt)) (event_time now evt) (store R)\<rparr>"
  have 1: "reaches d (unlocked lp [(evt, now, todos p)] (R, w))
      (unlocked lp [(evt, now, if ?staged then [] else [DoActivate, DoTrigger])] (R, w))"
    unfolding Started todos.simps by (rule handle_step) simp_all
  have 2: "reaches d (unlocked lp [(evt, now, [DoActivate, DoTrigger])] (R, w)) (unlocked lp [(evt, now, [DoTrigger])] (?R, w))"
    by (rule handle_step) simp_all
  have 3: "reaches d (unlocked lp [(evt, now, [DoTrigger])] (?R, w)) (unlocked lp [(evt, now, [])] (TriggerReconcile ?R, w))"
    by (rule handle_step) simp_all
  show ?thesis
  proof (cases ?staged)
    case True
    then show ?thesis using 1 by (simp add: Started)
  next
    case False
    then show ?thesis using reaches_trans [OF 1 [unfolded if_not_P [OF False]] reaches_trans [OF 2 3]]
      by (simp add: Started)
  qed
next
  case Stopped
  have "reaches d (unlocked lp [(evt, now, [DoTrigger])] (Q, w)) (unlocked lp [(evt, now, [])] (TriggerReconcile Q, w))" for Q
    by (rule handle_step) simp_all
  from reaches_trans [OF place_run this] show ?thesis unfolding Stopped todos.simps handle_as.simps .
next
  case BatchDone
  show ?thesis unfolding BatchDone todos.simps by (simp add: handle_step)
next
  case Irrelevant
  then show ?thesis by simp
next
  case Observed
  show ?thesis unfolding Observed todos.simps handle_as.simps by (rule place_run)
next
  case Inbound
  show ?thesis unfolding Inbound todos.simps handle_as.simps by (rule reaches_trans [OF place_run apply_or_trigger_run])
next
  case Abandoned
  show ?thesis unfolding Abandoned todos.simps handle_as.simps by (rule reaches_trans [OF place_run apply_or_trigger_run])
qed

lemma event_run:
  "reaches d (unlocked lp [] (R, w)) (unlocked lp [] (HandleEvent d now subject evt (R, w)))"
proof -
  let ?p = "placement_of (node R) subject evt"
  have 1: "reaches d (unlocked lp [] (R, w)) (unlocked lp [(evt, now, todos ?p)] (R, w))"
    using reaches_step [OF tstep.event [of d now subject evt "unlocked lp [] (R, w)"]] by (simp add: unlocked_def)
  have 2: "reaches d (unlocked lp [(evt, now, [])] s) (unlocked lp [] s)" for s
    using reaches_step [OF tstep.leave [of "unlocked lp [(evt, now, [])] s" "[]" evt now "[]" d]] by (simp add: unlocked_def)
  show ?thesis unfolding HandleEvent_as by (rule reaches_trans [OF 1 reaches_trans [OF handler_run 2]])
qed

lemma fallback_run:
  "run_job n d [] sourceBackupFallback g s = Some s' \<Longrightarrow> reaches d (unlocked (Fallback g) hs s) (unlocked Selecting hs s')"
proof (induction n arbitrary: g s)
  case (Suc n)
  obtain R w where s: "s = (R, w)" by fastforce
  obtain g' R' w' where j: "job_step d [] sourceBackupFallback g (R, w) = (g', R', w')" by (metis prod.exhaust)
  let ?\<sigma> = "unlocked (Fallback g) hs (R, w)"
  have "reaches d ?\<sigma> (unlocked (case g' of None \<Rightarrow> Selecting | Some h \<Rightarrow> Fallback h) hs (R', w'))"
    using reaches_step [OF tstep.fallback_step [of ?\<sigma> g d g' R' w']] j by (simp add: unlocked_def)
  moreover have "reaches d (unlocked (case g' of None \<Rightarrow> Selecting | Some h \<Rightarrow> Fallback h) hs (R', w')) (unlocked Selecting hs s')"
    using Suc.IH [of _ "(R', w')"] Suc.prems by (cases g') (simp_all add: s j)
  ultimately show ?case unfolding s by (rule reaches_trans)
qed simp

lemma finish_run:
  assumes "finish_reconcile d now res (R, w) = (err, R', w')"
  shows "reaches d (unlocked (Fetched res) [] (R, w)) (quiet R' w')"
proof (cases res)
  case (Inl e)
  have "snd (applyMappingsTimed d [] sourceBackupFallback (R, w)) = (R', w')"
    using assms Inl by (simp add: finish_reconcile_def applyMappings_def)
  then have "reaches d (unlocked (Fallback (start_job [] sourceBackupFallback R)) [] (R, w)) (quiet R' w')"
    using fallback_run [OF run_job_apply [of R d "[]" sourceBackupFallback w], of "[]"] by simp
  moreover have "reaches d (unlocked (Fetched res) [] (R, w)) (unlocked (Fallback (start_job [] sourceBackupFallback R)) [] (R, w))"
    using reaches_step [OF tstep.fallback [of "unlocked (Fetched res) [] (R, w)" e d]] Inl by (simp add: unlocked_def)
  ultimately show ?thesis using reaches_trans by blast
next
  case (Inr ms)
  let ?R1 = "R\<lparr>lastFullFetch := now, lastActiveKey := activeStateKey R\<rparr>" and ?lock = "\<lambda>Q. Some (ms, sourceFullFetch, start_job ms sourceFullFetch Q, Loop)"
  let ?R2 = "rebuildMappingCache ms ?R1"
  have 1: "reaches d (unlocked (Fetched res) [] (R, w)) (unlocked (Booked ms) [] (?R1, w))"
    using reaches_step [OF tstep.book [of "unlocked (Fetched res) [] (R, w)" ms d now]] Inr by (simp add: unlocked_def)
  have 2: "reaches d (unlocked (Booked ms) [] (?R1, w))
      \<lparr>t_rec = ?R2, t_world = w, t_loop = Applying, t_lock = ?lock ?R2, t_handlers = []\<rparr>"
    using reaches_step [OF tstep.full [of "unlocked (Booked ms) [] (?R1, w)" ms ?R2 d]] by (simp add: unlocked_def)
  have "snd (applyMappingsTimed d ms sourceFullFetch (?R2, w)) = (R', w')"
    using assms Inr by (simp add: finish_reconcile_def applyMappings_def)
  then show ?thesis using reaches_trans [OF 1 reaches_trans [OF 2 locked_apply]] by simp
qed

text \<open>Where the loop is between two steps of the serial model.\<close>

definition loop_at :: "(gerror + NATMapping list) option \<Rightarrow> loop" where
  "loop_at f = (case f of None \<Rightarrow> Selecting | Some res \<Rightarrow> Fetched res)"

lemma loop_at_simps [simp]: "loop_at None = Selecting" "loop_at (Some res) = Fetched res"
  by (simp_all add: loop_at_def)

lemma serial_step:
  assumes "dstep d l (R, w, f) (R', w', f')"
  shows "reaches d (unlocked (loop_at f) [] (R, w)) (unlocked (loop_at f') [] (R', w'))"
  using assms
proof cases
  case (event now subject evt)
  then show ?thesis using event_run [of d "loop_at f" R w now subject evt] by simp
next
  case (offer delta accepted Q)
  then show ?thesis using reaches_step [OF tstep.offer [of delta "unlocked (loop_at f) [] (R, w)" accepted Q d]]
    by (simp add: unlocked_def)
next
  case trigger
  then show ?thesis using reaches_step [OF tstep.trigger [of d "unlocked (loop_at f) [] (R, w)"]] by (simp add: unlocked_def)
next
  case verify
  then show ?thesis using reaches_step [OF tstep.verify [of "unlocked (loop_at f) [] (R, w)" d]] by (simp add: unlocked_def)
next
  case (tick now)
  then show ?thesis using reaches_step [OF tstep.tick [of "quiet R w" d now]] by (simp add: unlocked_def)
next
  case (delta dl rest now err)
  let ?R = "R\<lparr>webhookDeltaCh := rest\<rparr>"
  let ?Q = "delta_applied (ReadBackup d w) now dl ?R"
  have 1: "reaches d (quiet R w) (unlocked (Taken dl) [] (?R, w))"
    using reaches_step [OF tstep.take [of "quiet R w" dl rest d]] delta(4) by (simp add: unlocked_def)
  have 2: "reaches d (unlocked (Taken dl) [] (?R, w))
      \<lparr>t_rec = ?Q, t_world = w, t_loop = Applying,
       t_lock = Some (cachedMappings ?Q, sourceWebhookDelta, start_job (cachedMappings ?Q) sourceWebhookDelta ?Q, Loop), t_handlers = []\<rparr>"
    using reaches_step [OF tstep.delta [of "unlocked (Taken dl) [] (?R, w)" dl ?Q d now "cachedMappings ?Q"]] by (simp add: unlocked_def)
  have "snd (applyMappingsTimed d (cachedMappings ?Q) sourceWebhookDelta (?Q, w)) = (R', w')"
    using delta(5) by (simp add: reconcileFromWebhookDelta_apply Let_def)
  then show ?thesis using reaches_trans [OF 1 reaches_trans [OF 2 locked_apply]] delta(2,3) by simp
next
  case (fetch res)
  then show ?thesis using reaches_step [OF tstep.fetch [of "quiet R w" d res w']] by (simp add: unlocked_def)
next
  case (finish now res err)
  then show ?thesis using finish_run [OF finish(4)] by simp
qed

lemma serial_run:
  "dsteps d ls s s' \<Longrightarrow>
   reaches d (unlocked (loop_at (snd (snd s))) [] (fst s, fst (snd s))) (unlocked (loop_at (snd (snd s'))) [] (fst s', fst (snd s')))"
proof (induction rule: dsteps.induct)
  case (more l s s' ls s'')
  obtain R w f R' w' f' where "s = (R, w, f)" "s' = (R', w', f')" by (metis prod.exhaust)
  with more serial_step [of d l R w f R' w' f'] show ?case using reaches_trans by fastforce
qed simp



section \<open>Every interleaving is sound\<close>

context host begin

lemma tsteps_inv:
  assumes "tsteps d ls \<sigma> \<sigma>'" and "\<And>w. ReadBackup d w = rd"
    and "\<And>w ms w'. FetchNATMappings d w = (Inr ms, w') \<Longrightarrow> \<forall>m \<in> set ms. owned E m"
    and "list_all (tlabel_ok E) ls" and "strict \<longrightarrow> TFallback \<notin> set ls"
    and "ok (t_world \<sigma>)" and "threads_ok strict E rd addrs table \<sigma>"
  shows "ok (t_world \<sigma>') \<and> threads_ok strict E rd addrs table \<sigma>' \<and> touches E addrs table (t_world \<sigma>) (t_world \<sigma>')"
  using assms(1,4-7)
proof induction
  case (more l \<sigma> \<sigma>' ls \<sigma>'')
  have 1: "ok (t_world \<sigma>') \<and> threads_ok strict E rd addrs table \<sigma>' \<and> touches E addrs table (t_world \<sigma>) (t_world \<sigma>')"
    by (rule tstep_inv [OF more(1) assms(2,3) more.prems(3,4)]) (use more.prems(1,2) in auto)
  have 2: "ok (t_world \<sigma>'') \<and> threads_ok strict E rd addrs table \<sigma>'' \<and> touches E addrs table (t_world \<sigma>') (t_world \<sigma>'')"
    using more.IH more.prems(1,2) 1 by auto
  have "touches E addrs table (t_world \<sigma>) (t_world \<sigma>'')"
    by (rule touches_trans [OF conjunct2 [OF conjunct2 [OF 1]] conjunct2 [OF conjunct2 [OF 2]]])
  with 2 show ?case by blast
qed simp

end

lemma threads_sound:
  assumes "live_host exec m h fetch addrs table"
    and "\<forall>u ms. fst (fetch u) = Inr ms \<longrightarrow> list_all (owned E) ms"
    and "daemon_inv E rd addrs table R w" and "list_all (tlabel_ok E) ls"
    and "tsteps (live_deps exec m h fetch (\<lambda>_. rd)) ls (quiet R w) \<sigma>"
  shows "threads_ok (TFallback \<notin> set ls) E rd addrs table \<sigma> \<and> touches E addrs table w (t_world \<sigma>)"
proof -
  let ?d = "live_deps exec m h fetch (\<lambda>_. rd)"
  have f: "\<forall>m \<in> set ms. owned E m" if "FetchNATMappings ?d u = (Inr ms, u')" for u ms u'
  proof -
    have "fst (fetch u) = Inr ms" using that by (simp add: live_deps_def)
    then show ?thesis using assms(2) by (simp add: list_all_iff)
  qed
  have "threads_ok True E rd addrs table (quiet R w)"
    using assms(3) by (simp add: threads_ok_def unlocked_def in_fallback_def daemon_inv_on_def)
  then have "threads_ok (TFallback \<notin> set ls) E rd addrs table (quiet R w)" by (auto simp: threads_ok_def)
  from live.tsteps_inv [OF assms(5) ReadBackup_live f assms(4) _ _ this] assms(1) show ?thesis
    by (simp add: unlocked_def)
qed

text \<open>What the invariant says of the state. The fingerprint is only known while no apply of a
  failed fetch has run, and while no apply is between its load and its record.\<close>

lemma threads_ok_facts:
  assumes "threads_ok strict E rd addrs table \<sigma>"
  shows "store_wf (store (t_rec \<sigma>)) \<and> cache_inv (t_rec \<sigma>) \<and> data_ok E rd (t_rec \<sigma>) \<and>
    length (webhookDeltaCh (t_rec \<sigma>)) \<le> 32 \<and> set (advertisedIPs (t_rec \<sigma>)) \<subseteq> addrs (t_world \<sigma>) \<inter> E \<and>
    (strict \<and> t_lock \<sigma> = None \<and> rulesetKeyValid (t_rec \<sigma>) \<longrightarrow>
       (\<exists>ms. lastRulesetKey (t_rec \<sigma>) = rulesetKey ms \<and> table (t_world \<sigma>) = Some (render ms)))"
  using assms by (auto simp: threads_ok_def daemon_inv_on_def adv_inv_def nft_inv_def webhookDeltaCap_def)

end
