(* ===== verification/Webhook.thy ===== *)
theory Webhook
  imports Daemon
begin

text \<open>
  The webhook server, \<open>internal/webhook/server.go\<close>: the route, the signature check, the payload,
  the model it is about and the delta built from it, and the handler; with the adapter of
  \<open>cmd/network-reconciler/main.go\<close> that hands a delta to the reconciler.

  A \<open>json.RawMessage\<close> is the value it holds, \<open>None\<close> when absent. The HMAC-SHA512 of the
  standard library is a parameter \<open>mac\<close> of key and message. Log records are left out; the
  response is its status code.
\<close>

section \<open>Payload and delta\<close>

record payload =
  PEvent :: string
  PTimestamp :: string
  PModel :: string
  PObjectType :: string
  PUsername :: string
  PRequestID :: string
  PData :: "json option"

definition zero_payload :: payload where
  "zero_payload = \<lparr>PEvent = [], PTimestamp = [], PModel = [], PObjectType = [], PUsername = [],
     PRequestID = [], PData = None\<rparr>"

definition payload_field :: "string \<times> json \<Rightarrow> payload \<Rightarrow> payload option" where
  "payload_field kj p =
     (case kj of (k, j) \<Rightarrow>
        if EqualFold k ''event'' then map_option (\<lambda>s. p\<lparr>PEvent := s\<rparr>) (decode_string j (PEvent p))
        else if EqualFold k ''timestamp'' then
          map_option (\<lambda>s. p\<lparr>PTimestamp := s\<rparr>) (decode_string j (PTimestamp p))
        else if EqualFold k ''model'' then map_option (\<lambda>s. p\<lparr>PModel := s\<rparr>) (decode_string j (PModel p))
        else if EqualFold k ''object_type'' then
          map_option (\<lambda>s. p\<lparr>PObjectType := s\<rparr>) (decode_string j (PObjectType p))
        else if EqualFold k ''username'' then
          map_option (\<lambda>s. p\<lparr>PUsername := s\<rparr>) (decode_string j (PUsername p))
        else if EqualFold k ''request_id'' then
          map_option (\<lambda>s. p\<lparr>PRequestID := s\<rparr>) (decode_string j (PRequestID p))
        else if EqualFold k ''data'' then Some (p\<lparr>PData := Some j\<rparr>)
        else Some p)"

definition decode_payload :: "string \<Rightarrow> payload option" where
  "decode_payload body = Option.bind (json_parse body) (decode_struct payload_field zero_payload)"

record Delta =
  DEvent :: string
  DModel :: string
  DObjectType :: string
  DRequestID :: string
  DVMName :: string
  DVMProxmoxVMID :: int
  DHasVMID :: bool
  DInternalIP :: string
  DNATOutside :: "string list"

section \<open>The model\<close>

definition normalizeModel :: "string \<Rightarrow> string" where
  "normalizeModel model =
     (let m = ToLower (TrimSpace model) in
      if m \<in> {''ipaddress'', ''ip_address'', ''ip-address'', ''ipam.ipaddress''} then ''ipaddress''
      else if m \<in> {''virtualmachine'', ''virtual_machine'', ''virtual-machine'',
                   ''virtualization.virtualmachine''} then ''virtualmachine''
      else if m \<in> {''vminterface'', ''vm_interface'', ''vm-interface'', ''virtualization.vminterface''}
        then ''vminterface''
      else [])"

definition url_field :: "string \<times> json \<Rightarrow> string \<Rightarrow> string option" where
  "url_field kj u = (case kj of (k, j) \<Rightarrow> if EqualFold k ''url'' then decode_string j u else Some u)"

definition dataURLFromPayload :: "json option \<Rightarrow> string" where
  "dataURLFromPayload data =
     (case Option.bind data (decode_struct url_field []) of None \<Rightarrow> [] | Some u \<Rightarrow> TrimSpace u)"

definition modelFromDataURL :: "json option \<Rightarrow> string" where
  "modelFromDataURL data =
     (let dURL = dataURLFromPayload data in
      if HasPrefix dURL ''/api/ipam/ip-addresses/'' then ''ipaddress''
      else if HasPrefix dURL ''/api/virtualization/virtual-machines/'' then ''virtualmachine''
      else if HasPrefix dURL ''/api/virtualization/interfaces/'' then ''vminterface''
      else [])"

definition relevantModels :: "string set" where
  "relevantModels = {''ipaddress'', ''virtualmachine'', ''vminterface''}"

definition payload_model :: "payload \<Rightarrow> string" where
  "payload_model p =
     (let model = normalizeModel (PModel p);
          model = (if model = [] then normalizeModel (PObjectType p) else model)
      in if model = [] then modelFromDataURL (PData p) else model)"

section \<open>The data of the payload\<close>

text \<open>
  The error of this \<open>Unmarshal\<close> is ignored, so the envelope is what the decoder has filled
  in: a member of the wrong kind keeps the old value, except that a nil pointer is allocated
  before its value is looked at.
\<close>

definition keep :: "'a \<Rightarrow> 'a option \<Rightarrow> 'a" where
  "keep old r = (case r of Some v \<Rightarrow> v | None \<Rightarrow> old)"

definition decode_pointer :: "('a \<Rightarrow> json \<Rightarrow> 'a) \<Rightarrow> 'a \<Rightarrow> json \<Rightarrow> 'a option \<Rightarrow> 'a option" where
  "decode_pointer f zero j old =
     (if j = JNull then None else Some (f (case old of None \<Rightarrow> zero | Some v \<Rightarrow> v) j))"

fun keep_fields :: "('r \<Rightarrow> string \<times> json \<Rightarrow> 'r) \<Rightarrow> 'r \<Rightarrow> json \<Rightarrow> 'r" where
  "keep_fields f r (JObj ms) = foldl f r ms"
| "keep_fields f r _ = r"

record dataEnvelope =
  DeVMName :: string
  DeName :: string
  DeInternalIP :: string
  DeAddress :: string
  DeVMProxmoxVMID :: "int option"
  DeNATOutsideRaw :: "json option"
  DeAssignedObject :: "string option option" \<comment> \<open>\<open>*assignedObject\<close> with \<open>*vmRef\<close>, its name\<close>

definition zero_envelope :: dataEnvelope where
  "zero_envelope = \<lparr>DeVMName = [], DeName = [], DeInternalIP = [], DeAddress = [],
     DeVMProxmoxVMID = None, DeNATOutsideRaw = None, DeAssignedObject = None\<rparr>"

definition vmref_field :: "string \<Rightarrow> string \<times> json \<Rightarrow> string" where
  "vmref_field name kj =
     (case kj of (k, j) \<Rightarrow> if EqualFold k ''name'' then keep name (decode_string j name) else name)"

definition assigned_field :: "string option \<Rightarrow> string \<times> json \<Rightarrow> string option" where
  "assigned_field vm kj =
     (case kj of (k, j) \<Rightarrow>
        if EqualFold k ''virtual_machine'' then decode_pointer (keep_fields vmref_field) [] j vm else vm)"

definition envelope_field :: "dataEnvelope \<Rightarrow> string \<times> json \<Rightarrow> dataEnvelope" where
  "envelope_field d kj =
     (case kj of (k, j) \<Rightarrow>
        if EqualFold k ''vm_name'' then d\<lparr>DeVMName := keep (DeVMName d) (decode_string j (DeVMName d))\<rparr>
        else if EqualFold k ''name'' then d\<lparr>DeName := keep (DeName d) (decode_string j (DeName d))\<rparr>
        else if EqualFold k ''internal_ip'' then
          d\<lparr>DeInternalIP := keep (DeInternalIP d) (decode_string j (DeInternalIP d))\<rparr>
        else if EqualFold k ''address'' then
          d\<lparr>DeAddress := keep (DeAddress d) (decode_string j (DeAddress d))\<rparr>
        else if EqualFold k ''vm_proxmox_vmid'' then
          d\<lparr>DeVMProxmoxVMID := decode_pointer (\<lambda>old j. keep old (decode_int j old)) 0 j (DeVMProxmoxVMID d)\<rparr>
        else if EqualFold k ''nat_outside'' then d\<lparr>DeNATOutsideRaw := Some j\<rparr>
        else if EqualFold k ''assigned_object'' then
          d\<lparr>DeAssignedObject := decode_pointer (keep_fields assigned_field) None j (DeAssignedObject d)\<rparr>
        else d)"

definition envelope :: "json option \<Rightarrow> dataEnvelope" where
  "envelope data =
     (case data of None \<Rightarrow> zero_envelope | Some j \<Rightarrow> keep_fields envelope_field zero_envelope j)"

definition compactStrings :: "string list \<Rightarrow> string list" where
  "compactStrings values = filter (\<lambda>s. s \<noteq> []) (map TrimSpace values)"

definition address_field :: "string \<times> json \<Rightarrow> string \<Rightarrow> string option" where
  "address_field kj a = (case kj of (k, j) \<Rightarrow> if EqualFold k ''address'' then decode_string j a else Some a)"

definition parseNATOutside :: "json option \<Rightarrow> string list" where
  "parseNATOutside raw =
     (case raw of
        None \<Rightarrow> []
      | Some j \<Rightarrow>
          (case decode_array (\<lambda>j. decode_string j []) j of
             Some asStrings \<Rightarrow> compactStrings asStrings
           | None \<Rightarrow>
               (case decode_array (decode_struct address_field []) j of
                  Some asObjects \<Rightarrow> filter (\<lambda>s. s \<noteq> []) (map TrimSpace asObjects)
                | None \<Rightarrow> [])))"

definition derefInt :: "int option \<Rightarrow> int" where
  "derefInt v = (case v of None \<Rightarrow> 0 | Some n \<Rightarrow> n)"

definition buildDelta :: "payload \<Rightarrow> string \<Rightarrow> Delta" where
  "buildDelta p model =
     (let d = envelope (PData p);
          n1 = TrimSpace (DeVMName d);
          n2 = (if n1 = [] then (case DeAssignedObject d of Some (Some name) \<Rightarrow> TrimSpace name | _ \<Rightarrow> n1) else n1);
          vmName = (if n2 = [] then TrimSpace (DeName d) else n2);
          i1 = TrimSpace (DeInternalIP d);
          internalIP = (if i1 = [] then TrimSpace (DeAddress d) else i1)
      in \<lparr>DEvent = ToLower (TrimSpace (PEvent p)), DModel = model, DObjectType = TrimSpace (PObjectType p),
          DRequestID = TrimSpace (PRequestID p), DVMName = vmName,
          DVMProxmoxVMID = derefInt (DeVMProxmoxVMID d), DHasVMID = (DeVMProxmoxVMID d \<noteq> None),
          DInternalIP = internalIP, DNATOutside = parseNATOutside (DeNATOutsideRaw d)\<rparr>)"

section \<open>The signature\<close>

definition EncodeToString :: "string \<Rightarrow> string" where
  "EncodeToString s = concat (map (\<lambda>c. [hex_digit (of_char c div 16), hex_digit (of_char c mod 16)]) s)"

definition digest :: "(string \<Rightarrow> string \<Rightarrow> string) \<Rightarrow> string \<Rightarrow> string \<Rightarrow> string" where
  "digest mac secret body = EncodeToString (mac secret body)"

definition verifySignature :: "(string \<Rightarrow> string \<Rightarrow> string) \<Rightarrow> string \<Rightarrow> string \<Rightarrow> string \<Rightarrow> bool" where
  "verifySignature mac secret body headerSig \<longleftrightarrow>
     secret = [] \<or>
     TrimPrefix (ToLower (TrimSpace headerSig)) ''sha512='' = digest mac secret body"

section \<open>The handler\<close>

definition maxBodyBytes :: nat where "maxBodyBytes = 2 ^ 20"

text \<open>The body is \<open>None\<close> when reading it fails.\<close>

record request =
  ReqMethod :: string
  ReqBody :: "string option"
  ReqSignature :: string

record 's server =
  srv_addr :: string
  srv_timeouts :: "duration \<times> duration \<times> duration"
  srv_secret :: string
  srv_trigger :: "'s \<Rightarrow> 's"
  srv_applyDelta :: "(Delta \<Rightarrow> 's \<Rightarrow> bool \<times> 's) option"

definition NewWithDelta ::
  "string \<Rightarrow> string \<Rightarrow> ('s \<Rightarrow> 's) \<Rightarrow> (Delta \<Rightarrow> 's \<Rightarrow> bool \<times> 's) option \<Rightarrow> 's server" where
  "NewWithDelta listenAddr secret trigger applyDelta =
     \<lparr>srv_addr = listenAddr, srv_timeouts = (10 * second, 10 * second, 60 * second), srv_secret = secret,
      srv_trigger = trigger, srv_applyDelta = applyDelta\<rparr>"

definition New_Webhook :: "string \<Rightarrow> string \<Rightarrow> ('s \<Rightarrow> 's) \<Rightarrow> 's server" where
  "New_Webhook listenAddr secret trigger = NewWithDelta listenAddr secret trigger None"

definition handleWebhook ::
  "(string \<Rightarrow> string \<Rightarrow> string) \<Rightarrow> 's server \<Rightarrow> request \<Rightarrow> 's \<Rightarrow> nat \<times> 's" where
  "handleWebhook mac srv r s =
     (if ReqMethod r \<noteq> ''POST'' then (405, s)
      else case ReqBody r of
        None \<Rightarrow> (400, s)
      | Some sent \<Rightarrow>
          (let body = take maxBodyBytes sent in
           if \<not> verifySignature mac (srv_secret srv) body (ReqSignature r) then (401, s)
           else case decode_payload body of
             None \<Rightarrow> (400, s)
           | Some p \<Rightarrow>
               (let model = payload_model p in
                if model \<in> relevantModels then
                  let (handledByDelta, s1) =
                        (case srv_applyDelta srv of None \<Rightarrow> (False, s)
                         | Some applyDelta \<Rightarrow> applyDelta (buildDelta p model) s)
                  in (204, if handledByDelta then s1 else srv_trigger srv s1)
                else (204, s))))"

text \<open>The wiring of \<open>main\<close>.\<close>

definition reconciler_delta :: "Delta \<Rightarrow> WebhookDelta" where
  "reconciler_delta d =
     \<lparr>Event = DEvent d, Model = DModel d, DeltaVMName = DVMName d, DeltaVMID = DVMProxmoxVMID d,
      HasVMID = DHasVMID d, DeltaInternalIP = DInternalIP d, NATOutside = DNATOutside d\<rparr>"

definition reconciler_server :: "string \<Rightarrow> string \<Rightarrow> Reconciler server" where
  "reconciler_server listenAddr secret =
     NewWithDelta listenAddr secret TriggerReconcile (Some (\<lambda>d. ApplyWebhookDelta (reconciler_delta d)))"

lemma reconciler_server_simps [simp]:
  "srv_secret (reconciler_server listenAddr secret) = secret"
  "srv_trigger (reconciler_server listenAddr secret) = TriggerReconcile"
  "srv_applyDelta (reconciler_server listenAddr secret) = Some (\<lambda>d. ApplyWebhookDelta (reconciler_delta d))"
  by (simp_all add: reconciler_server_def NewWithDelta_def)

section \<open>Package net/http: the route\<close>

text \<open>\<open>path.Clean\<close> for a rooted path, by its segments; \<open>cleanPath\<close> of \<open>net/http\<close> keeps a
  trailing slash.\<close>

fun clean_segments :: "string list \<Rightarrow> string list \<Rightarrow> string list" where
  "clean_segments out [] = rev out"
| "clean_segments out (seg # segs) =
     (if seg = [] \<or> seg = ''.'' then clean_segments out segs
      else if seg = ''..'' then clean_segments (tl out) segs
      else clean_segments (seg # out) segs)"

definition cleanPath :: "string \<Rightarrow> string" where
  "cleanPath p =
     (let segs = clean_segments [] (Split (CHR ''/'') p); np = concat (map (\<lambda>seg. CHR ''/'' # seg) segs)
      in if segs = [] then ''/'' else if HasSuffix p ''/'' then np @ ''/'' else np)"

text \<open>\<open>url.PathUnescape\<close>, which keeps a segment it cannot decode.\<close>

fun unescape :: "string \<Rightarrow> string option" where
  "unescape [] = Some []"
| "unescape (c # s) =
     (if c \<noteq> CHR ''%'' then map_option (Cons c) (unescape s)
      else case s of
        a # b # r \<Rightarrow>
          if is_hex a \<and> is_hex b then map_option (Cons (char_of (16 * hex_val a + hex_val b))) (unescape r) else None
      | _ \<Rightarrow> None)"

definition pathUnescape :: "string \<Rightarrow> string" where
  "pathUnescape s = (case unescape s of None \<Rightarrow> s | Some t \<Rightarrow> t)"

text \<open>Whether a path is matched by the one pattern that is registered, \<open>/webhook\<close>.\<close>

definition route_matches :: "string \<Rightarrow> bool" where
  "route_matches p \<longleftrightarrow> p \<noteq> [] \<and> CHR ''/'' \<notin> set (tl p) \<and> pathUnescape (tl p) = ''webhook''"

text \<open>
  The server's \<open>ServeHTTP\<close>, that is \<open>ServeMux.ServeHTTP\<close>: a path that is not clean is
  redirected, an unknown one not found. \<open>CONNECT\<close> is routed as it is.
\<close>

definition ServeHTTP ::
  "(string \<Rightarrow> string \<Rightarrow> string) \<Rightarrow> 's server \<Rightarrow> string \<Rightarrow> request \<Rightarrow> 's \<Rightarrow> nat \<times> 's" where
  "ServeHTTP mac srv path r s =
     (if path = ''*'' then (400, s)
      else if ReqMethod r \<noteq> ''CONNECT'' \<and> cleanPath path \<noteq> path then (301, s)
      else if route_matches path then handleWebhook mac srv r s
      else (404, s))"

lemma webhook_path: "cleanPath ''/webhook'' = ''/webhook''" "route_matches ''/webhook''"
  by code_simp+

lemma ServeHTTP_webhook: "ServeHTTP mac srv ''/webhook'' = handleWebhook mac srv"
  by (intro ext) (simp add: ServeHTTP_def webhook_path)

lemma route_examples:
  "cleanPath ''/webhook/'' = ''/webhook/''" "\<not> route_matches ''/webhook/''"
  "cleanPath ''//webhook'' = ''/webhook''" "cleanPath ''/a/../webhook'' = ''/webhook''"
  "route_matches ''/%77ebhook''" "\<not> route_matches ''/''"
  by code_simp+

section \<open>What the server relies on\<close>

text \<open>
  The contract of the two callbacks: offering a delta queues it as the last one if there is
  room and changes nothing otherwise, and reports which; a trigger requests a full reconcile
  and leaves the queue alone.
\<close>

locale delta_sink =
  fixes srv :: "'s server" and queue :: "'s \<Rightarrow> 'd list" and conv :: "Delta \<Rightarrow> 'd"
    and capacity :: nat and requested :: "'s \<Rightarrow> bool"
  assumes offers: "srv_applyDelta srv \<noteq> None"
    and offer: "srv_applyDelta srv = Some offer \<Longrightarrow> offer d s = (accepted, s') \<Longrightarrow>
      if length (queue s) < capacity then accepted \<and> queue s' = queue s @ [conv d] \<and> requested s' = requested s
      else \<not> accepted \<and> s' = s"
    and trigger: "queue (srv_trigger srv s) = queue s" "requested (srv_trigger srv s)"
begin

lemma notified:
  assumes "handleWebhook mac srv r s = (204, s')" and "ReqBody r = Some sent"
    and "decode_payload (take maxBodyBytes sent) = Some p" and "payload_model p \<in> relevantModels"
  shows "if length (queue s) < capacity
    then queue s' = queue s @ [conv (buildDelta p (payload_model p))] \<and> requested s' = requested s
    else queue s' = queue s \<and> requested s'"
proof -
  obtain offer accepted s1 where o: "srv_applyDelta srv = Some offer"
    "offer (buildDelta p (payload_model p)) s = (accepted, s1)"
    using offers by (metis option.exhaust surj_pair)
  then have "s' = (if accepted then s1 else srv_trigger srv s1)"
    using assms by (auto simp: handleWebhook_def Let_def split: if_splits)
  then show ?thesis using offer [OF o] trigger by (auto split: if_splits)
qed

end

interpretation reconciler_sink: delta_sink "reconciler_server listenAddr secret" webhookDeltaCh reconciler_delta webhookDeltaCap reconcileCh
  for listenAddr secret
  by unfold_locales (auto simp: ApplyWebhookDelta_def TriggerReconcile_def split: if_splits)

section \<open>Properties\<close>

lemma hex_digit_lower:
  assumes "n < 16"
  shows "to_lower (hex_digit n) = hex_digit n" "hex_digit n \<noteq> CHR ''s''"
proof -
  have c: "(of_char (hex_digit n) :: nat) = (if n < 10 then 48 + n else 87 + n)"
    using assms by (simp add: hex_digit_def)
  show "to_lower (hex_digit n) = hex_digit n" using assms by (simp add: to_lower_def c)
  show "hex_digit n \<noteq> CHR ''s''" 
  proof
    assume "hex_digit n = CHR ''s''"
    then show False using assms c by (simp split: if_splits)
  qed
qed

lemma code_less_256: "(of_char c :: nat) < 256"
  using nat_of_char_less_256 by blast

lemma digest_hex: "\<forall>c \<in> set (digest mac secret body). to_lower c = c \<and> c \<noteq> CHR ''s''"
proof -
  have "of_char c div 16 < (16 :: nat)" "of_char c mod 16 < (16 :: nat)" for c :: char
    using less_mult_imp_div_less [of "of_char c" 16 16] code_less_256 [of c] by simp_all
  then show ?thesis by (auto simp: digest_def EncodeToString_def hex_digit_lower)
qed

lemma ToLower_digest: "ToLower (digest mac secret body) = digest mac secret body"
  by (metis ToLower_def digest_hex map_idI)

lemma digest_no_prefix: "\<not> HasPrefix (digest mac secret body) ''sha512=''"
  using digest_hex [of mac secret body] by (cases "digest mac secret body") (auto simp: HasPrefix_def)

lemma EqualFold_iff: "EqualFold s t \<longleftrightarrow> ToLower s = ToLower t"
  by (simp add: EqualFold_def ToLower_def)

lemma ToLower_append: "ToLower (s @ t) = ToLower s @ ToLower t"
  by (simp add: ToLower_def)

lemma verifySignature_iff:
  "verifySignature mac secret body headerSig \<longleftrightarrow>
     secret = [] \<or>
     EqualFold (TrimSpace headerSig) (digest mac secret body) \<or>
     EqualFold (TrimSpace headerSig) (''sha512='' @ digest mac secret body)"
proof -
  let ?g = "ToLower (TrimSpace headerSig)" and ?d = "digest mac secret body"
  have pre: "ToLower (''sha512='' @ ?d) = ''sha512='' @ ?d"
    by (simp only: ToLower_append ToLower_digest) (simp add: ToLower_def to_lower_def)
  have "TrimPrefix ?g ''sha512='' = ?d \<longleftrightarrow> ?g = ?d \<or> ?g = ''sha512='' @ ?d"
  proof (cases "HasPrefix ?g ''sha512=''")
    case True
    then obtain r where "?g = ''sha512='' @ r" by (auto simp: HasPrefix_iff prefix_def)
    moreover have "?g \<noteq> ?d" using True digest_no_prefix [of mac secret body] by metis
    ultimately show ?thesis using True by (simp add: TrimPrefix_def)
  next
    case False
    moreover have "HasPrefix (''sha512='' @ ?d) ''sha512=''" by (simp add: HasPrefix_def)
    ultimately show ?thesis by (metis TrimPrefix_def)
  qed
  then show ?thesis unfolding verifySignature_def EqualFold_iff pre ToLower_digest by blast
qed

lemma handleWebhook_outcome:
  assumes "handleWebhook mac srv r s = (status, s')"
  shows "(status \<noteq> 204 \<longrightarrow> s' = s) \<and>
    (status = 204 \<longleftrightarrow> (\<exists>sent. ReqMethod r = ''POST'' \<and> ReqBody r = Some sent \<and>
       (let body = take maxBodyBytes sent; sig = digest mac (srv_secret srv) body; got = TrimSpace (ReqSignature r)
        in decode_payload body \<noteq> None \<and>
           (srv_secret srv = [] \<or> EqualFold got sig \<or> EqualFold got (''sha512='' @ sig)))))"
  using assms unfolding handleWebhook_def Let_def verifySignature_iff
  by (auto split: if_splits option.splits prod.splits)

text \<open>
  C29: Only signed requests to the route act. A request is answered with 204 exactly if its
  path, clean and decoded, is \<open>/webhook\<close>, and it is a POST whose body can be read, decodes, and
  is signed: with a secret configured, the signature header is, up to letter case, surrounding
  space and an optional \<open>sha512=\<close> prefix, the HMAC of the first mebibyte of the body. Any
  other answer changes nothing.
\<close>

theorem webhook_acts_only_if_signed:
  assumes "ServeHTTP mac srv path r s = (status, s')"
  shows "(status \<noteq> 204 \<longrightarrow> s' = s) \<and>
    (status = 204 \<longleftrightarrow> cleanPath path = path \<and> route_matches path \<and>
       (\<exists>sent. ReqMethod r = ''POST'' \<and> ReqBody r = Some sent \<and>
       (let body = take maxBodyBytes sent; sig = digest mac (srv_secret srv) body; got = TrimSpace (ReqSignature r)
        in decode_payload body \<noteq> None \<and>
           (srv_secret srv = [] \<or> EqualFold got sig \<or> EqualFold got (''sha512='' @ sig)))))"
proof (cases "path \<noteq> ''*'' \<and> (ReqMethod r = ''CONNECT'' \<or> cleanPath path = path) \<and> route_matches path")
  case True
  then have "handleWebhook mac srv r s = (status, s')" using assms by (auto simp: ServeHTTP_def)
  from handleWebhook_outcome [OF this] show ?thesis using True by auto
next
  case False
  moreover have "\<not> route_matches ''*''" by code_simp
  ultimately show ?thesis using assms by (auto simp: ServeHTTP_def split: if_splits)
qed

text \<open>
  C30: No relevant notification is lost. A notification the daemon answers with 204 and whose
  model is relevant leaves work behind: its delta is queued as the last one, the others
  untouched, or, if the queue is full, a full reconcile is requested.
\<close>

theorem webhook_never_lost:
  assumes "handleWebhook mac (reconciler_server listenAddr secret) r R = (204, R')"
    and "ReqBody r = Some sent" and "decode_payload (take maxBodyBytes sent) = Some p"
    and "payload_model p \<in> relevantModels"
  shows "if length (webhookDeltaCh R) < webhookDeltaCap
    then webhookDeltaCh R' = webhookDeltaCh R @ [reconciler_delta (buildDelta p (payload_model p))] \<and>
      reconcileCh R' = reconcileCh R
    else webhookDeltaCh R' = webhookDeltaCh R \<and> reconcileCh R'"
  using assms by (rule reconciler_sink.notified)

text \<open>
  What NetBox sends: the value of the body it renders from the template the daemon registers
  (\<open>webhookBodyTemplate\<close> in \<open>client.go\<close>), for an object of type \<open>otype\<close>; \<open>rid\<close>, \<open>vid\<close> are
  the request and the VM's NetBox identifiers, a value or \<open>null\<close>.
\<close>

definition notification_data :: "string \<Rightarrow> json \<Rightarrow> string \<Rightarrow> WebhookDelta \<Rightarrow> json" where
  "notification_data url vid primary d =
     JObj [(''url'', JStr url), (''vm_name'', JStr (DeltaVMName d)), (''vm_netbox_id'', vid),
       (''vm_proxmox_vmid'', if HasVMID d then JNum (Itoa (DeltaVMID d)) else JNull),
       (''internal_ip'', JStr (DeltaInternalIP d)), (''primary_ip'', JStr primary),
       (''nat_outside'', JArr (map JStr (NATOutside d)))]"

definition notification ::
  "string \<Rightarrow> json \<Rightarrow> string \<Rightarrow> json \<Rightarrow> string \<Rightarrow> WebhookDelta \<Rightarrow> json" where
  "notification otype rid url vid primary d =
     JObj [(''event'', JStr (Event d)), (''model'', JStr (Model d)), (''object_type'', JStr otype),
       (''request_id'', rid),
       (''data'', notification_data url vid primary d)]"

definition delta_wf :: "WebhookDelta \<Rightarrow> bool" where
  "delta_wf d \<longleftrightarrow> ToLower (TrimSpace (Event d)) = Event d \<and> Model d \<in> relevantModels \<and>
     TrimSpace (DeltaVMName d) = DeltaVMName d \<and> in_int64 (DeltaVMID d) \<and> (HasVMID d \<or> DeltaVMID d = 0) \<and>
     TrimSpace (DeltaInternalIP d) = DeltaInternalIP d \<and>
     list_all (\<lambda>s. TrimSpace s = s \<and> s \<noteq> []) (NATOutside d)"

lemma normalizeModel_relevant: "m \<in> relevantModels \<Longrightarrow> normalizeModel m = m \<and> m \<noteq> []"
proof -
  have "normalizeModel ''ipaddress'' = ''ipaddress''" "normalizeModel ''virtualmachine'' = ''virtualmachine''"
    "normalizeModel ''vminterface'' = ''vminterface''" by code_simp+
  then show "m \<in> relevantModels \<Longrightarrow> normalizeModel m = m \<and> m \<noteq> []" by (auto simp: relevantModels_def)
qed

lemma parseNATOutside_strings:
  "list_all (\<lambda>s. TrimSpace s = s \<and> s \<noteq> []) xs \<Longrightarrow> parseNATOutside (Some (JArr (map JStr xs))) = xs"
proof -
  have "those (map (\<lambda>j. decode_string j []) (map JStr xs)) = Some xs"
    by (induction xs) (simp_all add: decode_string_def)
  then show "list_all (\<lambda>s. TrimSpace s = s \<and> s \<noteq> []) xs \<Longrightarrow> ?thesis"
    by (simp add: parseNATOutside_def decode_array_def compactStrings_def list_all_iff map_idI)
qed

lemma decode_notification:
  assumes "rid = JNull \<or> (\<exists>s. rid = JStr s)"
  shows "\<exists>p. decode_struct payload_field zero_payload (notification otype rid url vid primary d) = Some p \<and>
    PEvent p = Event d \<and> PModel p = Model d \<and>
    PData p = Some (notification_data url vid primary d)"
  using assms
  by (auto simp: notification_def decode_struct_def payload_field_def EqualFold_def to_lower_def
      decode_string_def zero_payload_def)

lemma envelope_notification:
  assumes "in_int64 (DeltaVMID d)"
  shows "envelope (Some (notification_data url vid primary d)) =
    \<lparr>DeVMName = DeltaVMName d, DeName = [], DeInternalIP = DeltaInternalIP d, DeAddress = [],
     DeVMProxmoxVMID = (if HasVMID d then Some (DeltaVMID d) else None),
     DeNATOutsideRaw = Some (JArr (map JStr (NATOutside d))), DeAssignedObject = None\<rparr>"
  using assms
  by (simp add: notification_data_def envelope_def envelope_field_def EqualFold_def to_lower_def decode_string_def
      zero_envelope_def keep_def decode_pointer_def decode_int_def Atoi_Itoa)

lemma notification_queued:
  assumes "delta_wf d" and "rid = JNull \<or> (\<exists>s. rid = JStr s)"
    and "json_parse body = Some (notification otype rid url vid primary d)" and "length body \<le> maxBodyBytes"
    and "verifySignature mac secret body sig" and "length (webhookDeltaCh R) < webhookDeltaCap"
  shows "handleWebhook mac (reconciler_server listenAddr secret) \<lparr>ReqMethod = ''POST'', ReqBody = Some body, ReqSignature = sig\<rparr> R =
    (204, R\<lparr>webhookDeltaCh := webhookDeltaCh R @ [d]\<rparr>)"
proof -
  obtain p where q: "decode_struct payload_field zero_payload (notification otype rid url vid primary d) = Some p \<and>
    PEvent p = Event d \<and> PModel p = Model d \<and>
    PData p = Some (notification_data url vid primary d)"
    using decode_notification [OF assms(2), of otype url vid primary d] by blast
  have int: "in_int64 (DeltaVMID d)" using assms(1) by (simp only: delta_wf_def)
  have data: "envelope (PData p) = \<lparr>DeVMName = DeltaVMName d, DeName = [], DeInternalIP = DeltaInternalIP d, DeAddress = [],
     DeVMProxmoxVMID = (if HasVMID d then Some (DeltaVMID d) else None),
     DeNATOutsideRaw = Some (JArr (map JStr (NATOutside d))), DeAssignedObject = None\<rparr>"
    by (simp only: q envelope_notification [OF int])
  have p: "decode_payload body = Some p" "PEvent p = Event d" "PModel p = Model d"
    using q by (simp_all only: decode_payload_def assms(3) bind.bind_lunit)
  have m: "payload_model p = Model d"
    using assms(1) normalizeModel_relevant by (simp add: payload_model_def p delta_wf_def)
  have "reconciler_delta (buildDelta p (Model d)) = d"
    using assms(1) by (cases d) (auto simp: buildDelta_def reconciler_delta_def data p delta_wf_def
        parseNATOutside_strings derefInt_def Let_def)
  then show ?thesis
    using assms(1,4-6)
    by (simp add: handleWebhook_def p m delta_wf_def ApplyWebhookDelta_def)
qed

text \<open>
  C31: A notification arrives as it was meant. A signed POST whose body has the form of the
  registered template is answered with 204 and queues exactly the delta the template was
  filled with, if the queue has room.
\<close>

theorem notification_queues_its_delta:
  assumes "delta_wf d" and "rid = JNull \<or> (\<exists>s. rid = JStr s)"
    and "json_parse body = Some (notification otype rid url vid primary d)" and "length body \<le> maxBodyBytes"
    and "verifySignature mac secret body sig" and "length (webhookDeltaCh R) < webhookDeltaCap"
  shows "handleWebhook mac (reconciler_server listenAddr secret) \<lparr>ReqMethod = ''POST'', ReqBody = Some body, ReqSignature = sig\<rparr> R =
    (204, R\<lparr>webhookDeltaCh := webhookDeltaCh R @ [d]\<rparr>)"
  by (rule notification_queued [OF assms])

text \<open>
  The registered template puts strings between quotes as they are. The body it renders for a
  VM whose name holds a quote is no JSON, so that its notifications are refused.
\<close>

definition quoted_body :: string where
  \<open>quoted_body = ''{"event":"updated","model":"virtualmachine","object_type":"virtualization.virtualmachine",'' @
     ''"request_id":null,"data":{"url":"","vm_name":"a"b","vm_netbox_id":4,"vm_proxmox_vmid":101,'' @
     ''"internal_ip":"","primary_ip":"","nat_outside":[]}}''\<close>

lemma quoted_name_rejected:
  assumes "verifySignature mac secret quoted_body sig"
  shows "handleWebhook mac (reconciler_server listenAddr secret)
    \<lparr>ReqMethod = ''POST'', ReqBody = Some quoted_body, ReqSignature = sig\<rparr> R = (400, R)"
proof -
  have "json_parse quoted_body = None" by code_simp
  then have "decode_payload quoted_body = None" by (simp add: decode_payload_def)
  moreover have "length quoted_body \<le> 1000" by code_simp
  then have "take maxBodyBytes quoted_body = quoted_body" by (simp add: maxBodyBytes_def)
  ultimately show ?thesis using assms by (simp add: handleWebhook_def Let_def)
qed

section \<open>Witnesses\<close>

text \<open>A toy MAC: the key itself. The header carries its digest with the optional prefix.\<close>

abbreviation toy_mac :: "string \<Rightarrow> string \<Rightarrow> string" where "toy_mac key body \<equiv> key"

definition note101 :: WebhookDelta where
  "note101 = \<lparr>Event = ''updated'', Model = ''ipaddress'', DeltaVMName = ''web'', DeltaVMID = 101, HasVMID = True,
     DeltaInternalIP = ''10.0.0.5/24'', NATOutside = [''198.51.100.7'']\<rparr>"

abbreviation note_json :: json where
  "note_json \<equiv> notification ''ipam.ipaddress'' JNull ''/api/ipam/ip-addresses/7/'' (JNum (Itoa 9)) [] note101"

definition note_body :: string where "note_body = MarshalIndent note_json"

abbreviation note_request :: request where
  "note_request \<equiv> \<lparr>ReqMethod = ''POST'', ReqBody = Some note_body, ReqSignature = '' SHA512=6B''\<rparr>"

lemma note_facts: "delta_wf note101" "json_parse note_body = Some note_json"
  "length note_body \<le> maxBodyBytes" "verifySignature toy_mac ''k'' body '' SHA512=6B''"
proof -
  have "ToLower (TrimSpace ''updated'') = ''updated''" "TrimSpace ''web'' = ''web''"
    "TrimSpace ''10.0.0.5/24'' = ''10.0.0.5/24''" "TrimSpace ''198.51.100.7'' = ''198.51.100.7''" by code_simp+
  then show "delta_wf note101" by (simp add: delta_wf_def note101_def relevantModels_def in_int64_def)
  have "wf_json note_json"
    by (auto simp: notification_def notification_data_def note101_def intro!: valid_utf8_ascii)
  then show "json_parse note_body = Some note_json"
    using json_parse_MarshalIndent [of note_json "[]"] by (simp add: note_body_def)
  have "length note_body \<le> 1000" by code_simp
  then show "length note_body \<le> maxBodyBytes" by (simp add: maxBodyBytes_def)
  have "TrimPrefix (ToLower (TrimSpace '' SHA512=6B'')) ''sha512='' = EncodeToString ''k''" by code_simp
  then show "verifySignature toy_mac ''k'' body '' SHA512=6B''" by (simp add: verifySignature_def digest_def)
qed

lemma note_decodes: "\<exists>p. decode_payload note_body = Some p \<and> payload_model p = ''ipaddress''"
proof -
  obtain p where p: "decode_payload note_body = Some p" "PModel p = ''ipaddress''"
    using decode_notification [of JNull "''ipam.ipaddress''" "''/api/ipam/ip-addresses/7/''" "JNum (Itoa 9)" "[]" note101]
    by (auto simp: decode_payload_def note_facts note101_def)
  moreover have "normalizeModel ''ipaddress'' = ''ipaddress''" by code_simp
  ultimately show ?thesis by (simp add: payload_model_def)
qed

lemma note_204: "\<exists>R'. handleWebhook toy_mac (reconciler_server '':9095'' ''k'') note_request R = (204, R')"
  using note_decodes note_facts(3,4)
  by (auto simp: handleWebhook_def Let_def split: prod.split)

theorem notification_queues_its_delta_witness:
  "handleWebhook toy_mac (reconciler_server '':9095'' ''k'') note_request rec101 = (204, rec101\<lparr>webhookDeltaCh := [note101]\<rparr>)"
  using notification_queues_its_delta [OF note_facts(1) _ note_facts(2,3,4), of rec101]
  by (simp add: rec101_def newReconciler_def webhookDeltaCap_def)

theorem webhook_acts_only_if_signed_witness:
  "ServeHTTP toy_mac (reconciler_server '':9095'' ''k'') ''/webhook'' (note_request\<lparr>ReqSignature := []\<rparr>) rec101 = (401, rec101)"
proof -
  have "\<not> (EqualFold (TrimSpace []) (EncodeToString ''k'') \<or> EqualFold (TrimSpace []) (''sha512='' @ EncodeToString ''k''))"
    by code_simp
  then have no: "\<not> verifySignature toy_mac ''k'' body []" for body
    unfolding verifySignature_iff digest_def by simp
  obtain status R' where call: "ServeHTTP toy_mac (reconciler_server '':9095'' ''k'') ''/webhook''
      (note_request\<lparr>ReqSignature := []\<rparr>) rec101 = (status, R')"
    by fastforce
  then have "status = 401" using no by (simp add: ServeHTTP_webhook handleWebhook_def)
  then show ?thesis using call webhook_acts_only_if_signed [OF call] by simp
qed

theorem webhook_never_lost_witness:
  "webhookDeltaCh (snd (handleWebhook toy_mac (reconciler_server '':9095'' ''k'') note_request rec101)) \<noteq> [] \<and>
   reconcileCh (snd (handleWebhook toy_mac (reconciler_server '':9095'' ''k'') note_request
     (rec101\<lparr>webhookDeltaCh := replicate 32 note101\<rparr>)))"
proof -
  obtain p where p: "decode_payload (take maxBodyBytes note_body) = Some p" "payload_model p \<in> relevantModels"
    using note_decodes note_facts(3) by (auto simp: relevantModels_def)
  obtain R1 where 1: "handleWebhook toy_mac (reconciler_server '':9095'' ''k'') note_request rec101 = (204, R1)"
    using note_204 by blast
  obtain R2 where 2: "handleWebhook toy_mac (reconciler_server '':9095'' ''k'') note_request
     (rec101\<lparr>webhookDeltaCh := replicate 32 note101\<rparr>) = (204, R2)" using note_204 by blast
  have "length (webhookDeltaCh rec101) < webhookDeltaCap" by (simp add: rec101_def newReconciler_def webhookDeltaCap_def)
  then show ?thesis
    using webhook_never_lost [OF 1 _ p] webhook_never_lost [OF 2 _ p] 1 2 by (simp add: webhookDeltaCap_def)
qed

end
