(* ===== verification/Go_Float.thy ===== *)
theory Go_Float
  imports Go_Json
begin

text \<open>
  The numbers of \<open>encoding/json\<close> in an \<open>any\<close>: a \<open>float64\<close>. A finite \<open>float64\<close> is a pair of
  a signed mantissa and a binary exponent; \<open>ParseFloat\<close> rounds a decimal literal to the
  nearest one, halves to even. \<open>float_int\<close> is the conversion to \<open>int\<close>, which cuts off
  the fraction; a value that does not fit becomes the least \<open>int\<close>, as on amd64 (Go leaves it
  open).
\<close>

fun bit_len :: "nat \<Rightarrow> nat" where
  "bit_len n = (if n = 0 then 0 else Suc (bit_len (n div 2)))"

declare bit_len.simps [simp del]

definition scale :: "nat \<Rightarrow> int \<Rightarrow> nat" where
  "scale n e = (if 0 \<le> e then n * 2 ^ nat e else n)"

definition round_div :: "nat \<Rightarrow> nat \<Rightarrow> nat" where
  "round_div a b =
     (let m = a div b; r = a mod b
      in if b < 2 * r \<or> (2 * r = b \<and> odd m) then m + 1 else m)"

text \<open>The \<open>float64\<close> nearest to \<open>a / b\<close>, or none if it is too large.\<close>

definition nearest_float :: "nat \<Rightarrow> nat \<Rightarrow> (nat \<times> int) option" where
  "nearest_float a b =
     (if a = 0 then Some (0, 0)
      else let d = int (bit_len a) - int (bit_len b);
               k = (if scale b d \<le> scale a (- d) then d else d - 1);
               e = max (k - 52) (- 1074);
               m = round_div (scale a (- e)) (scale b e)
           in if 971 < e \<or> (e = 971 \<and> 2 ^ 53 \<le> m) then None else Some (m, e))"

text \<open>A JSON number literal: its sign, its digits, its decimal exponent.\<close>

definition literal_digits :: "string \<Rightarrow> bool \<times> string \<times> int" where
  "literal_digits l =
     (let s = snd (num_sign l);
          ip = takeWhile is_digit s; s1 = dropWhile is_digit s;
          fp = (if HasPrefix s1 ''.'' then takeWhile is_digit (tl s1) else []);
          s2 = (if HasPrefix s1 ''.'' then dropWhile is_digit (tl s1) else s1);
          ep = (if s2 = [] then 0
                else let t = tl s2
                     in if HasPrefix t ''-'' then - int (dec_val (tl t))
                        else if HasPrefix t ''+'' then int (dec_val (tl t)) else int (dec_val t))
      in (HasPrefix l ''-'', ip @ fp, ep - int (length fp)))"

definition ParseFloat :: "string \<Rightarrow> (int \<times> int) option" where
  "ParseFloat l =
     (case literal_digits l of (neg, ds, x) \<Rightarrow>
        let n = dec_val ds;
            r = (if 0 \<le> x then nearest_float (n * 10 ^ nat x) 1 else nearest_float n (10 ^ nat (- x)))
        in map_option (\<lambda>(m, e). (if neg then - int m else int m, e)) r)"

definition float_int :: "int \<times> int \<Rightarrow> int" where
  "float_int f =
     (case f of (m, e) \<Rightarrow>
        let n = (if 0 \<le> e then m * 2 ^ nat e else sgn m * (\<bar>m\<bar> div 2 ^ nat (- e)))
        in if in_int64 n then n else - (2 ^ 63))"

lemma bit_len_bounds: "0 < n \<Longrightarrow> 2 ^ (bit_len n - 1) \<le> n \<and> n < 2 ^ bit_len n \<and> 0 < bit_len n"
proof (induction n rule: bit_len.induct)
  case (1 n)
  show ?case
  proof (cases "n = 1")
    case True
    then show ?thesis by (simp add: bit_len.simps)
  next
    case False
    with 1(2) have "0 < n div 2" by auto
    with 1 have IH: "2 ^ (bit_len (n div 2) - 1) \<le> n div 2" "n div 2 < 2 ^ bit_len (n div 2)" "0 < bit_len (n div 2)"
      by simp_all
    have b: "bit_len n = Suc (bit_len (n div 2))" using 1(2) by (subst bit_len.simps) simp
    have "2 * 2 ^ (bit_len (n div 2) - 1) = (2 :: nat) ^ bit_len (n div 2)"
      using IH(3) by (simp flip: power_Suc)
    then show ?thesis using IH b by simp linarith
  qed
qed

text \<open>Integers below $2^{53}$ are read exactly.\<close>

lemma nearest_float_exact:
  assumes "0 < n" "n < 2 ^ 53"
  shows "\<exists>m e. nearest_float n 1 = Some (m, e) \<and> e \<le> 0 \<and> m = n * 2 ^ nat (- e)"
proof -
  let ?d = "int (bit_len n) - 1"
  have B: "2 ^ (bit_len n - 1) \<le> n" "0 < bit_len n" using bit_len_bounds [OF assms(1)] by simp_all
  have one: "bit_len 1 = 1" by (simp add: bit_len.simps)
  have "bit_len n - 1 < 53" 
    using B(1) assms(2) by (metis le_less_trans nat_power_less_imp_less zero_less_numeral)
  then have len: "?d \<le> 52" by simp
  have "nat ?d = bit_len n - 1" using B(2) by simp
  then have k: "scale 1 ?d \<le> scale n (- ?d)" using B assms(1) by (simp add: scale_def Suc_le_eq)
  let ?e = "max (?d - 52) (- 1074)"
  have e: "?e \<le> 0" "971 \<noteq> ?e" using len by auto
  have "round_div (scale n (- ?e)) (scale 1 ?e) = n * 2 ^ nat (- ?e)"
    using e(1) by (cases "?e = 0") (simp_all add: scale_def round_div_def)
  then have "nearest_float n 1 = Some (n * 2 ^ nat (- ?e), ?e)"
    using assms(1) e k one by (simp add: nearest_float_def Let_def)
  with e(1) show ?thesis by blast
qed

lemma literal_digits_dec: "literal_digits (dec n) = (False, dec n, 0)"
proof -
  have "takeWhile is_digit (dec n) = dec n" "dropWhile is_digit (dec n) = []"
    using dec_digits [of n] by (simp_all add: list_all_iff takeWhile_eq_all_conv dropWhile_eq_Nil_conv)
  moreover have "\<not> HasPrefix (dec n) ''-''"
    using dec_not_minus(1) [of n] by (cases "dec n") (auto simp: HasPrefix_def)
  ultimately show ?thesis by (simp only: literal_digits_def num_sign_def Let_def if_False snd_conv)
    (simp add: HasPrefix_def)
qed

lemma ParseFloat_int:
  assumes "0 < n" "n < 2 ^ 53"
  shows "\<exists>f. ParseFloat (Itoa n) = Some f \<and> 0 < fst f \<and> float_int f = n"
proof -
  obtain m e where me: "nearest_float (nat n) 1 = Some (m, e)" "e \<le> 0" "m = nat n * 2 ^ nat (- e)"
    using nearest_float_exact [of "nat n"] assms by (auto simp only: nat_less_iff of_nat_power of_nat_numeral zero_less_nat_eq)
  have "ParseFloat (Itoa n) = Some (int m, e)"
    using assms(1) me(1) by (simp add: ParseFloat_def Itoa_def literal_digits_dec)
  moreover have "0 < int m" "int m = n * 2 ^ nat (- e)" using assms(1) me(3) by simp_all
  moreover have "float_int (int m, e) = n"
  proof (cases "e = 0")
    case False
    with me(2) have "\<bar>int m\<bar> div 2 ^ nat (- e) = n" "sgn (int m) = 1" using calculation(2,3) assms(1) by simp_all
    then show ?thesis using False me(2) assms by (simp add: float_int_def in_int64_def)
  qed (use calculation(3) assms in \<open>simp add: float_int_def in_int64_def\<close>)
  ultimately show ?thesis by fastforce
qed

end
