(* ===== verification/Netbox_Client.thy ===== *)
theory Netbox_Client
  imports Go_Float Host "HOL-Library.Multiset"
begin

text \<open>
  Fetching the NAT mappings from NetBox: \<open>internal/netbox/client.go\<close> and the types of
  \<open>internal/netbox/types.go\<close>. The HTTP client of the standard library is the parameter
  \<open>Do\<close> of the client record: the network and the server behind it. A pointer field of a
  response is an option, a \<open>map[string]any\<close> keeps the JSON values. Where an object names a
  member twice, the later one replaces the earlier.
\<close>

section \<open>HTTP\<close>

record http_request =
  ReqVerb :: string
  ReqURL :: string
  ReqHeaders :: "(string \<times> string) list"
  ReqData :: "string option"

text \<open>A response with the bytes of its body that arrive, and whether reading breaks after them.\<close>

record http_response =
  StatusCode :: int
  RespData :: string
  RespBroken :: bool

text \<open>\<open>URLError\<close> is the error of \<open>http.NewRequest\<close> for a URL that does not parse.\<close>

record 'w Client =
  baseURL :: string
  token :: string
  URLError :: "string \<Rightarrow> gerror option"
  Do :: "http_request \<Rightarrow> 'w \<Rightarrow> (gerror + http_response) \<times> 'w"

definition NewClient ::
  "(string \<Rightarrow> gerror option) \<Rightarrow> (http_request \<Rightarrow> 'w \<Rightarrow> (gerror + http_response) \<times> 'w) \<Rightarrow> string \<Rightarrow> string
   \<Rightarrow> 'w Client" where
  "NewClient urlError do base tok =
     \<lparr>baseURL = TrimRightp (\<lambda>c. c = CHR ''/'') base, token = tok, URLError = urlError, Do = do\<rparr>"

definition errorBody :: "http_response \<Rightarrow> string" where
  "errorBody resp =
     (let data = take 512 (RespData resp)
      in if RespBroken resp \<and> length (RespData resp) < 512 \<or> data = [] then ''<empty>'' else TrimSpace data)"

text \<open>\<open>json.Decoder.Decode\<close> reads the first value of the stream.\<close>

definition Decode :: "(json \<Rightarrow> 'r option) \<Rightarrow> string \<Rightarrow> 'r option" where
  "Decode dest body =
     (case parse_value (parse_fuel body) body of None \<Rightarrow> None | Some (j, rest) \<Rightarrow> dest j)"

definition get_http :: "'w Client \<Rightarrow> (json \<Rightarrow> 'r option) \<Rightarrow> string \<Rightarrow> 'w \<Rightarrow> (gerror + 'r) \<times> 'w" where
  "get_http c dest url w =
     (case URLError c url of
        Some err \<Rightarrow> (Inl (Wrapf ''creating request'' err), w)
      | None \<Rightarrow>
          (case Do c \<lparr>ReqVerb = ''GET'', ReqURL = url,
               ReqHeaders = [(''Authorization'', ''Token '' @ token c), (''Accept'', ''application/json'')],
               ReqData = None\<rparr> w of
             (Inl err, w') \<Rightarrow> (Inl (Wrapf (''executing request to '' @ url) err), w')
           | (Inr resp, w') \<Rightarrow>
               if StatusCode resp \<noteq> 200 then
                 (Inl (Errorf (''netbox API '' @ url @ '' returned HTTP '' @ Itoa (StatusCode resp) @ '': '' @ errorBody resp)), w')
               else case Decode dest (RespData resp) of
                 None \<Rightarrow> (Inl (Wrapf (''decoding response from '' @ url) (Errorf ''json'')), w')
               | Some r \<Rightarrow> (Inr r, w')))"

section \<open>Response types\<close>

record natIP =
  NatID :: int
  NatAddress :: string

record virtualMachine =
  NetboxID :: int
  NetboxName :: string
  CustomFields :: "(string, json) gomap option"

record assignedObject =
  AOID :: int
  AOName :: string
  AOVirtualMachine :: "virtualMachine option"

record ipAddress =
  IPID :: int
  IPAddress :: string
  AssignedObjectType :: "string option"
  AssignedObject :: "assignedObject option"
  NATOutsideIPs :: "natIP list"

record 'a listResponse =
  Count :: int
  Next :: "string option"
  Results :: "'a list"

definition decode_ptr :: "'a \<Rightarrow> (json \<Rightarrow> 'a \<Rightarrow> 'a option) \<Rightarrow> json \<Rightarrow> 'a option option" where
  "decode_ptr zero f j = (if j = JNull then Some None else map_option Some (f j zero))"

text \<open>A value decoded into \<open>any\<close>: a number in it must fit a \<open>float64\<close>.\<close>

fun any_ok :: "json \<Rightarrow> bool" where
  "any_ok (JNum l) \<longleftrightarrow> ParseFloat l \<noteq> None"
| "any_ok (JArr xs) \<longleftrightarrow> list_all any_ok xs"
| "any_ok (JObj ms) \<longleftrightarrow> list_all (\<lambda>(k, x). any_ok x) ms"
| "any_ok _ \<longleftrightarrow> True"

definition decode_any_map :: "json \<Rightarrow> (string, json) gomap option option" where
  "decode_any_map j =
     (case j of
        JNull \<Rightarrow> Some None
      | JObj ms \<Rightarrow> if any_ok j then Some (Some (foldl (\<lambda>m (k, x). mput k x m) [] ms)) else None
      | _ \<Rightarrow> None)"

definition nat_field :: "string \<times> json \<Rightarrow> natIP \<Rightarrow> natIP option" where
  "nat_field kj n =
     (case kj of (k, j) \<Rightarrow>
        if EqualFold k ''id'' then map_option (\<lambda>i. n\<lparr>NatID := i\<rparr>) (decode_int j (NatID n))
        else if EqualFold k ''address'' then map_option (\<lambda>s. n\<lparr>NatAddress := s\<rparr>) (decode_string j (NatAddress n))
        else Some n)"

definition vm_field :: "string \<times> json \<Rightarrow> virtualMachine \<Rightarrow> virtualMachine option" where
  "vm_field kj vm =
     (case kj of (k, j) \<Rightarrow>
        if EqualFold k ''id'' then map_option (\<lambda>i. vm\<lparr>NetboxID := i\<rparr>) (decode_int j (NetboxID vm))
        else if EqualFold k ''name'' then
          map_option (\<lambda>s. vm\<lparr>NetboxName := s\<rparr>) (decode_string j (NetboxName vm))
        else if EqualFold k ''custom_fields'' then
          map_option (\<lambda>m. vm\<lparr>CustomFields := m\<rparr>) (decode_any_map j)
        else Some vm)"

definition decode_vm :: "json \<Rightarrow> virtualMachine option" where
  "decode_vm = decode_struct vm_field \<lparr>NetboxID = 0, NetboxName = [], CustomFields = None\<rparr>"

definition ao_field :: "string \<times> json \<Rightarrow> assignedObject \<Rightarrow> assignedObject option" where
  "ao_field kj ob =
     (case kj of (k, j) \<Rightarrow>
        if EqualFold k ''id'' then map_option (\<lambda>i. ob\<lparr>AOID := i\<rparr>) (decode_int j (AOID ob))
        else if EqualFold k ''name'' then map_option (\<lambda>s. ob\<lparr>AOName := s\<rparr>) (decode_string j (AOName ob))
        else if EqualFold k ''virtual_machine'' then
          map_option (\<lambda>vm. ob\<lparr>AOVirtualMachine := vm\<rparr>)
            (if j = JNull then Some None else map_option Some (decode_vm j))
        else Some ob)"

definition ip_field :: "string \<times> json \<Rightarrow> ipAddress \<Rightarrow> ipAddress option" where
  "ip_field kj ip =
     (case kj of (k, j) \<Rightarrow>
        if EqualFold k ''id'' then map_option (\<lambda>i. ip\<lparr>IPID := i\<rparr>) (decode_int j (IPID ip))
        else if EqualFold k ''address'' then map_option (\<lambda>s. ip\<lparr>IPAddress := s\<rparr>) (decode_string j (IPAddress ip))
        else if EqualFold k ''assigned_object_type'' then
          map_option (\<lambda>s. ip\<lparr>AssignedObjectType := s\<rparr>) (decode_ptr [] decode_string j)
        else if EqualFold k ''assigned_object'' then
          map_option (\<lambda>ob. ip\<lparr>AssignedObject := ob\<rparr>)
            (decode_ptr \<lparr>AOID = 0, AOName = [], AOVirtualMachine = None\<rparr> (\<lambda>j zero. decode_struct ao_field zero j) j)
        else if EqualFold k ''nat_outside'' then
          map_option (\<lambda>ns. ip\<lparr>NATOutsideIPs := ns\<rparr>)
            (decode_array (decode_struct nat_field \<lparr>NatID = 0, NatAddress = []\<rparr>) j)
        else Some ip)"

definition decode_ip :: "json \<Rightarrow> ipAddress option" where
  "decode_ip = decode_struct ip_field
     \<lparr>IPID = 0, IPAddress = [], AssignedObjectType = None, AssignedObject = None, NATOutsideIPs = []\<rparr>"

definition list_field :: "(json \<Rightarrow> 'a option) \<Rightarrow> string \<times> json \<Rightarrow> 'a listResponse \<Rightarrow> 'a listResponse option" where
  "list_field elem kj l =
     (case kj of (k, j) \<Rightarrow>
        if EqualFold k ''count'' then map_option (\<lambda>i. l\<lparr>Count := i\<rparr>) (decode_int j (Count l))
        else if EqualFold k ''next'' then map_option (\<lambda>s. l\<lparr>Next := s\<rparr>) (decode_ptr [] decode_string j)
        else if EqualFold k ''results'' then map_option (\<lambda>rs. l\<lparr>Results := rs\<rparr>) (decode_array elem j)
        else Some l)"

definition decode_page :: "(json \<Rightarrow> 'a option) \<Rightarrow> json \<Rightarrow> 'a listResponse option" where
  "decode_page elem = decode_struct (list_field elem) \<lparr>Count = 0, Next = None, Results = []\<rparr>"

section \<open>Mappings of an address\<close>

definition vmInterfaceType :: string where "vmInterfaceType = ''virtualization.vminterface''"

definition vm_of :: "ipAddress \<Rightarrow> virtualMachine option" where
  "vm_of ip = Option.bind (AssignedObject ip) AOVirtualMachine"

definition isVMInterface :: "ipAddress \<Rightarrow> bool" where
  "isVMInterface ip \<longleftrightarrow>
     AssignedObjectType ip = Some vmInterfaceType \<and>
     (case vm_of ip of None \<Rightarrow> False | Some vm \<Rightarrow> NetboxName vm \<noteq> [])"

definition proxmoxVMIDFromVM :: "virtualMachine option \<Rightarrow> int option" where
  "proxmoxVMIDFromVM vm =
     (case Option.bind vm CustomFields of
        None \<Rightarrow> None
      | Some cf \<Rightarrow>
          (case mget cf ''proxmox_vmid'' of
             Some (JNum l) \<Rightarrow>
               (case ParseFloat l of
                  Some n \<Rightarrow> if 0 < fst n then Some (float_int n) else None
                | None \<Rightarrow> None)
           | Some (JStr s) \<Rightarrow>
               (let n = TrimSpace s
                in if n = [] then None
                   else case Atoi n of
                     Some parsed \<Rightarrow> if 0 < parsed then Some parsed else None
                   | None \<Rightarrow> None)
           | _ \<Rightarrow> None))"

definition parseHostIP :: "string \<Rightarrow> Addr option" where
  "parseHostIP cidr = (case ParsePrefix cidr of None \<Rightarrow> ParseAddr cidr | Some (addr, bits) \<Rightarrow> Some addr)"

definition mappingsForIP :: "ipAddress \<Rightarrow> int \<Rightarrow> NATMapping list" where
  "mappingsForIP ip vmid =
     (case parseHostIP (IPAddress ip) of
        None \<Rightarrow> []
      | Some internal \<Rightarrow>
          (let name = (case vm_of ip of None \<Rightarrow> [] | Some vm \<Rightarrow> NetboxName vm)
           in List.map_filter (\<lambda>ext. map_option
                (\<lambda>a. \<lparr>ExternalIP = a, InternalIP = internal, VMProxmoxVMID = vmid, VMName = name\<rparr>)
                (parseHostIP (NatAddress ext))) (NATOutsideIPs ip)))"

section \<open>The paging loop\<close>

definition next_url :: "'a listResponse \<Rightarrow> string" where
  "next_url resp = (case Next resp of Some u \<Rightarrow> u | None \<Rightarrow> [])"

text \<open>
  Both listings are read by the same loop: get a page, take in its results, follow its
  \<open>next\<close> link. It ends only if the links do; a loop that runs forever has no value.
\<close>

partial_function (option) read_pages ::
  "'w Client \<Rightarrow> (json \<Rightarrow> 'a option) \<Rightarrow> ('s \<Rightarrow> 'a \<Rightarrow> 's) \<Rightarrow> string \<Rightarrow> 's \<Rightarrow> 'w \<Rightarrow> ((gerror + 's) \<times> 'w) option" where
  "read_pages c elem take_in url acc w =
     (if url = [] then Some (Inr acc, w)
      else case get_http c (decode_page elem) url w of
        (Inl err, w') \<Rightarrow> Some (Inl err, w')
      | (Inr resp, w') \<Rightarrow> read_pages c elem take_in (next_url resp) (foldl take_in acc (Results resp)) w')"

section \<open>Resolving VMIDs in batches\<close>

definition batchSize :: nat where "batchSize = 100"

definition unreserved :: "char \<Rightarrow> bool" where
  "unreserved ch \<longleftrightarrow> (let n = (of_char ch :: nat) in
     (48 \<le> n \<and> n \<le> 57) \<or> (65 \<le> n \<and> n \<le> 90) \<or> (97 \<le> n \<and> n \<le> 122) \<or> ch \<in> set ''-_.~'')"

definition QueryEscape :: "string \<Rightarrow> string" where
  "QueryEscape s = concat (map (\<lambda>ch.
     if unreserved ch then [ch]
     else if ch = CHR '' '' then ''+''
     else [CHR ''%'', to_upper (hex_digit (of_char ch div 16)), to_upper (hex_digit (of_char ch mod 16))]) s)"

definition batch_url :: "'w Client \<Rightarrow> int list \<Rightarrow> string" where
  "batch_url c ids = baseURL c @ ''/api/virtualization/virtual-machines/?'' @
     concat (map (\<lambda>i. ''id='' @ QueryEscape (Itoa i) @ ''&'') ids) @ ''limit='' @ Itoa (int batchSize)"

definition resolve_one :: "(int, int) gomap \<Rightarrow> virtualMachine \<Rightarrow> (int, int) gomap" where
  "resolve_one resolved vm =
     (case proxmoxVMIDFromVM (Some vm) of Some vmid \<Rightarrow> mput (NetboxID vm) vmid resolved | None \<Rightarrow> resolved)"

function vmid_batches ::
  "'w Client \<Rightarrow> int list \<Rightarrow> (int, int) gomap \<Rightarrow> 'w \<Rightarrow> ((gerror + (int, int) gomap) \<times> 'w) option" where
  "vmid_batches c ids resolved w =
     (if ids = [] then Some (Inr resolved, w)
      else case read_pages c decode_vm resolve_one (batch_url c (take batchSize ids)) resolved w of
        None \<Rightarrow> None
      | Some (Inl err, w') \<Rightarrow> Some (Inl err, w')
      | Some (Inr resolved', w') \<Rightarrow> vmid_batches c (drop batchSize ids) resolved' w')"
  by pat_completeness auto
termination
  by (relation "measure (\<lambda>(c, ids, resolved, w). length ids)") (auto simp: batchSize_def)

declare vmid_batches.simps [simp del]

definition fetchProxmoxVMIDs ::
  "'w Client \<Rightarrow> int list \<Rightarrow> 'w \<Rightarrow> ((gerror + (int, int) gomap) \<times> 'w) option" where
  "fetchProxmoxVMIDs c netboxIDs w = vmid_batches c netboxIDs [] w"

section \<open>The fetch\<close>

record fetch_state =
  fetched :: "NATMapping list"
  unresolved :: "(ipAddress \<times> int) list"
  needVMIDs :: "int list" \<comment> \<open>its members are the keys of \<open>seenVMID\<close>\<close>

definition collect_ip :: "fetch_state \<Rightarrow> ipAddress \<Rightarrow> fetch_state" where
  "collect_ip st ip =
     (if \<not> isVMInterface ip then st
      else case proxmoxVMIDFromVM (vm_of ip) of
        Some vmid \<Rightarrow> st\<lparr>fetched := fetched st @ mappingsForIP ip vmid\<rparr>
      | None \<Rightarrow>
          (let nid = (case vm_of ip of None \<Rightarrow> 0 | Some vm \<Rightarrow> NetboxID vm)
           in if nid \<le> 0 then st
              else st\<lparr>unresolved := unresolved st @ [(ip, nid)],
                      needVMIDs := (if nid \<in> set (needVMIDs st) then needVMIDs st else needVMIDs st @ [nid])\<rparr>))"

definition resolve_pending :: "(int, int) gomap \<Rightarrow> NATMapping list \<Rightarrow> ipAddress \<times> int \<Rightarrow> NATMapping list" where
  "resolve_pending resolved ms p =
     (case mget resolved (snd p) of None \<Rightarrow> ms | Some vmid \<Rightarrow> ms @ mappingsForIP (fst p) vmid)"

definition first_url :: "'w Client \<Rightarrow> string" where
  "first_url c = baseURL c @ ''/api/ipam/ip-addresses/?nat_outside__isnull=false&limit=200''"

definition fetch_mappings :: "'w Client \<Rightarrow> 'w \<Rightarrow> ((gerror + NATMapping list) \<times> 'w) option" where
  "fetch_mappings c w =
     (case read_pages c decode_ip collect_ip (first_url c) \<lparr>fetched = [], unresolved = [], needVMIDs = []\<rparr> w of
        None \<Rightarrow> None
      | Some (Inl err, w1) \<Rightarrow> Some (Inl (Wrapf ''fetching NAT mappings'' err), w1)
      | Some (Inr st, w1) \<Rightarrow>
          if needVMIDs st = [] then Some (Inr (fetched st), w1)
          else case fetchProxmoxVMIDs c (needVMIDs st) w1 of
            None \<Rightarrow> None
          | Some (Inl err, w2) \<Rightarrow>
              Some (Inl (Wrapf (''resolving proxmox_vmid for '' @ Itoa (int (length (needVMIDs st))) @ '' VM(s)'') err), w2)
          | Some (Inr resolved, w2) \<Rightarrow> Some (Inr (foldl (resolve_pending resolved) (fetched st) (unresolved st)), w2))"

section \<open>What the paging loop reads\<close>

text \<open>The pages NetBox serves from a URL on, to the end.\<close>

fun chain ::
  "'w Client \<Rightarrow> (json \<Rightarrow> 'a option) \<Rightarrow> string \<Rightarrow> 'a listResponse list \<Rightarrow> 'w \<Rightarrow> 'w \<Rightarrow> bool" where
  "chain c elem url [] w w' \<longleftrightarrow> url = [] \<and> w' = w"
| "chain c elem url (p # ps) w w' \<longleftrightarrow> url \<noteq> [] \<and>
     (case get_http c (decode_page elem) url w of
        (Inl err, w1) \<Rightarrow> False
      | (Inr resp, w1) \<Rightarrow> resp = p \<and> chain c elem (next_url p) ps w1 w')"

definition all_results :: "'a listResponse list \<Rightarrow> 'a list" where
  "all_results ps = concat (map Results ps)"

lemma read_pages_chain_if:
  "chain c elem url ps w w' \<Longrightarrow> read_pages c elem f url acc w = Some (Inr (foldl f acc (all_results ps)), w')"
proof (induction ps arbitrary: url acc w)
  case Nil
  then show ?case by (simp add: read_pages.simps all_results_def)
next
  case (Cons p ps)
  then show ?case
    by (subst read_pages.simps) (auto simp: all_results_def split: prod.splits sum.splits)
qed

lemma read_pages_chainD:
  assumes "read_pages c elem f url acc w = Some y"
  shows "\<forall>r w'. y = (Inr r, w') \<longrightarrow> (\<exists>ps. chain c elem url ps w w' \<and> r = foldl f acc (all_results ps))"
proof (rule read_pages.raw_induct [OF _ assms, where P = "\<lambda>c elem f url acc w y.
    \<forall>r w'. y = (Inr r, w') \<longrightarrow> (\<exists>ps. chain c elem url ps w w' \<and> r = foldl f acc (all_results ps))"], intro allI impI)
  fix rp c elem f url acc w y r w'
  assume IH: "\<And>c elem f url acc w y. rp c elem f url acc w = Some y \<Longrightarrow>
      \<forall>r w'. y = (Inr r, w') \<longrightarrow> (\<exists>ps. chain c elem url ps w w' \<and> r = foldl f acc (all_results ps))"
    and body: "(if url = [] then Some (Inr acc, w)
      else case get_http c (decode_page elem) url w of
        (Inl err, w') \<Rightarrow> Some (Inl err, w')
      | (Inr resp, w') \<Rightarrow> rp c elem f (next_url resp) (foldl f acc (Results resp)) w') = Some y"
    and y: "y = (Inr r, w')"
  show "\<exists>ps. chain c elem url ps w w' \<and> r = foldl f acc (all_results ps)"
  proof (cases "url = []")
    case True
    then have "chain c elem url [] w w' \<and> r = foldl f acc (all_results [])"
      using body y by (simp add: all_results_def)
    then show ?thesis ..
  next
    case False
    then obtain p w1 where get: "get_http c (decode_page elem) url w = (Inr p, w1)"
      and rp: "rp c elem f (next_url p) (foldl f acc (Results p)) w1 = Some y"
      using body y by (auto split: prod.splits sum.splits)
    obtain ps where "chain c elem (next_url p) ps w1 w'"
      "r = foldl f (foldl f acc (Results p)) (all_results ps)"
      using IH [OF rp] y by blast
    then have "chain c elem url (p # ps) w w' \<and> r = foldl f acc (all_results (p # ps))"
      using False get by (simp add: all_results_def)
    then show ?thesis ..
  qed
qed

lemma read_pages_iff:
  "read_pages c elem f url acc w = Some (Inr r, w') \<longleftrightarrow>
     (\<exists>ps. chain c elem url ps w w' \<and> r = foldl f acc (all_results ps))"
  using read_pages_chain_if read_pages_chainD by metis

text \<open>Following at most \<open>n\<close> links leads to the end or to an error.\<close>

fun ends :: "'w Client \<Rightarrow> (json \<Rightarrow> 'a option) \<Rightarrow> nat \<Rightarrow> string \<Rightarrow> 'w \<Rightarrow> bool" where
  "ends c elem 0 url w \<longleftrightarrow> url = []"
| "ends c elem (Suc n) url w \<longleftrightarrow> url = [] \<or>
     (case get_http c (decode_page elem) url w of
        (Inl err, w1) \<Rightarrow> True | (Inr resp, w1) \<Rightarrow> ends c elem n (next_url resp) w1)"

lemma read_pages_returns: "ends c elem n url w \<Longrightarrow> \<exists>y. read_pages c elem f url acc w = Some y"
proof (induction n arbitrary: url acc w)
  case 0
  then show ?case by (simp add: read_pages.simps)
next
  case (Suc n)
  then show ?case by (subst read_pages.simps) (auto split: prod.splits sum.splits)
qed

lemma read_pages_ends:
  assumes "read_pages c elem f url acc w = Some y"
  shows "\<exists>n. ends c elem n url w"
proof (rule read_pages.raw_induct [OF _ assms, where P = "\<lambda>c elem f url acc w y. \<exists>n. ends c elem n url w"])
  fix rp c elem f url acc w y
  assume IH: "\<And>c elem f url acc w y. rp c elem f url acc w = Some y \<Longrightarrow> \<exists>n. ends c elem n url w"
    and body: "(if url = [] then Some (Inr acc, w)
      else case get_http c (decode_page elem) url w of
        (Inl err, w') \<Rightarrow> Some (Inl err, w')
      | (Inr resp, w') \<Rightarrow> rp c elem f (next_url resp) (foldl f acc (Results resp)) w') = Some y"
  show "\<exists>n. ends c elem n url w"
  proof (cases "url = []")
    case True
    then have "ends c elem 0 url w" by simp
    then show ?thesis ..
  next
    case False
    obtain res w1 where get: "get_http c (decode_page elem) url w = (res, w1)" by fastforce
    have "\<exists>n. \<forall>p. res = Inr p \<longrightarrow> ends c elem n (next_url p) w1"
    proof (cases res)
      case (Inr p)
      then have "rp c elem f (next_url p) (foldl f acc (Results p)) w1 = Some y" using body False get by simp
      from IH [OF this] show ?thesis using Inr by simp
    qed simp
    then obtain n where "\<forall>p. res = Inr p \<longrightarrow> ends c elem n (next_url p) w1" ..
    then have "ends c elem (Suc n) url w" using get by (simp split: sum.split)
    then show ?thesis ..
  qed
qed

lemma read_pages_returns_iff: "(\<exists>y. read_pages c elem f url acc w = Some y) \<longleftrightarrow> (\<exists>n. ends c elem n url w)"
  by (metis read_pages_returns read_pages_ends)

section \<open>What the batches read\<close>

fun chunks :: "nat \<Rightarrow> 'a list \<Rightarrow> 'a list list" where
  "chunks 0 xs = []"
| "chunks (Suc n) xs = (if xs = [] then [] else take batchSize xs # chunks n (drop batchSize xs))"

definition batches :: "'a list \<Rightarrow> 'a list list" where
  "batches xs = chunks (length xs) xs"

lemma chunks_enough: "length xs \<le> n \<Longrightarrow> chunks n xs = batches xs"
proof (induction n arbitrary: xs rule: less_induct)
  case (less n)
  show ?case
  proof (cases xs)
    case (Cons x xs')
    then obtain k where n: "n = Suc k" using less.prems by (cases n) auto
    let ?r = "drop batchSize xs"
    have "length ?r \<le> k" "length ?r \<le> length xs'" "k < n" "length xs' < n"
      using less.prems Cons n by (simp_all add: batchSize_def)
    then have "chunks k ?r = batches ?r" "chunks (length xs') ?r = batches ?r" using less.IH by simp_all
    then show ?thesis using Cons n by (simp add: batches_def)
  qed (cases n, simp_all add: batches_def)
qed

lemma batches_simps:
  "batches [] = []"
  "xs \<noteq> [] \<Longrightarrow> batches xs = take batchSize xs # batches (drop batchSize xs)"
proof -
  show "batches [] = []" by (simp add: batches_def)
  assume "xs \<noteq> []"
  then obtain x xs' where xs: "xs = x # xs'" by (cases xs) auto
  have "length (drop batchSize xs) \<le> length xs'" by (simp add: xs batchSize_def)
  from chunks_enough [OF this] show "batches xs = take batchSize xs # batches (drop batchSize xs)"
    by (simp add: batches_def xs)
qed

lemma ceil_step: "0 < n \<Longrightarrow> Suc ((n - 100 + 99) div 100) = (n + 99) div (100 :: nat)"
proof -
  assume "0 < n"
  then have "n + 99 = (n - 1) + 100" by simp
  then have "(n + 99) div 100 = Suc ((n - 1) div 100)" by simp
  moreover have "(n - 100 + 99) div 100 = (n - 1) div 100" by (cases "n \<le> 100") auto
  ultimately show ?thesis by simp
qed

lemma batches_facts:
  "concat (batches xs) = xs"
  "b \<in> set (batches xs) \<Longrightarrow> b \<noteq> [] \<and> length b \<le> batchSize"
  "length (batches xs) = (length xs + 99) div 100"
proof -
  have "concat (batches xs) = xs \<and> (\<forall>b \<in> set (batches xs). b \<noteq> [] \<and> length b \<le> batchSize) \<and>
    length (batches xs) = (length xs + 99) div 100"
  proof (induction "length xs" arbitrary: xs rule: less_induct)
    case less
    show ?case
    proof (cases "xs = []")
      case False
      then have "length (drop batchSize xs) < length xs" by (simp add: batchSize_def)
      note IH = less.hyps [OF this]
      have "take batchSize xs \<noteq> []" "length (take batchSize xs) \<le> batchSize"
        using False by (simp_all add: batchSize_def)
      moreover have "Suc ((length (drop batchSize xs) + 99) div 100) = (length xs + 99) div 100"
        using ceil_step [of "length xs"] False by (simp add: batchSize_def)
      ultimately show ?thesis using IH unfolding batches_simps(2) [OF False] by simp
    qed (simp add: batches_simps)
  qed
  then show "concat (batches xs) = xs" "b \<in> set (batches xs) \<Longrightarrow> b \<noteq> [] \<and> length b \<le> batchSize"
    "length (batches xs) = (length xs + 99) div 100" by blast+
qed

text \<open>The VMs NetBox serves for a list of batches.\<close>

fun batch_chain ::
  "'w Client \<Rightarrow> int list list \<Rightarrow> virtualMachine list list \<Rightarrow> 'w \<Rightarrow> 'w \<Rightarrow> bool" where
  "batch_chain c [] [] w w' \<longleftrightarrow> w' = w"
| "batch_chain c (b # bs) (vs # vss) w w' \<longleftrightarrow>
     (\<exists>ps w1. chain c decode_vm (batch_url c b) ps w w1 \<and> vs = all_results ps \<and> batch_chain c bs vss w1 w')"
| "batch_chain c _ _ w w' \<longleftrightarrow> False"

lemma batch_chain_Nil [simp]: "batch_chain c [] vss w w' \<longleftrightarrow> vss = [] \<and> w' = w"
  by (cases vss) auto

lemma ex_Cons: "\<not> B [] \<Longrightarrow> (\<exists>xs. B xs \<and> Q xs) \<longleftrightarrow> (\<exists>x xs. B (x # xs) \<and> Q (x # xs))"
  by (metis neq_Nil_conv)

lemma vmid_batches_iff:
  "vmid_batches c ids r w = Some (Inr r', w') \<longleftrightarrow>
     (\<exists>vss. batch_chain c (batches ids) vss w w' \<and> r' = foldl resolve_one r (concat vss))"
proof (induction "length ids" arbitrary: ids r w rule: less_induct)
  case less
  show ?case
  proof (cases "ids = []")
    case True
    then show ?thesis by (auto simp: vmid_batches.simps batches_simps(1))
  next
    case False
    let ?d = "drop batchSize ids" and ?u = "batch_url c (take batchSize ids)"
    have "length ?d < length ids" using False by (simp add: batchSize_def)
    note IH = less.hyps [OF this]
    have "vmid_batches c ids r w = Some (Inr r', w') \<longleftrightarrow>
      (\<exists>r1 w1. read_pages c decode_vm resolve_one ?u r w = Some (Inr r1, w1) \<and> vmid_batches c ?d r1 w1 = Some (Inr r', w'))"
    proof -
      have eq: "vmid_batches c ids r w = (case read_pages c decode_vm resolve_one ?u r w of
          None \<Rightarrow> None
        | Some (Inl err, w1) \<Rightarrow> Some (Inl err, w1)
        | Some (Inr r1, w1) \<Rightarrow> vmid_batches c ?d r1 w1)"
        using False by (subst vmid_batches.simps) (rule if_not_P)
      show ?thesis
      proof (cases "read_pages c decode_vm resolve_one ?u r w")
        case (Some y)
        then show ?thesis unfolding eq by (cases y; cases "fst y") simp_all
      qed (simp add: eq)
    qed
    also have "\<dots> \<longleftrightarrow> (\<exists>w1 ps vss. chain c decode_vm ?u ps w w1 \<and> batch_chain c (batches ?d) vss w1 w' \<and>
        r' = foldl resolve_one (foldl resolve_one r (all_results ps)) (concat vss))"
      unfolding read_pages_iff IH by blast
    also have "\<dots> \<longleftrightarrow> (\<exists>vs vss. batch_chain c (take batchSize ids # batches ?d) (vs # vss) w w' \<and>
        r' = foldl resolve_one r (concat (vs # vss)))" by auto
    also have "\<dots> \<longleftrightarrow> (\<exists>vss. batch_chain c (batches ids) vss w w' \<and> r' = foldl resolve_one r (concat vss))"
      unfolding batches_simps(2) [OF False] by (rule ex_Cons [symmetric]) simp
    finally show ?thesis .
  qed
qed

section \<open>What the fetch collects\<close>

definition netbox_id :: "ipAddress \<Rightarrow> int" where
  "netbox_id ip = (case vm_of ip of None \<Rightarrow> 0 | Some vm \<Rightarrow> NetboxID vm)"

text \<open>An address whose VM carries its VMID, and one whose VM has to be asked for.\<close>

definition direct_vmid :: "ipAddress \<Rightarrow> int option" where
  "direct_vmid ip = (if isVMInterface ip then proxmoxVMIDFromVM (vm_of ip) else None)"

definition is_open :: "ipAddress \<Rightarrow> bool" where
  "is_open ip \<longleftrightarrow> isVMInterface ip \<and> proxmoxVMIDFromVM (vm_of ip) = None \<and> 0 < netbox_id ip"

definition open_ids :: "ipAddress list \<Rightarrow> int list" where
  "open_ids ips = rev (remdups (rev (map netbox_id (filter is_open ips))))"

definition looked_up :: "virtualMachine list \<Rightarrow> ipAddress \<Rightarrow> int option" where
  "looked_up vms ip = (if is_open ip then mget (foldl resolve_one [] vms) (netbox_id ip) else None)"

definition mappings_with :: "(ipAddress \<Rightarrow> int option) \<Rightarrow> ipAddress \<Rightarrow> NATMapping list" where
  "mappings_with f ip = (case f ip of None \<Rightarrow> [] | Some vmid \<Rightarrow> mappingsForIP ip vmid)"

definition expected :: "virtualMachine list \<Rightarrow> ipAddress list \<Rightarrow> NATMapping list" where
  "expected vms ips =
     concat (map (mappings_with direct_vmid) ips) @ concat (map (mappings_with (looked_up vms)) ips)"

definition answered :: "'w Client \<Rightarrow> 'w \<Rightarrow> ipAddress list \<Rightarrow> virtualMachine list \<Rightarrow> 'w \<Rightarrow> bool" where
  "answered c w ips vms w' \<longleftrightarrow>
     (\<exists>ps vss w1. chain c decode_ip (first_url c) ps w w1 \<and> ips = all_results ps \<and>
        batch_chain c (batches (open_ids ips)) vss w1 w' \<and> vms = concat vss)"

lemma collect_all:
  "foldl collect_ip \<lparr>fetched = [], unresolved = [], needVMIDs = []\<rparr> ips =
     \<lparr>fetched = concat (map (mappings_with direct_vmid) ips),
      unresolved = map (\<lambda>ip. (ip, netbox_id ip)) (filter is_open ips), needVMIDs = open_ids ips\<rparr>"
proof (induction ips rule: rev_induct)
  case (snoc ip ips)
  have "collect_ip \<lparr>fetched = F, unresolved = U, needVMIDs = N\<rparr> ip =
    \<lparr>fetched = F @ mappings_with direct_vmid ip, unresolved = (if is_open ip then U @ [(ip, netbox_id ip)] else U),
     needVMIDs = (if is_open ip \<and> netbox_id ip \<notin> set N then N @ [netbox_id ip] else N)\<rparr>" for F U N
    by (auto simp: collect_ip_def direct_vmid_def is_open_def mappings_with_def netbox_id_def Let_def
        split: option.splits)
  moreover have "set (open_ids ips) = netbox_id ` set (filter is_open ips)" by (simp add: open_ids_def)
  ultimately show ?case using snoc by (auto simp: open_ids_def)
qed (simp add: open_ids_def)

lemma resolve_all_pending:
  "foldl (resolve_pending (foldl resolve_one [] vms)) ms (map (\<lambda>ip. (ip, netbox_id ip)) (filter is_open ips)) =
     ms @ concat (map (mappings_with (looked_up vms)) ips)"
  by (induction ips arbitrary: ms)
    (auto simp: resolve_pending_def mappings_with_def looked_up_def split: option.split)

lemma not_open: "open_ids ips = [] \<longleftrightarrow> filter is_open ips = []"
  by (simp add: open_ids_def)

lemma expected_closed: "open_ids ips = [] \<Longrightarrow> expected vms ips = concat (map (mappings_with direct_vmid) ips)"
  by (auto simp: expected_def not_open mappings_with_def looked_up_def filter_empty_conv
      intro!: concat_map_filter_empty)

lemma mset_expected:
  "mset (expected vms ips) =
     mset (concat (map (mappings_with (\<lambda>ip. if direct_vmid ip \<noteq> None then direct_vmid ip else looked_up vms ip)) ips))"
proof (induction ips)
  case (Cons ip ips)
  have "direct_vmid ip \<noteq> None \<Longrightarrow> looked_up vms ip = None"
    by (auto simp: direct_vmid_def looked_up_def is_open_def split: if_splits)
  then show ?case using Cons by (cases "direct_vmid ip") (simp_all add: expected_def mappings_with_def)
qed (simp add: expected_def)

lemma open_ids_distinct: "distinct (open_ids ips)"
  by (simp add: open_ids_def)

text \<open>The fetch once the addresses are collected.\<close>

definition finished :: "'w Client \<Rightarrow> fetch_state \<Rightarrow> 'w \<Rightarrow> NATMapping list \<Rightarrow> 'w \<Rightarrow> bool" where
  "finished c st w1 ms w' \<longleftrightarrow>
     (if needVMIDs st = [] then ms = fetched st \<and> w' = w1
      else \<exists>r. vmid_batches c (needVMIDs st) [] w1 = Some (Inr r, w') \<and>
        ms = foldl (resolve_pending r) (fetched st) (unresolved st))"

lemma fetch_mappings_finished:
  "fetch_mappings c w = Some (Inr ms, w') \<longleftrightarrow>
     (\<exists>st w1. read_pages c decode_ip collect_ip (first_url c) \<lparr>fetched = [], unresolved = [], needVMIDs = []\<rparr> w
        = Some (Inr st, w1) \<and> finished c st w1 ms w')"
proof (cases "read_pages c decode_ip collect_ip (first_url c) \<lparr>fetched = [], unresolved = [], needVMIDs = []\<rparr> w")
  case (Some y)
  obtain res w1 where y: "y = (res, w1)" by fastforce
  show ?thesis
  proof (cases res)
    case (Inr st)
    have eq: "fetch_mappings c w = (if needVMIDs st = [] then Some (Inr (fetched st), w1)
        else case fetchProxmoxVMIDs c (needVMIDs st) w1 of
            None \<Rightarrow> None
          | Some (Inl err, w2) \<Rightarrow>
              Some (Inl (Wrapf (''resolving proxmox_vmid for '' @ Itoa (int (length (needVMIDs st))) @ '' VM(s)'') err), w2)
          | Some (Inr resolved, w2) \<Rightarrow> Some (Inr (foldl (resolve_pending resolved) (fetched st) (unresolved st)), w2))"
      using Some y Inr by (simp add: fetch_mappings_def)
    show ?thesis
    proof (cases "vmid_batches c (needVMIDs st) [] w1")
      case None
      then show ?thesis using Some y Inr by (auto simp: eq finished_def fetchProxmoxVMIDs_def)
    next
      case S: (Some z)
      obtain res2 w2 where "z = (res2, w2)" by fastforce
      then show ?thesis
        using Some y Inr S by (cases res2) (auto simp: eq finished_def fetchProxmoxVMIDs_def)
    qed
  qed (use Some y in \<open>simp add: fetch_mappings_def\<close>)
qed (simp add: fetch_mappings_def)

lemma finished_collected:
  "finished c (foldl collect_ip \<lparr>fetched = [], unresolved = [], needVMIDs = []\<rparr> ips) w1 ms w' \<longleftrightarrow>
     (\<exists>vss. batch_chain c (batches (open_ids ips)) vss w1 w' \<and> ms = expected (concat vss) ips)"
proof (cases "open_ids ips = []")
  case True
  then show ?thesis by (auto simp: finished_def collect_all batches_simps(1) expected_closed)
next
  case False
  then show ?thesis
    by (auto simp: finished_def collect_all vmid_batches_iff resolve_all_pending expected_def)
qed

section \<open>Properties\<close>

lemma fetch_iff:
  "fetch_mappings c w = Some (Inr ms, w') \<longleftrightarrow>
      (\<exists>ips vms. answered c w ips vms w' \<and> ms = expected vms ips)"
proof -
  let ?st = "\<lparr>fetched = [], unresolved = [], needVMIDs = []\<rparr>"
  have "fetch_mappings c w = Some (Inr ms, w') \<longleftrightarrow>
    (\<exists>st w1. read_pages c decode_ip collect_ip (first_url c) ?st w = Some (Inr st, w1) \<and> finished c st w1 ms w')"
    by (rule fetch_mappings_finished)
  also have "\<dots> \<longleftrightarrow> (\<exists>ps w1. chain c decode_ip (first_url c) ps w w1 \<and>
      finished c (foldl collect_ip ?st (all_results ps)) w1 ms w')"
    unfolding read_pages_iff by blast
  also have "\<dots> \<longleftrightarrow> (\<exists>ips vms. answered c w ips vms w' \<and> ms = expected vms ips)"
    unfolding finished_collected answered_def by blast
  finally show ?thesis .
qed

text \<open>
  C28: The fetch is exact. It succeeds exactly if NetBox answers the whole address listing and
  the listing of every VM it has to ask for; the result then holds, as often as NetBox lists
  them, exactly the mappings of the listed addresses on VM interfaces whose VM carries a VMID
  in the address listing or, failing that, in the VM listing. A failed request or page never
  yields a partial result.
\<close>

theorem fetch_is_exact:
  "(fetch_mappings c w = Some (Inr ms, w') \<longleftrightarrow>
      (\<exists>ips vms. answered c w ips vms w' \<and> ms = expected vms ips)) \<and>
   mset (expected vms ips) = mset (concat (map (mappings_with
      (\<lambda>ip. if direct_vmid ip \<noteq> None then direct_vmid ip else looked_up vms ip)) ips))"
  unfolding fetch_iff using mset_expected by blast

lemma vmid_batches_returns:
  assumes "\<And>b w. \<exists>n. ends c decode_vm n (batch_url c b) w"
  shows "\<exists>y. vmid_batches c ids r w = Some y"
proof (induction "length ids" arbitrary: ids r w rule: less_induct)
  case less
  show ?case
  proof (cases "ids = []")
    case False
    obtain res w1 where rd: "read_pages c decode_vm resolve_one (batch_url c (take batchSize ids)) r w = Some (res, w1)"
      using read_pages_returns assms by (metis prod.exhaust)
    have "length (drop batchSize ids) < length ids" using False by (simp add: batchSize_def)
    from less.hyps [OF this] show ?thesis
      using False by (subst vmid_batches.simps) (cases res, simp_all add: rd)
  qed (simp add: vmid_batches.simps)
qed

text \<open>
  C34: When the fetch ends. Provided the VM listings end, the fetch returns exactly if
  following the \<open>next\<close> links from the first page of the address listing comes to an end or an
  error after finitely many pages; links that lead round in a circle keep it running forever.
\<close>

theorem fetch_ends_with_the_links:
  assumes "\<And>b w. \<exists>n. ends c decode_vm n (batch_url c b) w"
  shows "(\<exists>y. fetch_mappings c w = Some y) \<longleftrightarrow> (\<exists>n. ends c decode_ip n (first_url c) w)"
proof
  assume "\<exists>y. fetch_mappings c w = Some y"
  then have "\<exists>y. read_pages c decode_ip collect_ip (first_url c) \<lparr>fetched = [], unresolved = [], needVMIDs = []\<rparr> w = Some y"
    by (cases "read_pages c decode_ip collect_ip (first_url c) \<lparr>fetched = [], unresolved = [], needVMIDs = []\<rparr> w")
      (simp_all add: fetch_mappings_def)
  then show "\<exists>n. ends c decode_ip n (first_url c) w" unfolding read_pages_returns_iff .
next
  assume "\<exists>n. ends c decode_ip n (first_url c) w"
  then obtain res w1 where rd: "read_pages c decode_ip collect_ip (first_url c) \<lparr>fetched = [], unresolved = [], needVMIDs = []\<rparr> w = Some (res, w1)"
    using read_pages_returns by (metis prod.exhaust)
  show "\<exists>y. fetch_mappings c w = Some y"
  proof (cases res)
    case (Inr st)
    obtain res2 w2 where "vmid_batches c (needVMIDs st) [] w1 = Some (res2, w2)"
      using vmid_batches_returns [OF assms] by (metis prod.exhaust)
    then show ?thesis by (cases res2) (simp_all add: fetch_mappings_def fetchProxmoxVMIDs_def rd Inr)
  qed (simp add: fetch_mappings_def rd)
qed

section \<open>The requests of a fetch\<close>

text \<open>A client that keeps a log of the URLs it requests.\<close>

definition logging :: "'w Client \<Rightarrow> (string list \<times> 'w) Client" where
  "logging c = \<lparr>baseURL = baseURL c, token = token c, URLError = URLError c,
     Do = (\<lambda>req (l, w). case Do c req w of (res, w') \<Rightarrow> (res, (l @ [ReqURL req], w')))\<rparr>"

fun visited :: "string \<Rightarrow> 'a listResponse list \<Rightarrow> string list" where
  "visited url [] = []"
| "visited url (p # ps) = url # visited (next_url p) ps"

lemma logging_simps [simp]:
  "baseURL (logging c) = baseURL c" "token (logging c) = token c" "URLError (logging c) = URLError c"
  "batch_url (logging c) b = batch_url c b" "first_url (logging c) = first_url c"
  by (simp_all add: logging_def batch_url_def first_url_def)

lemma get_http_logging:
  "URLError c url = None \<Longrightarrow>
     get_http (logging c) dest url (l, w) = (case get_http c dest url w of (res, w') \<Rightarrow> (res, (l @ [url], w')))"
  by (auto simp: get_http_def logging_def split: prod.splits sum.splits option.splits)

lemma chain_logging:
  assumes "\<And>url. URLError c url = None"
  shows "chain (logging c) elem url ps (l, w) (l', w') \<longleftrightarrow> chain c elem url ps w w' \<and> l' = l @ visited url ps"
proof (induction ps arbitrary: url l w)
  case (Cons p ps)
  then show ?case
    by (cases "get_http c (decode_page elem) url w")
      (auto simp: get_http_logging [OF assms] split: sum.split)
qed auto

lemma batch_chain_logging:
  assumes "\<And>url. URLError c url = None"
    and "\<And>b p w w'. get_http c (decode_page decode_vm) (batch_url c b) w = (Inr p, w') \<Longrightarrow> next_url p = []"
  shows "batch_chain (logging c) bs vss (l, w) (l', w') \<Longrightarrow> l' = l @ map (batch_url c) bs"
proof (induction bs arbitrary: vss l w)
  case (Cons b bs)
  then obtain vs vss' ps l1 w1 where vss: "vss = vs # vss'"
    and ch: "chain (logging c) decode_vm (batch_url c b) ps (l, w) (l1, w1)"
    and rest: "batch_chain (logging c) bs vss' (l1, w1) (l', w')"
    by (cases vss) auto
  have ne: "batch_url c b \<noteq> []" by (simp add: batch_url_def)
  obtain p ps' where ps: "ps = p # ps'" using ch ne by (cases ps) auto
  have "chain c decode_vm (batch_url c b) ps w w1" "l1 = l @ visited (batch_url c b) ps"
    using ch unfolding chain_logging [OF assms(1)] by simp_all
  moreover from this(1) obtain w2 where "next_url p = []" "chain c decode_vm (next_url p) ps' w2 w1"
    using assms(2) ps by (auto split: prod.splits sum.splits)
  then have "ps' = []" by (cases ps') auto
  ultimately show ?case using Cons.IH [OF rest] ps by simp
qed simp


section \<open>VMIDs\<close>

lemma TrimSpace_id: "\<forall>ch \<in> set s. \<not> is_space ch \<Longrightarrow> TrimSpace s = s"
proof -
  assume s: "\<forall>ch \<in> set s. \<not> is_space ch"
  have "dropWhile is_space t = t" if "set t \<subseteq> set s" for t using s that by (cases t) auto
  then show "TrimSpace s = s" by (simp add: TrimSpace_def TrimRightp_def TrimLeft_def)
qed

lemma Itoa_no_space: "(\<forall>ch \<in> set (Itoa n). \<not> is_space ch) \<and> Itoa n \<noteq> []"
  using dec_digits [of "nat n"] dec_digits [of "nat (- n)"]
  by (auto simp: Itoa_def list_all_iff is_space_def is_digit_def)

lemma ParseFloat_nonpos:
  assumes "n \<le> 0" "ParseFloat (Itoa n) = Some f"
  shows "\<not> 0 < fst f"
proof (cases "n = 0")
  case True
  then show ?thesis using assms(2) by (auto simp: ParseFloat_def Itoa_def literal_digits_dec nearest_float_def)
next
  case False
  then have "fst (literal_digits (Itoa n))" using assms(1) by (simp add: Itoa_def literal_digits_def HasPrefix_def Let_def)
  then show ?thesis using assms(2) by (auto simp: ParseFloat_def Let_def split: prod.splits if_splits)
qed

text \<open>
  A VMID is read as it is stored. A custom field that holds a positive integer below
  $2^{53}$ as a number, or any positive 64-bit integer as a decimal string, gives that VMID;
  an absent field, \<open>null\<close>, zero and negative integers give none.
\<close>

theorem vmid_read_as_stored:
  assumes "CustomFields vm = Some cf"
  shows "(mget cf ''proxmox_vmid'' = Some (JNum (Itoa n)) \<and> \<bar>n\<bar> < 2 ^ 53 \<longrightarrow>
      proxmoxVMIDFromVM (Some vm) = (if 0 < n then Some n else None)) \<and>
    (mget cf ''proxmox_vmid'' = Some (JStr (Itoa n)) \<and> in_int64 n \<longrightarrow>
      proxmoxVMIDFromVM (Some vm) = (if 0 < n then Some n else None)) \<and>
    (mget cf ''proxmox_vmid'' \<in> {None, Some JNull} \<longrightarrow> proxmoxVMIDFromVM (Some vm) = None)"
proof (intro conjI impI)
  assume num: "mget cf ''proxmox_vmid'' = Some (JNum (Itoa n)) \<and> \<bar>n\<bar> < 2 ^ 53"
  show "proxmoxVMIDFromVM (Some vm) = (if 0 < n then Some n else None)"
  proof (cases "0 < n")
    case True
    then obtain f where "ParseFloat (Itoa n) = Some f" "0 < fst f" "float_int f = n"
      using ParseFloat_int [of n] num by auto
    then show ?thesis using assms num True by (simp add: proxmoxVMIDFromVM_def)
  next
    case False
    then have "\<forall>f. ParseFloat (Itoa n) = Some f \<longrightarrow> \<not> 0 < fst f" using ParseFloat_nonpos [of n] by auto
    then show ?thesis using assms num False by (simp add: proxmoxVMIDFromVM_def split: option.split)
  qed
next
  assume str: "mget cf ''proxmox_vmid'' = Some (JStr (Itoa n)) \<and> in_int64 n"
  have "TrimSpace (Itoa n) = Itoa n" "Itoa n \<noteq> []" using Itoa_no_space by (simp_all add: TrimSpace_id)
  then show "proxmoxVMIDFromVM (Some vm) = (if 0 < n then Some n else None)"
    using assms str by (simp add: proxmoxVMIDFromVM_def Atoi_Itoa)
qed (use assms in \<open>auto simp: proxmoxVMIDFromVM_def\<close>)

section \<open>Witnesses\<close>

text \<open>NetBox as a fixed table of documents, and one that answers everything with an empty page.\<close>

definition static_netbox :: "(string \<Rightarrow> json option) \<Rightarrow> unit Client" where
  "static_netbox doc = NewClient (\<lambda>_. None)
     (\<lambda>req u. (Inr (case doc (ReqURL req) of
        Some j \<Rightarrow> \<lparr>StatusCode = 200, RespData = MarshalIndent j, RespBroken = False\<rparr>
      | None \<Rightarrow> \<lparr>StatusCode = 404, RespData = [], RespBroken = False\<rparr>), u)) ''http://nb/'' ''t''"

lemma Decode_MarshalIndent: "wf_json j \<Longrightarrow> Decode dest (MarshalIndent j) = dest j"
  using json_parse_MarshalIndent [of j "[]"]
  by (auto simp: json_parse_def Decode_def split: option.splits if_splits)

lemma static_simps [simp]:
  "baseURL (static_netbox doc) = ''http://nb''" "URLError (static_netbox doc) url = None"
proof -
  have "TrimRightp (\<lambda>ch. ch = CHR ''/'') ''http://nb/'' = ''http://nb''" by code_simp
  then show "baseURL (static_netbox doc) = ''http://nb''" by (simp add: static_netbox_def NewClient_def)
qed (simp add: static_netbox_def NewClient_def)

lemma get_static:
  "doc url = Some j \<Longrightarrow> wf_json j \<Longrightarrow> dest j = Some r \<Longrightarrow> get_http (static_netbox doc) dest url u = (Inr r, u)"
  "doc url = None \<Longrightarrow> \<exists>err. get_http (static_netbox doc) dest url u = (Inl err, u)"
  by (simp_all add: get_http_def static_netbox_def NewClient_def Decode_MarshalIndent)

definition page_json :: "json \<Rightarrow> json list \<Rightarrow> json" where
  "page_json nxt results = JObj [(''count'', JNum (Itoa (int (length results)))), (''next'', nxt), (''results'', JArr results)]"

lemma decode_page_json:
  "those (map elem js) = Some rs \<Longrightarrow> in_int64 (int (length js)) \<Longrightarrow>
     decode_page elem (page_json JNull js) = Some \<lparr>Count = int (length js), Next = None, Results = rs\<rparr>"
  "those (map elem js) = Some rs \<Longrightarrow> in_int64 (int (length js)) \<Longrightarrow>
     decode_page elem (page_json (JStr u) js) = Some \<lparr>Count = int (length js), Next = Some u, Results = rs\<rparr>"
  by (simp_all add: decode_page_def page_json_def decode_struct_def list_field_def EqualFold_def to_lower_def
      decode_ptr_def decode_string_def decode_array_def decode_int_def Atoi_Itoa)

lemma wf_page_json: "\<forall>j \<in> set js. wf_json j \<Longrightarrow> nxt = JNull \<or> (\<exists>u. nxt = JStr u \<and> valid_utf8 u) \<Longrightarrow> wf_json (page_json nxt js)"
  by (auto simp: page_json_def intro!: valid_utf8_ascii)

abbreviation circle :: "string \<Rightarrow> json option" where
  "circle url \<equiv> (if url = ''http://nb/api/ipam/ip-addresses/?nat_outside__isnull=false&limit=200''
     then Some (page_json (JStr url) []) else None)"

theorem fetch_ends_with_the_links_witness: "fetch_mappings (static_netbox circle) () = None"
proof -
  let ?u = "first_url (static_netbox circle)"
  have u: "?u = ''http://nb/api/ipam/ip-addresses/?nat_outside__isnull=false&limit=200''" by (simp add: first_url_def)
  have "batch_url (static_netbox circle) b \<noteq> ?u" for b by (simp add: batch_url_def first_url_def)
  then have "\<exists>err. get_http (static_netbox circle) (decode_page decode_vm) (batch_url (static_netbox circle) b) v = (Inl err, v)" for b v
    using get_static(2) [of circle "batch_url (static_netbox circle) b"] u by simp
  then have "ends (static_netbox circle) decode_vm (Suc 0) (batch_url (static_netbox circle) b) v" for b v
    unfolding ends.simps by (metis case_prod_conv sum.simps(5))
  then have vm: "\<exists>n. ends (static_netbox circle) decode_vm n (batch_url (static_netbox circle) b) v" for b v by blast
  have wf: "wf_json (page_json (JStr ?u) [])" unfolding u by (intro wf_page_json) (auto intro!: valid_utf8_ascii)
  have doc: "circle ?u = Some (page_json (JStr ?u) [])" using u by simp
  have "decode_page decode_ip (page_json (JStr ?u) []) = Some \<lparr>Count = 0, Next = Some ?u, Results = []\<rparr>"
    using decode_page_json(2) [of decode_ip "[]" "[]" ?u] by (simp add: in_int64_def)
  note page = get_static(1) [where doc = circle and dest = "decode_page decode_ip" and u = "()", OF doc wf this]
  have "?u \<noteq> []" unfolding u by simp
  then have "\<not> ends (static_netbox circle) decode_ip n ?u ()" for n
    by (induction n) (simp_all only: ends.simps page prod.case sum.case next_url_def listResponse.simps option.case simp_thms)
  then show ?thesis using fetch_ends_with_the_links [OF vm, of "()"] not_None_eq by blast
qed

lemma empty_pages:
  "get_http (static_netbox (\<lambda>_. Some (page_json JNull []))) (decode_page elem) url u =
     (Inr \<lparr>Count = 0, Next = None, Results = []\<rparr>, u)"
  using decode_page_json(1) [of elem "[]" "[]"]
  by (intro get_static(1) [OF refl]) (simp_all add: wf_page_json in_int64_def)

lemma empty_batches:
  "\<exists>vss l'. batch_chain (logging (static_netbox (\<lambda>_. Some (page_json JNull [])))) bs vss (l, ()) (l', ())"
proof (induction bs arbitrary: l)
  case (Cons b bs)
  let ?c = "static_netbox (\<lambda>_. Some (page_json JNull []))" and ?p = "\<lparr>Count = 0, Next = None, Results = []\<rparr>"
  have "batch_url ?c b \<noteq> []" by (simp add: batch_url_def)
  then have "chain (logging ?c) decode_vm (batch_url ?c b) [?p] (l, ()) (l @ [batch_url ?c b], ())"
    unfolding chain_logging [OF static_simps(2)] by (simp add: empty_pages next_url_def)
  moreover obtain vss l' where "batch_chain (logging ?c) bs vss (l @ [batch_url ?c b], ()) (l', ())" using Cons by blast
  ultimately have "batch_chain (logging ?c) (b # bs) (all_results [?p] # vss) (l, ()) (l', ())"
    unfolding batch_chain.simps logging_simps by blast
  then show ?case by blast
qed simp


theorem vmid_read_as_stored_witness:
  "proxmoxVMIDFromVM (Some \<lparr>NetboxID = 7, NetboxName = ''web'', CustomFields = Some [(''proxmox_vmid'', JNum (Itoa 101))]\<rparr>)
     = Some 101"
  using vmid_read_as_stored [of _ "[(''proxmox_vmid'', JNum (Itoa 101))]" 101] by simp

end
