(* ===== verification/Netbox_Webhook.thy ===== *)
theory Netbox_Webhook
  imports Netbox_Client
begin

text \<open>
  Registering this node's webhook in NetBox: the second half of \<open>internal/netbox/client.go\<close>
  with its types of \<open>types.go\<close>. A run that indexes the empty result list of a page whose
  count is not zero panics; it has no value.
\<close>

section \<open>Writing\<close>

text \<open>\<open>json.Marshal\<close>: the printer without white space.\<close>

fun compact :: "json \<Rightarrow> string"
  and compact_elems :: "json list \<Rightarrow> string"
  and compact_members :: "(string \<times> json) list \<Rightarrow> string" where
  "compact JNull = ''null''"
| "compact (JBool b) = (if b then ''true'' else ''false'')"
| "compact (JNum l) = l"
| "compact (JStr s) = quote s"
| "compact (JArr []) = ''[]''"
| "compact (JArr (x # xs)) = ''['' @ compact x @ compact_elems xs"
| "compact (JObj []) = ''{}''"
| "compact (JObj ((k, x) # ms)) = ''{'' @ quote k @ '':'' @ compact x @ compact_members ms"
| "compact_elems [] = '']''"
| "compact_elems (x # xs) = '','' @ compact x @ compact_elems xs"
| "compact_members [] = ''}''"
| "compact_members ((k, x) # ms) = '','' @ quote k @ '':'' @ compact x @ compact_members ms"

text \<open>The request and the status check of \<open>writeRequest\<close>, then the decoding if there is a
  destination.\<close>

definition writeRequest ::
  "'w Client \<Rightarrow> string \<Rightarrow> string \<Rightarrow> json \<Rightarrow> (json \<Rightarrow> 'r option) option \<Rightarrow> int \<Rightarrow> 'w \<Rightarrow> (gerror + 'r option) \<times> 'w" where
  "writeRequest c verb endpoint body dest expectStatus w =
     (case URLError c endpoint of
        Some err \<Rightarrow> (Inl (Wrapf (''creating '' @ verb @ '' request'') err), w)
      | None \<Rightarrow>
          (case Do c \<lparr>ReqVerb = verb, ReqURL = endpoint,
               ReqHeaders = [(''Authorization'', ''Token '' @ token c), (''Content-Type'', ''application/json''),
                             (''Accept'', ''application/json'')],
               ReqData = Some (compact body)\<rparr> w of
             (Inl err, w') \<Rightarrow> (Inl (Wrapf (''executing '' @ verb @ '' to '' @ endpoint) err), w')
           | (Inr resp, w') \<Rightarrow>
               if StatusCode resp \<noteq> expectStatus then
                 (Inl (Errorf (''netbox '' @ verb @ '' '' @ endpoint @ '' returned HTTP '' @ Itoa (StatusCode resp) @
                    '' (expected '' @ Itoa expectStatus @ ''): '' @ errorBody resp)), w')
               else case dest of
                 None \<Rightarrow> (Inr None, w')
               | Some target \<Rightarrow>
                   (case Decode target (RespData resp) of
                      None \<Rightarrow> (Inl (Wrapf (''decoding response from '' @ verb @ '' '' @ endpoint) (Errorf ''json'')), w')
                    | Some r \<Rightarrow> (Inr (Some r), w'))))"

definition post_http ::
  "'w Client \<Rightarrow> string \<Rightarrow> json \<Rightarrow> (json \<Rightarrow> 'r option) option \<Rightarrow> 'w \<Rightarrow> (gerror + 'r option) \<times> 'w" where
  "post_http c endpoint body dest = writeRequest c ''POST'' endpoint body dest 201"

definition patch_http ::
  "'w Client \<Rightarrow> string \<Rightarrow> json \<Rightarrow> (json \<Rightarrow> 'r option) option \<Rightarrow> 'w \<Rightarrow> (gerror + 'r option) \<times> 'w" where
  "patch_http c endpoint body dest = writeRequest c ''PATCH'' endpoint body dest 200"

section \<open>Webhook and event rule\<close>

record webhookObject =
  WOID :: int
  WOName :: string
  WOPayloadURL :: string
  WOBodyTemplate :: string
  WOMethod :: string
  WOContentType :: string
  WOSecret :: string

record webhookRequest =
  WRName :: string
  WRPayloadURL :: string
  WRMethod :: string
  WRContentType :: string
  WRBodyTemplate :: string
  WRSecret :: string

record eventRuleObject =
  ROID :: int
  ROName :: string
  ROEnabled :: bool
  ROObjectTypes :: "string list"
  ROEventTypes :: "string list"
  ROActionObjectID :: "int option"

record eventRuleRequest =
  RRName :: string
  RRObjectTypes :: "string list"
  RREventTypes :: "string list"
  RRActionType :: string
  RRActionObjectType :: string
  RRActionObjectID :: int
  RREnabled :: bool

definition webhook_field :: "string \<times> json \<Rightarrow> webhookObject \<Rightarrow> webhookObject option" where
  "webhook_field kj ob =
     (case kj of (k, j) \<Rightarrow>
        if EqualFold k ''id'' then map_option (\<lambda>i. ob\<lparr>WOID := i\<rparr>) (decode_int j (WOID ob))
        else if EqualFold k ''name'' then map_option (\<lambda>s. ob\<lparr>WOName := s\<rparr>) (decode_string j (WOName ob))
        else if EqualFold k ''payload_url'' then
          map_option (\<lambda>s. ob\<lparr>WOPayloadURL := s\<rparr>) (decode_string j (WOPayloadURL ob))
        else if EqualFold k ''body_template'' then
          map_option (\<lambda>s. ob\<lparr>WOBodyTemplate := s\<rparr>) (decode_string j (WOBodyTemplate ob))
        else if EqualFold k ''http_method'' then
          map_option (\<lambda>s. ob\<lparr>WOMethod := s\<rparr>) (decode_string j (WOMethod ob))
        else if EqualFold k ''http_content_type'' then
          map_option (\<lambda>s. ob\<lparr>WOContentType := s\<rparr>) (decode_string j (WOContentType ob))
        else if EqualFold k ''secret'' then map_option (\<lambda>s. ob\<lparr>WOSecret := s\<rparr>) (decode_string j (WOSecret ob))
        else Some ob)"

definition decode_webhook :: "json \<Rightarrow> webhookObject option" where
  "decode_webhook = decode_struct webhook_field
     \<lparr>WOID = 0, WOName = [], WOPayloadURL = [], WOBodyTemplate = [], WOMethod = [], WOContentType = [], WOSecret = []\<rparr>"

text \<open>An item of \<open>lenientStrings\<close> is a string, an object with a value, or a content type.\<close>

definition lenient_field :: "string \<times> json \<Rightarrow> string \<times> string \<times> string \<Rightarrow> (string \<times> string \<times> string) option" where
  "lenient_field kj ob =
     (case kj of (k, j) \<Rightarrow> case ob of (v, a, m) \<Rightarrow>
        if EqualFold k ''value'' then map_option (\<lambda>s. (s, a, m)) (decode_string j v)
        else if EqualFold k ''app_label'' then map_option (\<lambda>s. (v, s, m)) (decode_string j a)
        else if EqualFold k ''model'' then map_option (\<lambda>s. (v, a, s)) (decode_string j m)
        else Some ob)"

definition lenient_item :: "json \<Rightarrow> string option" where
  "lenient_item j =
     (case decode_string j [] of
        Some str \<Rightarrow> Some str
      | None \<Rightarrow>
          (case decode_struct lenient_field ([], [], []) j of
             None \<Rightarrow> None
           | Some (v, a, m) \<Rightarrow>
               if v \<noteq> [] then Some v
               else if a \<noteq> [] \<and> m \<noteq> [] then Some (a @ ''.'' @ m)
               else None))"

definition lenientStrings :: "json \<Rightarrow> string list" where
  "lenientStrings j = (case j of JArr items \<Rightarrow> List.map_filter lenient_item items | _ \<Rightarrow> [])"

definition decode_bool :: "json \<Rightarrow> bool \<Rightarrow> bool option" where
  "decode_bool j old = (case j of JNull \<Rightarrow> Some old | JBool b \<Rightarrow> Some b | _ \<Rightarrow> None)"

definition rule_field :: "string \<times> json \<Rightarrow> eventRuleObject \<Rightarrow> eventRuleObject option" where
  "rule_field kj ob =
     (case kj of (k, j) \<Rightarrow>
        if EqualFold k ''id'' then map_option (\<lambda>i. ob\<lparr>ROID := i\<rparr>) (decode_int j (ROID ob))
        else if EqualFold k ''name'' then map_option (\<lambda>s. ob\<lparr>ROName := s\<rparr>) (decode_string j (ROName ob))
        else if EqualFold k ''enabled'' then map_option (\<lambda>b. ob\<lparr>ROEnabled := b\<rparr>) (decode_bool j (ROEnabled ob))
        else if EqualFold k ''object_types'' then Some (ob\<lparr>ROObjectTypes := lenientStrings j\<rparr>)
        else if EqualFold k ''event_types'' then Some (ob\<lparr>ROEventTypes := lenientStrings j\<rparr>)
        else if EqualFold k ''action_object_id'' then
          map_option (\<lambda>i. ob\<lparr>ROActionObjectID := i\<rparr>) (decode_ptr 0 decode_int j)
        else Some ob)"

definition decode_rule :: "json \<Rightarrow> eventRuleObject option" where
  "decode_rule = decode_struct rule_field
     \<lparr>ROID = 0, ROName = [], ROEnabled = False, ROObjectTypes = [], ROEventTypes = [], ROActionObjectID = None\<rparr>"

text \<open>The two list responses have a count and results, but no \<open>next\<close> field.\<close>

definition short_list_field :: "(json \<Rightarrow> 'a option) \<Rightarrow> string \<times> json \<Rightarrow> int \<times> 'a list \<Rightarrow> (int \<times> 'a list) option" where
  "short_list_field elem kj l =
     (case kj of (k, j) \<Rightarrow> case l of (n, rs) \<Rightarrow>
        if EqualFold k ''count'' then map_option (\<lambda>i. (i, rs)) (decode_int j n)
        else if EqualFold k ''results'' then map_option (\<lambda>rs. (n, rs)) (decode_array elem j)
        else Some l)"

definition decode_webhook_list :: "json \<Rightarrow> (int \<times> webhookObject list) option" where
  "decode_webhook_list = decode_struct (short_list_field decode_webhook) (0, [])"

definition decode_rule_list :: "json \<Rightarrow> (int \<times> eventRuleObject list) option" where
  "decode_rule_list = decode_struct (short_list_field decode_rule) (0, [])"

definition webhookRequest_json :: "webhookRequest \<Rightarrow> json" where
  "webhookRequest_json r = JObj
     ([(''name'', JStr (WRName r)), (''payload_url'', JStr (WRPayloadURL r)), (''http_method'', JStr (WRMethod r)),
       (''http_content_type'', JStr (WRContentType r)), (''body_template'', JStr (WRBodyTemplate r))] @
      (if WRSecret r = [] then [] else [(''secret'', JStr (WRSecret r))]))"

definition eventRuleRequest_json :: "eventRuleRequest \<Rightarrow> json" where
  "eventRuleRequest_json r = JObj
     [(''name'', JStr (RRName r)), (''object_types'', JArr (map JStr (RRObjectTypes r))),
      (''event_types'', JArr (map JStr (RREventTypes r))), (''action_type'', JStr (RRActionType r)),
      (''action_object_type'', JStr (RRActionObjectType r)),
      (''action_object_id'', JNum (Itoa (RRActionObjectID r))), (''enabled'', JBool (RREnabled r))]"

definition managedObjectTypes :: "string list" where
  "managedObjectTypes = [''ipam.ipaddress'', ''virtualization.virtualmachine'', ''virtualization.vminterface'']"

definition managedEventTypes :: "string list" where
  "managedEventTypes = [''object_created'', ''object_updated'', ''object_deleted'']"

definition quotes2 :: string where "quotes2 = [CHR 0x27, CHR 0x27]"

definition webhookBodyTemplate :: string where
  \<open>webhookBodyTemplate =
     ''{"event":"{{ event }}","model":"{{ object_type.split('.')[-1] }}","object_type":"{{ object_type'' @
     '' }}","request_id":{% if request and request.id %}"{{ request.id }}"{% elif request_id %}"{{ req'' @
     ''uest_id }}"{% else %}null{% endif %},"data":{"url":"{{ data.url }}","vm_name":"{% if data.assig'' @
     ''ned_object and data.assigned_object.virtual_machine %}{{ data.assigned_object.virtual_machine.n'' @
     ''ame }}{% else %}{{ data.name | default('' @
     quotes2 @
     '', true) }}{% endif %}","vm_netbox_id":{% if data.assigned_object and data.assigned_object.virtu'' @
     ''al_machine %}{{ data.assigned_object.virtual_machine.id }}{% elif object_type == "virtualizatio'' @
     ''n.virtualmachine" %}{{ data.id }}{% else %}null{% endif %},"vm_proxmox_vmid":{% if object_type '' @
     ''== "virtualization.virtualmachine" and data.custom_fields and data.custom_fields.proxmox_vmid i'' @
     ''s not none %}{{ data.custom_fields.proxmox_vmid }}{% elif data.assigned_object and data.assigne'' @
     ''d_object.virtual_machine and data.assigned_object.virtual_machine.custom_fields and data.assign'' @
     ''ed_object.virtual_machine.custom_fields.proxmox_vmid is not none %}{{ data.assigned_object.virt'' @
     ''ual_machine.custom_fields.proxmox_vmid }}{% else %}null{% endif %},"internal_ip":"{{ data.addre'' @
     ''ss | default('' @
     quotes2 @
     '', true) }}","primary_ip":"{% if data.primary_ip4 and data.primary_ip4.address %}{{ data.primary'' @
     ''_ip4.address }}{% elif data.primary_ip and data.primary_ip.address %}{{ data.primary_ip.address'' @
     '' }}{% else %}{% endif %}","nat_outside":[{% if data.nat_outside %}{% for nat in data.nat_outsid'' @
     ''e %}"{{ nat.address }}"{% if not loop.last %},{% endif %}{% endfor %}{% endif %}]}}''\<close>

section \<open>Comparing and ensuring\<close>

definition webhookNeedsUpdate :: "webhookObject \<Rightarrow> webhookRequest \<Rightarrow> bool" where
  "webhookNeedsUpdate existing want \<longleftrightarrow>
     WOPayloadURL existing \<noteq> WRPayloadURL want \<or>
     WOBodyTemplate existing \<noteq> WRBodyTemplate want \<or>
     WOMethod existing \<noteq> [] \<and> \<not> EqualFold (WOMethod existing) (WRMethod want) \<or>
     WOContentType existing \<noteq> [] \<and> WOContentType existing \<noteq> WRContentType want \<or>
     WRSecret want \<noteq> [] \<and> WOSecret existing \<noteq> WRSecret want"

definition coversAll :: "string list \<Rightarrow> string list \<Rightarrow> bool" where
  "coversAll have want \<longleftrightarrow> list_all (\<lambda>v. v \<in> set have) want"

definition eventRuleNeedsUpdate :: "eventRuleObject \<Rightarrow> eventRuleRequest \<Rightarrow> bool" where
  "eventRuleNeedsUpdate existing want \<longleftrightarrow>
     (if ROActionObjectID existing \<noteq> Some (RRActionObjectID want) then True
      else if \<not> ROEnabled existing then True
      else \<not> coversAll (ROObjectTypes existing) (RRObjectTypes want) \<or>
           \<not> coversAll (ROEventTypes existing) (RREventTypes want))"

definition quoted :: "string \<Rightarrow> string" where "quoted s = CHR 0x22 # s @ [CHR 0x22]"

definition webhooks_url :: "'w Client \<Rightarrow> string" where
  "webhooks_url c = baseURL c @ ''/api/extras/webhooks/''"

definition rules_url :: "'w Client \<Rightarrow> string" where
  "rules_url c = baseURL c @ ''/api/extras/event-rules/''"

definition by_name :: "string \<Rightarrow> string \<Rightarrow> string" where
  "by_name url name = url @ ''?name='' @ QueryEscape name @ ''&limit=1''"

definition webhook_want :: "string \<Rightarrow> string \<Rightarrow> string \<Rightarrow> webhookRequest" where
  "webhook_want name payloadURL secret =
     \<lparr>WRName = name, WRPayloadURL = payloadURL, WRMethod = ''POST'', WRContentType = ''application/json'',
      WRBodyTemplate = webhookBodyTemplate, WRSecret = secret\<rparr>"

definition rule_want :: "string \<Rightarrow> int \<Rightarrow> eventRuleRequest" where
  "rule_want name webhookID =
     \<lparr>RRName = name, RRObjectTypes = managedObjectTypes, RREventTypes = managedEventTypes,
      RRActionType = ''webhook'', RRActionObjectType = ''extras.webhook'', RRActionObjectID = webhookID,
      RREnabled = True\<rparr>"

definition ensureWebhookEndpoint ::
  "'w Client \<Rightarrow> string \<Rightarrow> string \<Rightarrow> string \<Rightarrow> 'w \<Rightarrow> ((gerror + int) \<times> 'w) option" where
  "ensureWebhookEndpoint c name payloadURL secret w =
     (case get_http c decode_webhook_list (by_name (webhooks_url c) name) w of
        (Inl err, w1) \<Rightarrow> Some (Inl (Wrapf ''listing webhooks'' err), w1)
      | (Inr (n, results), w1) \<Rightarrow>
          (let body = webhook_want name payloadURL secret in
           if n = 0 then
             (case post_http c (webhooks_url c) (webhookRequest_json body) (Some decode_webhook) w1 of
                (Inl err, w2) \<Rightarrow> Some (Inl (Wrapf (''creating webhook '' @ quoted name) err), w2)
              | (Inr created, w2) \<Rightarrow> Some (Inr (case created of Some ob \<Rightarrow> WOID ob | None \<Rightarrow> 0), w2))
           else case results of
             [] \<Rightarrow> None
           | existing # _ \<Rightarrow>
               if \<not> webhookNeedsUpdate existing body then Some (Inr (WOID existing), w1)
               else (case patch_http c (webhooks_url c @ Itoa (WOID existing) @ ''/'') (webhookRequest_json body)
                            (Some decode_webhook) w1 of
                       (Inl err, w2) \<Rightarrow> Some (Inl (Wrapf (''updating webhook '' @ quoted name @ '' (id='' @
                          Itoa (WOID existing) @ '')'') err), w2)
                     | (Inr updated, w2) \<Rightarrow> Some (Inr (WOID existing), w2))))"

definition no_dest :: "(json \<Rightarrow> unit option) option" where "no_dest = None"

definition ensureEventRule ::
  "'w Client \<Rightarrow> string \<Rightarrow> int \<Rightarrow> 'w \<Rightarrow> (gerror option \<times> 'w) option" where
  "ensureEventRule c name webhookID w =
     (case get_http c decode_rule_list (by_name (rules_url c) name) w of
        (Inl err, w1) \<Rightarrow> Some (Some (Wrapf ''listing event rules'' err), w1)
      | (Inr (n, results), w1) \<Rightarrow>
          (let body = rule_want name webhookID in
           if n = 0 then
             (case post_http c (rules_url c) (eventRuleRequest_json body) no_dest w1 of
                (Inl err, w2) \<Rightarrow> Some (Some (Wrapf (''creating event rule '' @ quoted name) err), w2)
              | (Inr _, w2) \<Rightarrow> Some (None, w2))
           else case results of
             [] \<Rightarrow> None
           | existing # _ \<Rightarrow>
               if \<not> eventRuleNeedsUpdate existing body then Some (None, w1)
               else (case patch_http c (rules_url c @ Itoa (ROID existing) @ ''/'') (eventRuleRequest_json body) no_dest w1 of
                       (Inl err, w2) \<Rightarrow> Some (Some (Wrapf (''updating event rule '' @ quoted name @ '' (id='' @
                          Itoa (ROID existing) @ '')'') err), w2)
                     | (Inr _, w2) \<Rightarrow> Some (None, w2))))"

definition EnsureWebhook ::
  "'w Client \<Rightarrow> string \<Rightarrow> string \<Rightarrow> string \<Rightarrow> 'w \<Rightarrow> (gerror option \<times> 'w) option" where
  "EnsureWebhook c name payloadURL secret w =
     (case ensureWebhookEndpoint c name payloadURL secret w of
        None \<Rightarrow> None
      | Some (Inl err, w1) \<Rightarrow> Some (Some err, w1)
      | Some (Inr webhookID, w1) \<Rightarrow> ensureEventRule c name webhookID w1)"

section \<open>What NetBox is relied on for\<close>

text \<open>
  The webhook and the event rule of this name, as NetBox holds them: \<open>hook\<close> and \<open>rule\<close> of
  the state of the world. Reads change neither and show them; a write that is answered with
  success has taken effect on the one object it is addressed to.
\<close>

definition hook_stored :: "webhookRequest \<Rightarrow> webhookObject \<Rightarrow> bool" where
  "hook_stored body ob \<longleftrightarrow> WOPayloadURL ob = WRPayloadURL body \<and> WOBodyTemplate ob = WRBodyTemplate body \<and>
     WOMethod ob = WRMethod body \<and> WOContentType ob = WRContentType body \<and>
     (WRSecret body \<noteq> [] \<longrightarrow> WOSecret ob = WRSecret body)"

definition rule_stored :: "eventRuleRequest \<Rightarrow> eventRuleObject \<Rightarrow> bool" where
  "rule_stored body ob \<longleftrightarrow> ROEnabled ob = RREnabled body \<and> ROActionObjectID ob = Some (RRActionObjectID body) \<and>
     set (ROObjectTypes ob) = set (RRObjectTypes body) \<and> set (ROEventTypes ob) = set (RREventTypes body)"

definition listing_of :: "'a option \<Rightarrow> int \<times> 'a list" where
  "listing_of x = (case x of None \<Rightarrow> (0, []) | Some ob \<Rightarrow> (1, [ob]))"

definition netbox_reads ::
  "'w Client \<Rightarrow> string \<Rightarrow> ('w \<Rightarrow> webhookObject option) \<Rightarrow> ('w \<Rightarrow> eventRuleObject option) \<Rightarrow> bool" where
  "netbox_reads c name hook rule \<longleftrightarrow>
     (\<forall>w res w'. get_http c decode_webhook_list (by_name (webhooks_url c) name) w = (res, w') \<longrightarrow>
        hook w' = hook w \<and> rule w' = rule w \<and> (\<forall>l. res = Inr l \<longrightarrow> l = listing_of (hook w))) \<and>
     (\<forall>w res w'. get_http c decode_rule_list (by_name (rules_url c) name) w = (res, w') \<longrightarrow>
        hook w' = hook w \<and> rule w' = rule w \<and> (\<forall>l. res = Inr l \<longrightarrow> l = listing_of (rule w)))"

definition netbox_writes ::
  "'w Client \<Rightarrow> webhookRequest \<Rightarrow> ('w \<Rightarrow> webhookObject option) \<Rightarrow> ('w \<Rightarrow> eventRuleObject option) \<Rightarrow> bool" where
  "netbox_writes c body hook rule \<longleftrightarrow>
     (\<forall>w created w'. hook w = None \<longrightarrow>
        post_http c (webhooks_url c) (webhookRequest_json body) (Some decode_webhook) w = (Inr created, w') \<longrightarrow>
        rule w' = rule w \<and> (\<exists>ob. created = Some ob \<and> hook w' = Some ob \<and> hook_stored body ob)) \<and>
     (\<forall>w ob updated w'. hook w = Some ob \<longrightarrow>
        patch_http c (webhooks_url c @ Itoa (WOID ob) @ ''/'') (webhookRequest_json body) (Some decode_webhook) w
          = (Inr updated, w') \<longrightarrow>
        rule w' = rule w \<and> (\<exists>ob'. hook w' = Some ob' \<and> WOID ob' = WOID ob \<and> hook_stored body ob')) \<and>
     (\<forall>w ob r w'. hook w = Some ob \<longrightarrow> rule w = None \<longrightarrow>
        post_http c (rules_url c) (eventRuleRequest_json (rule_want (WRName body) (WOID ob))) no_dest w = (Inr r, w') \<longrightarrow>
        hook w' = hook w \<and> (\<exists>ru. rule w' = Some ru \<and> rule_stored (rule_want (WRName body) (WOID ob)) ru)) \<and>
     (\<forall>w ob ru r w'. hook w = Some ob \<longrightarrow> rule w = Some ru \<longrightarrow>
        patch_http c (rules_url c @ Itoa (ROID ru) @ ''/'') (eventRuleRequest_json (rule_want (WRName body) (WOID ob))) no_dest w
          = (Inr r, w') \<longrightarrow>
        hook w' = hook w \<and> (\<exists>ru'. rule w' = Some ru' \<and> rule_stored (rule_want (WRName body) (WOID ob)) ru'))"

lemma hook_stored_fine: "hook_stored body ob \<Longrightarrow> \<not> webhookNeedsUpdate ob body"
  by (auto simp: hook_stored_def webhookNeedsUpdate_def)

lemma rule_stored_fine: "rule_stored (rule_want name i) ru \<Longrightarrow> \<not> eventRuleNeedsUpdate ru (rule_want name i)"
  by (simp add: rule_stored_def eventRuleNeedsUpdate_def coversAll_def rule_want_def list_all_iff)

lemma listing_cases:
  "listing_of x = (n, results) \<Longrightarrow> (n = 0 \<longleftrightarrow> x = None) \<and> (\<forall>ob. x = Some ob \<longrightarrow> results = [ob])"
  by (auto simp: listing_of_def split: option.splits)

lemma ensure_hook:
  assumes "netbox_reads c name hook rule" and "netbox_writes c (webhook_want name url secret) hook rule"
    and "ensureWebhookEndpoint c name url secret w = Some (Inr i, w')"
  shows "\<exists>ob. hook w' = Some ob \<and> WOID ob = i \<and> \<not> webhookNeedsUpdate ob (webhook_want name url secret) \<and> rule w' = rule w"
proof -
  let ?body = "webhook_want name url secret"
  obtain n results w1 where get: "get_http c decode_webhook_list (by_name (webhooks_url c) name) w = (Inr (n, results), w1)"
    using assms(3) by (auto simp: ensureWebhookEndpoint_def split: prod.splits sum.splits)
  have v: "hook w1 = hook w" "rule w1 = rule w" "listing_of (hook w) = (n, results)"
    using assms(1) get unfolding netbox_reads_def by metis+
  show ?thesis
  proof (cases "hook w")
    case None
    then have "n = 0" using listing_cases [OF v(3)] by simp
    then obtain created where p: "post_http c (webhooks_url c) (webhookRequest_json ?body) (Some decode_webhook) w1 = (Inr created, w')"
      and i: "i = (case created of Some ob \<Rightarrow> WOID ob | None \<Rightarrow> 0)"
      using assms(3) get by (auto simp: ensureWebhookEndpoint_def Let_def split: prod.splits sum.splits)
    have "hook w1 = None" using None v by simp
    with p obtain ob where "rule w' = rule w1" "created = Some ob" "hook w' = Some ob" "hook_stored ?body ob"
      using assms(2) unfolding netbox_writes_def by blast
    then show ?thesis using i v hook_stored_fine by auto
  next
    case (Some ob)
    then have n: "n \<noteq> 0" "results = [ob]" using listing_cases [OF v(3)] by auto
    show ?thesis
    proof (cases "webhookNeedsUpdate ob ?body")
      case False
      then show ?thesis using assms(3) get n v Some by (auto simp: ensureWebhookEndpoint_def Let_def)
    next
      case True
      then obtain updated where p: "patch_http c (webhooks_url c @ Itoa (WOID ob) @ ''/'') (webhookRequest_json ?body)
          (Some decode_webhook) w1 = (Inr updated, w')" and i: "i = WOID ob"
        using assms(3) get n by (auto simp: ensureWebhookEndpoint_def Let_def split: prod.splits sum.splits)
      have "hook w1 = Some ob" using Some v by simp
      with p obtain ob' where "rule w' = rule w1" "hook w' = Some ob'" "WOID ob' = WOID ob" "hook_stored ?body ob'"
        using assms(2) unfolding netbox_writes_def by blast
      then show ?thesis using i v hook_stored_fine by auto
    qed
  qed
qed

lemma ensure_rule:
  assumes "netbox_reads c name hook rule" and "netbox_writes c (webhook_want name url secret) hook rule"
    and "ensureEventRule c name i w = Some (None, w')" and "hook w = Some ob" and "i = WOID ob"
  shows "\<exists>ru. rule w' = Some ru \<and> \<not> eventRuleNeedsUpdate ru (rule_want name i) \<and> hook w' = hook w"
proof -
  let ?body = "rule_want name i"
  have nm: "WRName (webhook_want name url secret) = name" by (simp add: webhook_want_def)
  obtain n results w1 where get: "get_http c decode_rule_list (by_name (rules_url c) name) w = (Inr (n, results), w1)"
    using assms(3) by (auto simp: ensureEventRule_def split: prod.splits sum.splits)
  have v: "hook w1 = hook w" "rule w1 = rule w" "listing_of (rule w) = (n, results)"
    using assms(1) get unfolding netbox_reads_def by metis+
  have h: "hook w1 = Some ob" using assms(4) v by simp
  show ?thesis
  proof (cases "rule w")
    case None
    then have "n = 0" using listing_cases [OF v(3)] by simp
    then obtain r where p: "post_http c (rules_url c) (eventRuleRequest_json ?body) no_dest w1 = (Inr r, w')"
      using assms(3) get by (auto simp: ensureEventRule_def Let_def split: prod.splits sum.splits)
    have "rule w1 = None" using None v by simp
    with p obtain ru where "hook w' = hook w1" "rule w' = Some ru" "rule_stored ?body ru"
      using assms(2,5) h unfolding netbox_writes_def nm by blast
    then show ?thesis using v rule_stored_fine by auto
  next
    case (Some ru)
    then have n: "n \<noteq> 0" "results = [ru]" using listing_cases [OF v(3)] by auto
    show ?thesis
    proof (cases "eventRuleNeedsUpdate ru ?body")
      case False
      then show ?thesis using assms(3) get n v Some by (auto simp: ensureEventRule_def Let_def)
    next
      case True
      then obtain r where p: "patch_http c (rules_url c @ Itoa (ROID ru) @ ''/'') (eventRuleRequest_json ?body) no_dest w1 = (Inr r, w')"
        using assms(3) get n by (auto simp: ensureEventRule_def Let_def split: prod.splits sum.splits)
      have "rule w1 = Some ru" using Some v by simp
      with p obtain ru' where "hook w' = hook w1" "rule w' = Some ru'" "rule_stored ?body ru'"
        using assms(2,5) h unfolding netbox_writes_def nm by blast
      then show ?thesis using v rule_stored_fine by auto
    qed
  qed
qed

lemma get_http_logging_any:
  "get_http (logging c) dest url (l, w) =
     (case get_http c dest url w of (res, w') \<Rightarrow> (res, (l @ (if URLError c url = None then [url] else []), w')))"
proof (cases "URLError c url")
  case None
  then show ?thesis by (simp add: get_http_logging)
qed (simp add: get_http_def)

lemma ensure_quiet:
  assumes "netbox_reads c name hook rule"
    and "hook w = Some ob" and "\<not> webhookNeedsUpdate ob (webhook_want name url secret)"
    and "rule w = Some ru" and "\<not> eventRuleNeedsUpdate ru (rule_want name (WOID ob))"
  shows "\<exists>err l' w'. EnsureWebhook (logging c) name url secret (l, w) = Some (err, l', w') \<and>
    hook w' = hook w \<and> rule w' = rule w \<and>
    set l' \<subseteq> set l \<union> {by_name (webhooks_url c) name, by_name (rules_url c) name}"
proof -
  let ?wu = "by_name (webhooks_url c) name" and ?ru = "by_name (rules_url c) name"
  have urls: "webhooks_url (logging c) = webhooks_url c" "rules_url (logging c) = rules_url c"
    by (simp_all add: webhooks_url_def rules_url_def)
  obtain res w1 where g: "get_http c decode_webhook_list ?wu w = (res, w1)" by fastforce
  then have v: "hook w1 = hook w" "rule w1 = rule w" "\<forall>l. res = Inr l \<longrightarrow> l = listing_of (hook w)"
    using assms(1) unfolding netbox_reads_def by metis+
  let ?l1 = "l @ (if URLError c ?wu = None then [?wu] else [])"
  have G: "get_http (logging c) decode_webhook_list ?wu (l, w) = (res, (?l1, w1))"
    by (simp add: get_http_logging_any g)
  show ?thesis
  proof (cases res)
    case (Inl err)
    then have "EnsureWebhook (logging c) name url secret (l, w) = Some (Some (Wrapf ''listing webhooks'' err), ?l1, w1)"
      by (simp add: EnsureWebhook_def ensureWebhookEndpoint_def urls G)
    then show ?thesis using v by force
  next
    case (Inr lst)
    then have lst: "lst = (1, [ob])" using v(3) assms(2) by (simp add: listing_of_def)
    have E: "ensureWebhookEndpoint (logging c) name url secret (l, w) = Some (Inr (WOID ob), ?l1, w1)"
      using assms(3) by (simp add: ensureWebhookEndpoint_def urls G Inr lst Let_def)
    obtain res2 w2 where g2: "get_http c decode_rule_list ?ru w1 = (res2, w2)" by fastforce
    then have v2: "hook w2 = hook w1" "rule w2 = rule w1" "\<forall>l. res2 = Inr l \<longrightarrow> l = listing_of (rule w1)"
      using assms(1) unfolding netbox_reads_def by metis+
    let ?l2 = "?l1 @ (if URLError c ?ru = None then [?ru] else [])"
    have G2: "get_http (logging c) decode_rule_list ?ru (?l1, w1) = (res2, (?l2, w2))"
      by (simp add: get_http_logging_any g2)
    have "\<exists>err. EnsureWebhook (logging c) name url secret (l, w) = Some (err, ?l2, w2)"
    proof (cases res2)
      case (Inl err)
      then show ?thesis by (simp add: EnsureWebhook_def E ensureEventRule_def urls G2)
    next
      case (Inr lst2)
      then have "lst2 = (1, [ru])" using v2(3) v(2) assms(4) by (simp add: listing_of_def)
      then show ?thesis using assms(5) Inr by (simp add: EnsureWebhook_def E ensureEventRule_def urls G2 Let_def)
    qed
    then show ?thesis using v v2 by force
  qed
qed

definition delivering ::
  "('w \<Rightarrow> webhookObject option) \<Rightarrow> ('w \<Rightarrow> eventRuleObject option) \<Rightarrow> string \<Rightarrow> string \<Rightarrow> 'w \<Rightarrow> bool" where
  "delivering hook rule url secret w \<longleftrightarrow>
     (\<exists>ob ru. hook w = Some ob \<and> WOPayloadURL ob = url \<and> WOBodyTemplate ob = webhookBodyTemplate \<and>
        (secret \<noteq> [] \<longrightarrow> WOSecret ob = secret) \<and>
        rule w = Some ru \<and> ROEnabled ru \<and> ROActionObjectID ru = Some (WOID ob) \<and>
        set managedObjectTypes \<subseteq> set (ROObjectTypes ru) \<and> set managedEventTypes \<subseteq> set (ROEventTypes ru))"

lemma ensure_settles:
  assumes "netbox_reads c name hook rule" and "netbox_writes c (webhook_want name url secret) hook rule"
    and "EnsureWebhook c name url secret w = Some (None, w')"
  shows "delivering hook rule url secret w'"
    and "\<exists>err l w2. EnsureWebhook (logging c) name url secret ([], w') = Some (err, l, w2) \<and>
      hook w2 = hook w' \<and> rule w2 = rule w' \<and>
      set l \<subseteq> {by_name (webhooks_url c) name, by_name (rules_url c) name}"
proof -
  obtain i w1 where 1: "ensureWebhookEndpoint c name url secret w = Some (Inr i, w1)"
    and 2: "ensureEventRule c name i w1 = Some (None, w')"
    using assms(3) by (auto simp: EnsureWebhook_def split: option.splits prod.splits sum.splits)
  obtain ob where ob: "hook w1 = Some ob" "WOID ob = i" "\<not> webhookNeedsUpdate ob (webhook_want name url secret)"
    using ensure_hook [OF assms(1,2) 1] by blast
  obtain ru where ru: "rule w' = Some ru" "\<not> eventRuleNeedsUpdate ru (rule_want name i)" "hook w' = hook w1"
    using ensure_rule [OF assms(1,2) 2 ob(1)] ob(2) by blast
  have h: "hook w' = Some ob" using ru ob by simp
  have "WOPayloadURL ob = url \<and> WOBodyTemplate ob = webhookBodyTemplate \<and> (secret \<noteq> [] \<longrightarrow> WOSecret ob = secret)"
    using ob(3) by (auto simp: webhookNeedsUpdate_def webhook_want_def)
  moreover have "ROEnabled ru \<and> ROActionObjectID ru = Some (WOID ob) \<and>
      set managedObjectTypes \<subseteq> set (ROObjectTypes ru) \<and> set managedEventTypes \<subseteq> set (ROEventTypes ru)"
    using ru(2) ob(2) by (auto simp: eventRuleNeedsUpdate_def coversAll_def rule_want_def list_all_iff split: if_splits)
  ultimately show "delivering hook rule url secret w'" unfolding delivering_def using h ru(1) by blast
  have "\<not> eventRuleNeedsUpdate ru (rule_want name (WOID ob))" using ru(2) ob(2) by simp
  from ensure_quiet [OF assms(1) h ob(3) ru(1) this, of "[]"]
  show "\<exists>err l w2. EnsureWebhook (logging c) name url secret ([], w') = Some (err, l, w2) \<and>
      hook w2 = hook w' \<and> rule w2 = rule w' \<and>
      set l \<subseteq> {by_name (webhooks_url c) name, by_name (rules_url c) name}" by auto
qed

section \<open>Properties\<close>

text \<open>
  C32: Registration converges and then stays quiet. When \<open>EnsureWebhook\<close> reports success,
  NetBox holds a webhook with this node's URL, the template and the configured secret, and an
  enabled event rule that points to it and covers every managed object and event type. A
  further run neither panics nor changes anything: it sends nothing but the two list queries.
\<close>

theorem registration_converges:
  assumes "netbox_reads c name hook rule" and "netbox_writes c (webhook_want name url secret) hook rule"
    and "EnsureWebhook c name url secret w = Some (None, w')"
  shows "delivering hook rule url secret w' \<and>
    (\<exists>err l w2. EnsureWebhook (logging c) name url secret ([], w') = Some (err, l, w2) \<and>
      hook w2 = hook w' \<and> rule w2 = rule w' \<and>
      set l \<subseteq> {by_name (webhooks_url c) name, by_name (rules_url c) name})"
  using ensure_settles [OF assms] by blast

text \<open>
  Every shape in which NetBox has listed types reads as the same strings.
\<close>

lemma lenient_shapes:
  "lenientStrings (JArr (map JStr ss)) = ss"
  "[] \<notin> set ss \<Longrightarrow> lenientStrings (JArr (map (\<lambda>s. JObj [(''value'', JStr s)]) ss)) = ss"
  "list_all (\<lambda>(a, m). a \<noteq> [] \<and> m \<noteq> []) cts \<Longrightarrow>
     lenientStrings (JArr (map (\<lambda>(a, m). JObj [(''app_label'', JStr a), (''model'', JStr m)]) cts)) =
       map (\<lambda>(a, m). a @ ''.'' @ m) cts"
proof -
  show "lenientStrings (JArr (map JStr ss)) = ss"
    by (induction ss) (simp_all add: lenientStrings_def lenient_item_def decode_string_def)
  show "[] \<notin> set ss \<Longrightarrow> lenientStrings (JArr (map (\<lambda>s. JObj [(''value'', JStr s)]) ss)) = ss"
    by (induction ss) (auto simp: lenientStrings_def lenient_item_def decode_string_def decode_struct_def
        lenient_field_def EqualFold_def to_lower_def)
  show "list_all (\<lambda>(a, m). a \<noteq> [] \<and> m \<noteq> []) cts \<Longrightarrow>
     lenientStrings (JArr (map (\<lambda>(a, m). JObj [(''app_label'', JStr a), (''model'', JStr m)]) cts)) =
       map (\<lambda>(a, m). a @ ''.'' @ m) cts"
    by (induction cts) (auto simp: lenientStrings_def lenient_item_def decode_string_def decode_struct_def
        lenient_field_def EqualFold_def to_lower_def)
qed

text \<open>A page that counts a webhook but lists none makes the registration panic.\<close>

lemma empty_page_panics:
  "get_http c decode_webhook_list (by_name (webhooks_url c) name) w = (Inr (n, []), w') \<Longrightarrow> n \<noteq> 0 \<Longrightarrow>
     EnsureWebhook c name url secret w = None"
  by (simp add: EnsureWebhook_def ensureWebhookEndpoint_def Let_def)

section \<open>Witnesses\<close>

text \<open>
  A NetBox whose state is whether it holds the webhook and the event rule; what it stores is
  as it was asked to. It answers a \<open>PATCH\<close> with 404.
\<close>

definition sim_hook :: webhookObject where
  "sim_hook = \<lparr>WOID = 3, WOName = ''n'', WOPayloadURL = ''http://pve1:9095/webhook'', WOBodyTemplate = webhookBodyTemplate,
     WOMethod = ''POST'', WOContentType = ''application/json'', WOSecret = ''k''\<rparr>"

definition sim_rule :: eventRuleObject where
  "sim_rule = \<lparr>ROID = 4, ROName = ''n'', ROEnabled = True, ROObjectTypes = managedObjectTypes,
     ROEventTypes = managedEventTypes, ROActionObjectID = Some 3\<rparr>"

definition sim_hook_json :: json where
  "sim_hook_json = JObj [(''id'', JNum (Itoa 3)), (''name'', JStr ''n''), (''payload_url'', JStr ''http://pve1:9095/webhook''),
     (''http_method'', JStr ''POST''), (''http_content_type'', JStr ''application/json''),
     (''body_template'', JStr webhookBodyTemplate), (''secret'', JStr ''k'')]"

definition sim_rule_json :: json where
  "sim_rule_json = JObj [(''id'', JNum (Itoa 4)), (''name'', JStr ''n''), (''enabled'', JBool True),
     (''object_types'', JArr (map JStr managedObjectTypes)),
     (''event_types'', JArr (map (\<lambda>s. JObj [(''value'', JStr s)]) managedEventTypes)),
     (''action_object_id'', JNum (Itoa 3))]"

definition short_page :: "json list \<Rightarrow> json" where
  "short_page js = JObj [(''count'', JNum (Itoa (int (length js)))), (''results'', JArr js)]"

definition ok_response :: "int \<Rightarrow> json \<Rightarrow> http_response" where
  "ok_response status j = \<lparr>StatusCode = status, RespData = MarshalIndent j, RespBroken = False\<rparr>"

definition sim_hooks_url :: string where "sim_hooks_url = ''http://nb/api/extras/webhooks/''"
definition sim_rules_url :: string where "sim_rules_url = ''http://nb/api/extras/event-rules/''"

definition sim_Do :: "http_request \<Rightarrow> bool \<times> bool \<Rightarrow> (gerror + http_response) \<times> bool \<times> bool" where
  "sim_Do req hr =
     (case hr of (h, r) \<Rightarrow>
        if ReqVerb req = ''GET'' then
          (Inr (if ReqURL req = by_name sim_hooks_url ''n''
                then ok_response 200 (short_page (if h then [sim_hook_json] else []))
                else ok_response 200 (short_page (if r then [sim_rule_json] else []))), (h, r))
        else if ReqVerb req = ''POST'' then
          (if ReqURL req = sim_hooks_url then (Inr (ok_response 201 sim_hook_json), (True, r))
           else (Inr (ok_response 201 sim_rule_json), (h, True)))
        else (Inr \<lparr>StatusCode = 404, RespData = [], RespBroken = False\<rparr>, (h, r)))"

definition sim_netbox :: "(bool \<times> bool) Client" where
  "sim_netbox = \<lparr>baseURL = ''http://nb'', token = ''t'', URLError = \<lambda>_. None, Do = sim_Do\<rparr>"

lemma digit7_code: "\<not> digit7 ch \<Longrightarrow> code ch < 128"
  by (cases ch) (auto simp: of_char_def)

lemma template_ascii: "list_all (\<lambda>ch. code ch < 128) webhookBodyTemplate"
proof -
  have "list_all (\<lambda>ch. \<not> digit7 ch) webhookBodyTemplate"
    by (simp add: webhookBodyTemplate_def quotes2_def)
  then show ?thesis by (simp add: list_all_iff digit7_code)
qed

lemma wf_sim_json: "wf_json sim_hook_json" "wf_json sim_rule_json"
proof -
  have "valid_utf8 webhookBodyTemplate" using template_ascii by (intro valid_utf8_ascii) (simp add: list_all_iff)
  then show "wf_json sim_hook_json" by (auto simp: sim_hook_json_def intro!: valid_utf8_ascii)
  show "wf_json sim_rule_json"
    by (auto simp: sim_rule_json_def managedObjectTypes_def managedEventTypes_def intro!: valid_utf8_ascii)
qed

lemma decode_sim:
  "decode_webhook sim_hook_json = Some sim_hook" "decode_rule sim_rule_json = Some sim_rule"
proof -
  show "decode_webhook sim_hook_json = Some sim_hook"
    by (simp add: decode_webhook_def sim_hook_json_def sim_hook_def decode_struct_def webhook_field_def EqualFold_def
        to_lower_def decode_string_def decode_int_def Atoi_Itoa in_int64_def)
  have "lenientStrings (JArr (map (\<lambda>s. JObj [(''value'', JStr s)]) managedEventTypes)) = managedEventTypes"
    by (rule lenient_shapes(2)) (simp add: managedEventTypes_def)
  then show "decode_rule sim_rule_json = Some sim_rule"
    by (simp add: decode_rule_def sim_rule_json_def sim_rule_def decode_struct_def rule_field_def EqualFold_def
        to_lower_def decode_string_def decode_int_def decode_bool_def decode_ptr_def Atoi_Itoa in_int64_def lenient_shapes(1))
qed

definition hook_view :: "bool \<times> bool \<Rightarrow> webhookObject option" where
  "hook_view w = (if fst w then Some sim_hook else None)"

definition rule_view :: "bool \<times> bool \<Rightarrow> eventRuleObject option" where
  "rule_view w = (if snd w then Some sim_rule else None)"

lemma decode_short_page:
  "decode_struct (short_list_field elem) (0, []) (short_page []) = Some (0, [])"
  "elem j = Some ob \<Longrightarrow> decode_struct (short_list_field elem) (0, []) (short_page [j]) = Some (1, [ob])"
  by (simp_all add: decode_struct_def short_page_def short_list_field_def EqualFold_def to_lower_def decode_int_def
      decode_array_def Atoi_Itoa in_int64_def)

lemma wf_short_page: "\<forall>j \<in> set js. wf_json j \<Longrightarrow> wf_json (short_page js)"
  by (auto simp: short_page_def intro!: valid_utf8_ascii)

lemma decode_response: "wf_json j \<Longrightarrow> Decode dest (RespData (ok_response st j)) = dest j"
  by (simp add: ok_response_def Decode_MarshalIndent)

lemma sim_gets:
  "get_http sim_netbox decode_webhook_list (by_name (webhooks_url sim_netbox) ''n'') w = (Inr (listing_of (hook_view w)), w)"
  "get_http sim_netbox decode_rule_list (by_name (rules_url sim_netbox) ''n'') w = (Inr (listing_of (rule_view w)), w)"
proof -
  have u: "webhooks_url sim_netbox = sim_hooks_url" "rules_url sim_netbox = sim_rules_url"
    "by_name sim_rules_url ''n'' \<noteq> by_name sim_hooks_url ''n''"
    by (simp_all add: webhooks_url_def rules_url_def sim_netbox_def sim_hooks_url_def sim_rules_url_def by_name_def)
  have dec: "decode_webhook_list (short_page (if h then [sim_hook_json] else [])) = Some (listing_of (hook_view (h, r)))"
    "decode_rule_list (short_page (if r then [sim_rule_json] else [])) = Some (listing_of (rule_view (h, r)))" for h r
    using decode_sim by (simp_all add: decode_webhook_list_def decode_rule_list_def decode_short_page listing_of_def
        hook_view_def rule_view_def)
  have wf: "wf_json (short_page (if h then [sim_hook_json] else []))" "wf_json (short_page (if r then [sim_rule_json] else []))" for h r
    using wf_sim_json by (simp_all add: wf_short_page)
  have ok: "StatusCode (ok_response 200 j) = 200" for j by (simp add: ok_response_def)
  have env: "URLError sim_netbox url = None" "Do sim_netbox = sim_Do" for url by (simp_all add: sim_netbox_def)
  obtain h r where w: "w = (h, r)" by fastforce
  show "get_http sim_netbox decode_webhook_list (by_name (webhooks_url sim_netbox) ''n'') w = (Inr (listing_of (hook_view w)), w)"
    unfolding w u using dec(1) [of h r] by (simp add: get_http_def env sim_Do_def ok decode_response wf)
  show "get_http sim_netbox decode_rule_list (by_name (rules_url sim_netbox) ''n'') w = (Inr (listing_of (rule_view w)), w)"
    unfolding w u using dec(2) [of r h] u(3) by (simp add: get_http_def env sim_Do_def ok decode_response wf)
qed

lemma sim_reads: "netbox_reads sim_netbox ''n'' hook_view rule_view"
  by (auto simp: netbox_reads_def sim_gets)

abbreviation sim_want :: webhookRequest where
  "sim_want \<equiv> webhook_want ''n'' ''http://pve1:9095/webhook'' ''k''"

lemma sim_posts:
  "post_http sim_netbox (webhooks_url sim_netbox) body (Some decode_webhook) (h, r) = (Inr (Some sim_hook), (True, r))"
  "post_http sim_netbox (rules_url sim_netbox) body no_dest (h, r) = (Inr None, (h, True))"
  "\<exists>err. patch_http sim_netbox url body dest (h, r) = (Inl err, (h, r))"
proof -
  have u: "webhooks_url sim_netbox = sim_hooks_url" "rules_url sim_netbox = sim_rules_url" "sim_rules_url \<noteq> sim_hooks_url"
    by (simp_all add: webhooks_url_def rules_url_def sim_netbox_def sim_hooks_url_def sim_rules_url_def)
  have env: "URLError sim_netbox url = None" "Do sim_netbox = sim_Do" for url by (simp_all add: sim_netbox_def)
  have ok: "StatusCode (ok_response st j) = st" for st j by (simp add: ok_response_def)
  show "post_http sim_netbox (webhooks_url sim_netbox) body (Some decode_webhook) (h, r) = (Inr (Some sim_hook), (True, r))"
    by (simp add: post_http_def writeRequest_def u env sim_Do_def ok decode_response wf_sim_json decode_sim)
  show "post_http sim_netbox (rules_url sim_netbox) body no_dest (h, r) = (Inr None, (h, True))"
    using u(3) by (simp add: post_http_def writeRequest_def u env sim_Do_def ok no_dest_def)
  show "\<exists>err. patch_http sim_netbox url body dest (h, r) = (Inl err, (h, r))"
    by (simp add: patch_http_def writeRequest_def env sim_Do_def)
qed

lemma sim_writes: "netbox_writes sim_netbox sim_want hook_view rule_view"
proof -
  have st: "hook_stored sim_want sim_hook" "rule_stored (rule_want ''n'' (WOID sim_hook)) sim_rule"
    by (simp_all add: hook_stored_def webhook_want_def sim_hook_def rule_stored_def rule_want_def sim_rule_def)
  have nm: "WRName sim_want = ''n''" by (simp add: webhook_want_def)
  have no: "patch_http sim_netbox url body dest w \<noteq> (Inr r, w')" for url body and dest :: "(json \<Rightarrow> 'r option) option" and w r w'
    using sim_posts(3) [of url body dest "fst w" "snd w"] by auto
  show ?thesis
    unfolding netbox_writes_def nm
    by (auto simp: sim_posts no hook_view_def rule_view_def st split: if_splits)
qed

theorem registration_converges_witness:
  "EnsureWebhook sim_netbox ''n'' ''http://pve1:9095/webhook'' ''k'' (False, False) = Some (None, (True, True)) \<and>
   (\<exists>ob. hook_view (True, True) = Some ob \<and> WOSecret ob = ''k'')"
proof -
  have run: "EnsureWebhook sim_netbox ''n'' ''http://pve1:9095/webhook'' ''k'' (False, False) = Some (None, (True, True))"
    by (simp add: EnsureWebhook_def ensureWebhookEndpoint_def ensureEventRule_def sim_gets sim_posts listing_of_def
        hook_view_def rule_view_def)
  from registration_converges [OF sim_reads sim_writes run] show ?thesis using run by (auto simp: delivering_def)
qed

end
