(* ===== verification/Nats_Subscriber.thy ===== *)
theory Nats_Subscriber
  imports Daemon
begin

text \<open>
  The NATS subscriber, \<open>internal/natsconn/subscriber.go\<close>: the subjects it subscribes to, the
  decoding of a message into a \<open>CloudEvent\<close> and its dispatch, the snapshot request, the tap.
  The connection of the NATS library is a record of its calls; the environment is a function
  from variable names to values, empty when unset. Log records are left out.
\<close>

section \<open>The connection\<close>

record 'w conn =
  ConnSubscribe :: "string \<Rightarrow> 'w \<Rightarrow> gerror option \<times> 'w"
  ConnPublish :: "string \<Rightarrow> 'w \<Rightarrow> gerror option \<times> 'w"
  ConnFlush :: "'w \<Rightarrow> gerror option \<times> 'w"

record Subscriber =
  SubCluster :: string
  SubNode :: string
  SubTapMax :: int
  SubTapSeen :: int

definition natsTapEnabled :: "(string \<Rightarrow> string) \<Rightarrow> bool" where
  "natsTapEnabled getenv \<longleftrightarrow>
     TrimSpace (ToLower (getenv ''NR_NATS_TAP'')) \<in> {''1'', ''true'', ''yes'', ''on''}"

definition natsTapMax :: "(string \<Rightarrow> string) \<Rightarrow> int" where
  "natsTapMax getenv =
     (let raw = TrimSpace (getenv ''NR_NATS_TAP_MAX'') in
      if raw = [] then 25
      else case Atoi raw of
        None \<Rightarrow> 25
      | Some n \<Rightarrow> if n \<le> 0 then 25 else if 500 < n then 500 else n)"

text \<open>\<open>Connect\<close>, once the library has connected to the joined server URLs.\<close>

fun Join :: "string \<Rightarrow> string list \<Rightarrow> string" where
  "Join sep [] = []"
| "Join sep [x] = x"
| "Join sep (x # xs) = x @ sep @ Join sep xs"

definition Connect ::
  "(string \<Rightarrow> 'w \<Rightarrow> gerror option \<times> 'w) \<Rightarrow> (string \<Rightarrow> string) \<Rightarrow> string list \<Rightarrow> string \<Rightarrow> string \<Rightarrow> 'w
   \<Rightarrow> (gerror + Subscriber) \<times> 'w" where
  "Connect dial getenv servers cluster nod w =
     (case dial (Join '','' servers) w of
        (Some err, w') \<Rightarrow> (Inl (Wrapf (''connecting to NATS ('' @ Join '','' servers @ '')'') err), w')
      | (None, w') \<Rightarrow>
          (Inr \<lparr>SubCluster = cluster, SubNode = nod, SubTapMax = natsTapMax getenv, SubTapSeen = 0\<rparr>, w'))"

section \<open>Subjects\<close>

definition clusterSubjectVariants :: "string \<Rightarrow> string list" where
  "clusterSubjectVariants cluster =
     (let trimmed = TrimSpace cluster; lower = ToLower trimmed; upper = ToUpper trimmed in
      if trimmed = [] then [[]]
      else [trimmed] @ (if lower \<noteq> trimmed then [lower] else [])
             @ (if upper \<noteq> trimmed \<and> upper \<noteq> lower then [upper] else []))"

definition subjects_of :: "string \<Rightarrow> string list" where
  "subjects_of cluster =
     [''pve.'' @ cluster @ ''.*.*.*.migrate.*'', ''pve.'' @ cluster @ ''.*.*.*.start.*'',
      ''pve.'' @ cluster @ ''.*.*.*.stop.*'', ''pve.'' @ cluster @ ''.*.*.*.shutdown.*'',
      ''pve.'' @ cluster @ ''.*.*.*.destroy.*'', ''pve.'' @ cluster @ ''.*.*.*.state.snapshot'',
      ''pve.'' @ cluster @ ''.*.snapshot.complete'']"

definition subscribed_subjects :: "string \<Rightarrow> string list" where
  "subscribed_subjects cluster = concat (map subjects_of (clusterSubjectVariants cluster))"

fun subscribe_all :: "'w conn \<Rightarrow> string list \<Rightarrow> 'w \<Rightarrow> gerror option \<times> 'w" where
  "subscribe_all c [] w = (None, w)"
| "subscribe_all c (subj # subjs) w =
     (case ConnSubscribe c subj w of
        (Some err, w') \<Rightarrow> (Some (Wrapf (''subscribing to '' @ CHR 0x22 # subj @ [CHR 0x22]) err), w')
      | (None, w') \<Rightarrow> subscribe_all c subjs w')"

definition Subscribe :: "'w conn \<Rightarrow> (string \<Rightarrow> string) \<Rightarrow> Subscriber \<Rightarrow> 'w \<Rightarrow> gerror option \<times> 'w" where
  "Subscribe c getenv sub w =
     (case subscribe_all c (subscribed_subjects (SubCluster sub)) w of
        (Some err, w1) \<Rightarrow> (Some err, w1)
      | (None, w1) \<Rightarrow>
          (case ConnFlush c w1 of
             (Some err, w2) \<Rightarrow> (Some (Wrapf ''flushing NATS subscriptions'' err), w2)
           | (None, w2) \<Rightarrow>
               if \<not> natsTapEnabled getenv then (None, w2)
               else (case ConnSubscribe c ''pve.>'' w2 of
                       (Some err, w3) \<Rightarrow> (Some (Wrapf ''subscribing to NATS tap subject pve.>'' err), w3)
                     | (None, w3) \<Rightarrow>
                         (case ConnFlush c w3 of
                            (Some err, w4) \<Rightarrow> (Some (Wrapf ''flushing NATS tap subscription'' err), w4)
                          | (None, w4) \<Rightarrow> (None, w4)))))"

text \<open>The tap counts every message; the result says whether it is logged.\<close>

definition tap_message :: "Subscriber \<Rightarrow> bool \<times> Subscriber" where
  "tap_message sub =
     (let seen = SubTapSeen sub + 1 in (seen \<le> SubTapMax sub, sub\<lparr>SubTapSeen := seen\<rparr>))"

fun publish_all :: "'w conn \<Rightarrow> string list \<Rightarrow> 'w \<Rightarrow> gerror option \<times> 'w" where
  "publish_all c [] w = (None, w)"
| "publish_all c (subj # subjs) w =
     (case ConnPublish c subj w of
        (Some err, w') \<Rightarrow> (Some (Wrapf (''publishing to '' @ subj) err), w')
      | (None, w') \<Rightarrow> publish_all c subjs w')"

definition snapshot_subjects :: "string \<Rightarrow> string \<Rightarrow> string list" where
  "snapshot_subjects cluster nod =
     concat (map (\<lambda>cl. [''pve.'' @ cl @ ''.snapshot.request'', ''pve.'' @ cl @ ''.'' @ nod @ ''.snapshot.request''])
       (clusterSubjectVariants cluster))"

definition RequestSnapshot :: "'w conn \<Rightarrow> Subscriber \<Rightarrow> 'w \<Rightarrow> gerror option \<times> 'w" where
  "RequestSnapshot c sub w =
     (case publish_all c (snapshot_subjects (SubCluster sub) (SubNode sub)) w of
        (Some err, w1) \<Rightarrow> (Some err, w1)
      | (None, w1) \<Rightarrow>
          (case ConnFlush c w1 of
             (Some err, w2) \<Rightarrow> (Some (Wrapf ''flushing snapshot request publishes'' err), w2)
           | (None, w2) \<Rightarrow> (None, w2)))"

section \<open>Messages\<close>

text \<open>The fields of an event by their lower-case names, as \<open>encoding/json\<close> matches keys.\<close>

definition zero_vmdata :: VMData where
  "zero_vmdata = \<lparr>EvtSchemaVersion = [], EvtCluster = [], EvtNode = [], EvtKind = [], EvtVMID = 0, EvtName = [], EvtTags = [], EvtDescription = [], EvtAction = [], EvtPhase = [], EvtUPID = [], EvtUser = [], EvtSourceNode = [], EvtTargetNode = [], EvtDurationMs = 0, EvtExitStatus = [], EvtState = [], EvtSnapshotID = [], EvtObservedAtNs = 0, EvtCount = 0\<rparr>"

definition zero_event :: CloudEvent where
  "zero_event = \<lparr>CESpecVersion = [], CEID = [], CESource = [], CEType = [], CESubject = [], CETime = [], CEDataContentType = [], CEData = zero_vmdata\<rparr>"

definition vmdata_field :: "string \<times> json \<Rightarrow> VMData \<Rightarrow> VMData option" where
  "vmdata_field kj d =
     (case kj of (k, j) \<Rightarrow> let l = ToLower k in
        if l = ''schemaversion'' then map_option (\<lambda>x. d\<lparr>EvtSchemaVersion := x\<rparr>) (decode_string j (EvtSchemaVersion d))
        else if l = ''cluster'' then map_option (\<lambda>x. d\<lparr>EvtCluster := x\<rparr>) (decode_string j (EvtCluster d))
        else if l = ''node'' then map_option (\<lambda>x. d\<lparr>EvtNode := x\<rparr>) (decode_string j (EvtNode d))
        else if l = ''kind'' then map_option (\<lambda>x. d\<lparr>EvtKind := x\<rparr>) (decode_string j (EvtKind d))
        else if l = ''vmid'' then map_option (\<lambda>x. d\<lparr>EvtVMID := x\<rparr>) (decode_int j (EvtVMID d))
        else if l = ''name'' then map_option (\<lambda>x. d\<lparr>EvtName := x\<rparr>) (decode_string j (EvtName d))
        else if l = ''tags'' then map_option (\<lambda>x. d\<lparr>EvtTags := x\<rparr>) (decode_array (\<lambda>j. decode_string j []) j)
        else if l = ''description'' then map_option (\<lambda>x. d\<lparr>EvtDescription := x\<rparr>) (decode_string j (EvtDescription d))
        else if l = ''action'' then map_option (\<lambda>x. d\<lparr>EvtAction := x\<rparr>) (decode_string j (EvtAction d))
        else if l = ''phase'' then map_option (\<lambda>x. d\<lparr>EvtPhase := x\<rparr>) (decode_string j (EvtPhase d))
        else if l = ''upid'' then map_option (\<lambda>x. d\<lparr>EvtUPID := x\<rparr>) (decode_string j (EvtUPID d))
        else if l = ''user'' then map_option (\<lambda>x. d\<lparr>EvtUser := x\<rparr>) (decode_string j (EvtUser d))
        else if l = ''source_node'' then map_option (\<lambda>x. d\<lparr>EvtSourceNode := x\<rparr>) (decode_string j (EvtSourceNode d))
        else if l = ''target_node'' then map_option (\<lambda>x. d\<lparr>EvtTargetNode := x\<rparr>) (decode_string j (EvtTargetNode d))
        else if l = ''duration_ms'' then map_option (\<lambda>x. d\<lparr>EvtDurationMs := x\<rparr>) (decode_int j (EvtDurationMs d))
        else if l = ''exit_status'' then map_option (\<lambda>x. d\<lparr>EvtExitStatus := x\<rparr>) (decode_string j (EvtExitStatus d))
        else if l = ''state'' then map_option (\<lambda>x. d\<lparr>EvtState := x\<rparr>) (decode_string j (EvtState d))
        else if l = ''snapshot_id'' then map_option (\<lambda>x. d\<lparr>EvtSnapshotID := x\<rparr>) (decode_string j (EvtSnapshotID d))
        else if l = ''observed_at_ns'' then map_option (\<lambda>x. d\<lparr>EvtObservedAtNs := x\<rparr>) (decode_int j (EvtObservedAtNs d))
        else if l = ''count'' then map_option (\<lambda>x. d\<lparr>EvtCount := x\<rparr>) (decode_int j (EvtCount d))
        else Some d)"

definition event_field :: "string \<times> json \<Rightarrow> CloudEvent \<Rightarrow> CloudEvent option" where
  "event_field kj e =
     (case kj of (k, j) \<Rightarrow> let l = ToLower k in
        if l = ''specversion'' then map_option (\<lambda>x. e\<lparr>CESpecVersion := x\<rparr>) (decode_string j (CESpecVersion e))
        else if l = ''id'' then map_option (\<lambda>x. e\<lparr>CEID := x\<rparr>) (decode_string j (CEID e))
        else if l = ''source'' then map_option (\<lambda>x. e\<lparr>CESource := x\<rparr>) (decode_string j (CESource e))
        else if l = ''type'' then map_option (\<lambda>x. e\<lparr>CEType := x\<rparr>) (decode_string j (CEType e))
        else if l = ''subject'' then map_option (\<lambda>x. e\<lparr>CESubject := x\<rparr>) (decode_string j (CESubject e))
        else if l = ''time'' then map_option (\<lambda>x. e\<lparr>CETime := x\<rparr>) (decode_string j (CETime e))
        else if l = ''datacontenttype'' then map_option (\<lambda>x. e\<lparr>CEDataContentType := x\<rparr>) (decode_string j (CEDataContentType e))
        else if l = ''data'' then map_option (\<lambda>x. e\<lparr>CEData := x\<rparr>) (decode_struct vmdata_field (CEData e) j)
        else Some e)"

definition decode_event :: "string \<Rightarrow> CloudEvent option" where
  "decode_event data = Option.bind (json_parse data) (decode_struct event_field zero_event)"

definition on_message ::
  "(string \<Rightarrow> CloudEvent \<Rightarrow> 's \<Rightarrow> 's) \<Rightarrow> string \<Rightarrow> string \<Rightarrow> 's \<Rightarrow> 's" where
  "on_message handler subject data s =
     (case decode_event data of None \<Rightarrow> s | Some evt \<Rightarrow> handler subject evt s)"

section \<open>Round trip\<close>

text \<open>An event as the event bus publishes it.\<close>

definition vmdata_json :: "VMData \<Rightarrow> json" where
  "vmdata_json d =
     JObj [(''schemaVersion'', JStr (EvtSchemaVersion d)),
           (''cluster'', JStr (EvtCluster d)),
           (''node'', JStr (EvtNode d)),
           (''kind'', JStr (EvtKind d)),
           (''vmid'', JNum (Itoa (EvtVMID d))),
           (''name'', JStr (EvtName d)),
           (''tags'', JArr (map JStr (EvtTags d))),
           (''description'', JStr (EvtDescription d)),
           (''action'', JStr (EvtAction d)),
           (''phase'', JStr (EvtPhase d)),
           (''upid'', JStr (EvtUPID d)),
           (''user'', JStr (EvtUser d)),
           (''source_node'', JStr (EvtSourceNode d)),
           (''target_node'', JStr (EvtTargetNode d)),
           (''duration_ms'', JNum (Itoa (EvtDurationMs d))),
           (''exit_status'', JStr (EvtExitStatus d)),
           (''state'', JStr (EvtState d)),
           (''snapshot_id'', JStr (EvtSnapshotID d)),
           (''observed_at_ns'', JNum (Itoa (EvtObservedAtNs d))),
           (''count'', JNum (Itoa (EvtCount d)))]"

definition event_json :: "CloudEvent \<Rightarrow> json" where
  "event_json e =
     JObj [(''specversion'', JStr (CESpecVersion e)),
           (''id'', JStr (CEID e)),
           (''source'', JStr (CESource e)),
           (''type'', JStr (CEType e)),
           (''subject'', JStr (CESubject e)),
           (''time'', JStr (CETime e)),
           (''datacontenttype'', JStr (CEDataContentType e)),
           (''data'', vmdata_json (CEData e))]"

definition event_wf :: "CloudEvent \<Rightarrow> bool" where
  "event_wf e \<longleftrightarrow> wf_json (event_json e) \<and>
     list_all in_int64 [EvtVMID (CEData e), EvtDurationMs (CEData e), EvtObservedAtNs (CEData e), EvtCount (CEData e)]"

lemma decode_strings: "decode_array (\<lambda>j. decode_string j []) (JArr (map JStr xs)) = Some xs"
  by (induction xs) (simp_all add: decode_array_def decode_string_def)

lemma decode_struct_obj: "decode_struct f zero (JObj ms) = decode_fields f ms zero"
  by (simp add: decode_struct_def)

lemma vmdata_fields:
  "vmdata_field (''schemaVersion'', j) d = map_option (\<lambda>x. d\<lparr>EvtSchemaVersion := x\<rparr>) (decode_string j (EvtSchemaVersion d))"
  "vmdata_field (''cluster'', j) d = map_option (\<lambda>x. d\<lparr>EvtCluster := x\<rparr>) (decode_string j (EvtCluster d))"
  "vmdata_field (''node'', j) d = map_option (\<lambda>x. d\<lparr>EvtNode := x\<rparr>) (decode_string j (EvtNode d))"
  "vmdata_field (''kind'', j) d = map_option (\<lambda>x. d\<lparr>EvtKind := x\<rparr>) (decode_string j (EvtKind d))"
  "vmdata_field (''vmid'', j) d = map_option (\<lambda>x. d\<lparr>EvtVMID := x\<rparr>) (decode_int j (EvtVMID d))"
  "vmdata_field (''name'', j) d = map_option (\<lambda>x. d\<lparr>EvtName := x\<rparr>) (decode_string j (EvtName d))"
  "vmdata_field (''tags'', j) d = map_option (\<lambda>x. d\<lparr>EvtTags := x\<rparr>) (decode_array (\<lambda>j. decode_string j []) j)"
  "vmdata_field (''description'', j) d = map_option (\<lambda>x. d\<lparr>EvtDescription := x\<rparr>) (decode_string j (EvtDescription d))"
  "vmdata_field (''action'', j) d = map_option (\<lambda>x. d\<lparr>EvtAction := x\<rparr>) (decode_string j (EvtAction d))"
  "vmdata_field (''phase'', j) d = map_option (\<lambda>x. d\<lparr>EvtPhase := x\<rparr>) (decode_string j (EvtPhase d))"
  "vmdata_field (''upid'', j) d = map_option (\<lambda>x. d\<lparr>EvtUPID := x\<rparr>) (decode_string j (EvtUPID d))"
  "vmdata_field (''user'', j) d = map_option (\<lambda>x. d\<lparr>EvtUser := x\<rparr>) (decode_string j (EvtUser d))"
  "vmdata_field (''source_node'', j) d = map_option (\<lambda>x. d\<lparr>EvtSourceNode := x\<rparr>) (decode_string j (EvtSourceNode d))"
  "vmdata_field (''target_node'', j) d = map_option (\<lambda>x. d\<lparr>EvtTargetNode := x\<rparr>) (decode_string j (EvtTargetNode d))"
  "vmdata_field (''duration_ms'', j) d = map_option (\<lambda>x. d\<lparr>EvtDurationMs := x\<rparr>) (decode_int j (EvtDurationMs d))"
  "vmdata_field (''exit_status'', j) d = map_option (\<lambda>x. d\<lparr>EvtExitStatus := x\<rparr>) (decode_string j (EvtExitStatus d))"
  "vmdata_field (''state'', j) d = map_option (\<lambda>x. d\<lparr>EvtState := x\<rparr>) (decode_string j (EvtState d))"
  "vmdata_field (''snapshot_id'', j) d = map_option (\<lambda>x. d\<lparr>EvtSnapshotID := x\<rparr>) (decode_string j (EvtSnapshotID d))"
  "vmdata_field (''observed_at_ns'', j) d = map_option (\<lambda>x. d\<lparr>EvtObservedAtNs := x\<rparr>) (decode_int j (EvtObservedAtNs d))"
  "vmdata_field (''count'', j) d = map_option (\<lambda>x. d\<lparr>EvtCount := x\<rparr>) (decode_int j (EvtCount d))"
proof -
  have V: "to_lower CHR ''V'' = CHR ''v''" by code_simp
  have low: "ToLower ''schemaVersion'' = ''schemaversion''"
    unfolding ToLower_def list.map V by (simp add: to_lower_def)
  show "vmdata_field (''schemaVersion'', j) d = map_option (\<lambda>x. d\<lparr>EvtSchemaVersion := x\<rparr>) (decode_string j (EvtSchemaVersion d))"
    by (simp add: vmdata_field_def low)
qed (simp_all add: vmdata_field_def Let_def ToLower_def to_lower_def)

lemma event_fields:
  "event_field (''specversion'', j) e = map_option (\<lambda>x. e\<lparr>CESpecVersion := x\<rparr>) (decode_string j (CESpecVersion e))"
  "event_field (''id'', j) e = map_option (\<lambda>x. e\<lparr>CEID := x\<rparr>) (decode_string j (CEID e))"
  "event_field (''source'', j) e = map_option (\<lambda>x. e\<lparr>CESource := x\<rparr>) (decode_string j (CESource e))"
  "event_field (''type'', j) e = map_option (\<lambda>x. e\<lparr>CEType := x\<rparr>) (decode_string j (CEType e))"
  "event_field (''subject'', j) e = map_option (\<lambda>x. e\<lparr>CESubject := x\<rparr>) (decode_string j (CESubject e))"
  "event_field (''time'', j) e = map_option (\<lambda>x. e\<lparr>CETime := x\<rparr>) (decode_string j (CETime e))"
  "event_field (''datacontenttype'', j) e = map_option (\<lambda>x. e\<lparr>CEDataContentType := x\<rparr>) (decode_string j (CEDataContentType e))"
  "event_field (''data'', j) e = map_option (\<lambda>x. e\<lparr>CEData := x\<rparr>) (decode_struct vmdata_field (CEData e) j)"
  by (simp_all add: event_field_def Let_def ToLower_def to_lower_def)

lemma decode_vmdata:
  assumes "list_all in_int64 [EvtVMID d, EvtDurationMs d, EvtObservedAtNs d, EvtCount d]"
  shows "decode_struct vmdata_field zero_vmdata (vmdata_json d) = Some d"
proof -
  have ints: "decode_int (JNum (Itoa (EvtVMID d))) old = Some (EvtVMID d)"
    "decode_int (JNum (Itoa (EvtDurationMs d))) old = Some (EvtDurationMs d)"
    "decode_int (JNum (Itoa (EvtObservedAtNs d))) old = Some (EvtObservedAtNs d)"
    "decode_int (JNum (Itoa (EvtCount d))) old = Some (EvtCount d)" for old
    using assms by (simp_all add: decode_int_def Atoi_Itoa)
  have str: "decode_string (JStr s) old = Some s" for s old by (simp add: decode_string_def)
  show ?thesis
    by (simp add: decode_struct_def vmdata_json_def vmdata_fields decode_strings str ints zero_vmdata_def)
qed

lemma decode_event_json:
  assumes "event_wf e"
  shows "decode_event (MarshalIndent (event_json e)) = Some e"
proof -
  have str: "decode_string (JStr s) old = Some s" for s old by (simp add: decode_string_def)
  have data: "decode_struct vmdata_field zero_vmdata (vmdata_json (CEData e)) = Some (CEData e)"
    using assms by (intro decode_vmdata) (simp only: event_wf_def)
  have "json_parse (MarshalIndent (event_json e) @ []) = Some (event_json e)"
    using assms by (intro json_parse_MarshalIndent) (simp_all only: event_wf_def list.set ball_empty)
  then have "decode_event (MarshalIndent (event_json e)) = decode_struct event_field zero_event (event_json e)"
    by (simp only: append_Nil2 decode_event_def bind.bind_lunit)
  also have "\<dots> = Some e"
    by (simp add: decode_struct_obj event_json_def event_fields str data zero_event_def)
  finally show ?thesis .
qed

section \<open>Subject matching\<close>

text \<open>
  How NATS matches subjects: token by token, \<open>*\<close> for one token, a last \<open>>\<close> for one or more.
\<close>

fun tokens_match :: "string list \<Rightarrow> string list \<Rightarrow> bool" where
  "tokens_match [] ts \<longleftrightarrow> ts = []"
| "tokens_match (p # ps) [] \<longleftrightarrow> False"
| "tokens_match (p # ps) (t # ts) \<longleftrightarrow> (p = ''>'' \<and> ps = []) \<or> ((p = ''*'' \<or> p = t) \<and> tokens_match ps ts)"

definition matches_as_documented :: "(string \<Rightarrow> string \<Rightarrow> bool) \<Rightarrow> bool" where
  "matches_as_documented matches \<longleftrightarrow>
     (\<forall>pat subj. matches pat subj = tokens_match (Split CHR ''.'' pat) (Split CHR ''.'' subj))"

lemma Split_append: "Split sep (s @ sep # t) = Split sep s @ Split sep t"
proof (induction s)
  case (Cons ch s)
  have "Split sep s \<noteq> []" by (cases s) (simp_all split: list.split)
  then show ?case using Cons by (auto split: list.split)
qed simp

lemma Split_none: "sep \<notin> set s \<Longrightarrow> Split sep s = [s]"
  by (induction s) auto

abbreviation tokens :: "string \<Rightarrow> string list" where "tokens \<equiv> Split CHR ''.''"

lemma tokens_prefix:
  assumes "CHR ''.'' \<notin> set v"
  shows "tokens (''pve.'' @ v @ CHR ''.'' # rest) = ''pve'' # v # tokens rest"
proof -
  have "tokens (''pve'' @ CHR ''.'' # v @ CHR ''.'' # rest) = ''pve'' # v # tokens rest"
    unfolding Split_append Split_none [OF assms] by simp
  then show ?thesis by simp
qed

lemma subject_tokens:
  assumes "CHR ''.'' \<notin> set v"
  shows "map tokens (subjects_of v) =
    map (\<lambda>act. [''pve'', v, ''*'', ''*'', ''*'', act, ''*'']) [''migrate'', ''start'', ''stop'', ''shutdown'', ''destroy''] @
    [[''pve'', v, ''*'', ''*'', ''*'', ''state'', ''snapshot''], [''pve'', v, ''*'', ''snapshot'', ''complete'']]"
  using tokens_prefix [OF assms, of "''*.*.*.migrate.*''"] tokens_prefix [OF assms, of "''*.*.*.start.*''"]
    tokens_prefix [OF assms, of "''*.*.*.stop.*''"] tokens_prefix [OF assms, of "''*.*.*.shutdown.*''"]
    tokens_prefix [OF assms, of "''*.*.*.destroy.*''"] tokens_prefix [OF assms, of "''*.*.*.state.snapshot''"]
    tokens_prefix [OF assms, of "''*.*.snapshot.complete''"] tokens_prefix [OF assms, of "''*.snapshot.complete''"]
  by (simp add: subjects_of_def)

definition lifecycle :: "string list" where
  "lifecycle = [''migrate'', ''start'', ''stop'', ''shutdown'', ''destroy'']"

abbreviation token_hits :: "string list \<Rightarrow> string \<Rightarrow> string list list" where
  "token_hits T v \<equiv> filter (\<lambda>q. tokens_match q T) (map tokens (subjects_of v))"

lemma tokens_match_length: "tokens_match ps ts \<Longrightarrow> ''>'' \<notin> set ps \<Longrightarrow> length ts = length ps"
  by (induction ps ts rule: tokens_match.induct) auto

lemma match7:
  assumes "v \<noteq> ''>''" "x \<noteq> ''>''" "x \<noteq> ''*''" "y \<noteq> ''>''"
  shows "tokens_match [''pve'', v, ''*'', ''*'', ''*'', x, y] T \<longleftrightarrow>
    length T = 7 \<and> T ! 0 = ''pve'' \<and> (v = ''*'' \<or> T ! 1 = v) \<and> T ! 5 = x \<and> (y = ''*'' \<or> T ! 6 = y)"
proof (cases "length T = 7")
  case True
  then obtain a b c d e f g where "T = [a, b, c, d, e, f, g]" by (auto simp: length_Suc_conv eval_nat_numeral)
  then show ?thesis using assms by auto
next
  case False
  then show ?thesis using tokens_match_length [of "[''pve'', v, ''*'', ''*'', ''*'', x, y]" T] assms by auto
qed

lemma match5:
  assumes "v \<noteq> ''>''"
  shows "tokens_match [''pve'', v, ''*'', ''snapshot'', ''complete''] T \<longleftrightarrow>
    length T = 5 \<and> T ! 0 = ''pve'' \<and> (v = ''*'' \<or> T ! 1 = v) \<and> T ! 3 = ''snapshot'' \<and> T ! 4 = ''complete''"
proof (cases "length T = 5")
  case True
  then obtain a b c d e where "T = [a, b, c, d, e]" by (auto simp: length_Suc_conv eval_nat_numeral)
  then show ?thesis using assms by auto
next
  case False
  then show ?thesis using tokens_match_length [of "[''pve'', v, ''*'', ''snapshot'', ''complete'']" T] assms by auto
qed

lemma token_hits:
  assumes "CHR ''.'' \<notin> set v" "v \<noteq> ''>''"
  shows "length (token_hits T v) \<le> 1"
    and "token_hits T v \<noteq> [] \<Longrightarrow> v = ''*'' \<or> T ! 1 = v"
    and "length T = 7 \<Longrightarrow> T ! 0 = ''pve'' \<Longrightarrow> T ! 1 = v \<Longrightarrow> T ! 5 \<in> set lifecycle \<Longrightarrow> token_hits T v \<noteq> []"
  unfolding subject_tokens [OF assms(1)]
  by (auto simp: match7 match5 assms(2) lifecycle_def simp del: tokens_match.simps split: if_splits)

lemma variants_distinct: "distinct (clusterSubjectVariants cluster)"
  by (simp add: clusterSubjectVariants_def Let_def)

lemma fold_code:
  "n < 65 \<Longrightarrow> (of_char (to_lower ch) :: nat) = n \<longleftrightarrow> of_char ch = n"
  "n < 65 \<Longrightarrow> (of_char (to_upper ch) :: nat) = n \<longleftrightarrow> of_char ch = n"
  by (auto simp: to_lower_def to_upper_def Let_def)

lemma fold_char:
  assumes "(of_char d :: nat) < 65"
  shows "to_lower ch = d \<longleftrightarrow> ch = d" "to_upper ch = d \<longleftrightarrow> ch = d"
  using fold_code [OF assms, of ch] by (metis of_char_eq_iff)+

lemma variants_fold:
  assumes "v \<in> set (clusterSubjectVariants cluster)"
  shows "v = TrimSpace cluster \<or> v = map to_lower (TrimSpace cluster) \<or> v = map to_upper (TrimSpace cluster)"
  using assms by (auto simp: clusterSubjectVariants_def Let_def ToLower_def ToUpper_def split: if_splits)

lemma image_fixed: "(\<And>x. g x = d \<longleftrightarrow> x = d) \<Longrightarrow> d \<in> g ` A \<longleftrightarrow> d \<in> A"
  by (metis (full_types) imageE imageI)

lemma variants_char:
  assumes "v \<in> set (clusterSubjectVariants cluster)" and "(of_char d :: nat) < 65"
  shows "d \<in> set v \<longleftrightarrow> d \<in> set (TrimSpace cluster)" "v = [d] \<longleftrightarrow> TrimSpace cluster = [d]"
proof -
  note F = fold_char [OF assms(2)]
  have low: "d \<in> to_lower ` A \<longleftrightarrow> d \<in> A" and up: "d \<in> to_upper ` A \<longleftrightarrow> d \<in> A" for A
    by (rule image_fixed, rule F)+
  have "map to_lower s = [d] \<longleftrightarrow> s = [d]" and "map to_upper s = [d] \<longleftrightarrow> s = [d]" for s
    by (cases s; simp add: F)+
  then show "d \<in> set v \<longleftrightarrow> d \<in> set (TrimSpace cluster)" "v = [d] \<longleftrightarrow> TrimSpace cluster = [d]"
    using variants_fold [OF assms(1)] by (elim disjE; simp only: set_map low up)+
qed

lemma variants_single:
  assumes "TrimSpace cluster = [d]" "(of_char d :: nat) < 65"
  shows "clusterSubjectVariants cluster = [[d]]"
  using assms fold_char [OF assms(2)] by (simp add: clusterSubjectVariants_def ToLower_def ToUpper_def)

lemma concat_at_most_one:
  assumes "distinct vs" "\<forall>v \<in> set vs. length (f v) \<le> 1" "\<forall>v \<in> set vs. f v \<noteq> [] \<longrightarrow> v = t"
  shows "length (concat (map f vs)) \<le> 1"
  using assms
proof (induction vs)
  case (Cons v vs)
  show ?case
  proof (cases "f v = []")
    case False
    then have "\<forall>u \<in> set vs. f u = []" using Cons.prems by auto
    then have "concat (map f vs) = []" by simp
    then show ?thesis unfolding list.map concat.simps using Cons.prems(2) by (simp del: concat_eq_Nil_conv)
  qed (use Cons in simp)
qed simp

lemma concat_map_nonempty: "f v \<noteq> [] \<Longrightarrow> v \<in> set vs \<Longrightarrow> concat (map f vs) \<noteq> []"
  by (induction vs) auto

section \<open>Properties\<close>

text \<open>
  C36: Every event is seen once. With NATS matching subjects as documented, and a cluster name
  without dots, no message matches two of the subscriptions, so no event is handled twice;
  and every migrate, start, stop, shutdown or destroy event published under the cluster's
  name, as configured or in lower or upper case, matches one.
\<close>

theorem every_event_once:
  assumes "matches_as_documented matches"
    and "CHR ''.'' \<notin> set (TrimSpace cluster)" and "TrimSpace cluster \<noteq> ''>''"
  shows "length (filter (\<lambda>p. matches p subj) (subscribed_subjects cluster)) \<le> 1 \<and>
    (Split CHR ''.'' subj = [''pve'', v, nod, kind, vmid, act, phase] \<and>
     v \<in> set (clusterSubjectVariants cluster) \<and> act \<in> set lifecycle \<longrightarrow>
     length (filter (\<lambda>p. matches p subj) (subscribed_subjects cluster)) = 1)"
proof -
  let ?T = "tokens subj" and ?vs = "clusterSubjectVariants cluster"
  have vs: "CHR ''.'' \<notin> set u" "u \<noteq> ''>''" if "u \<in> set ?vs" for u
    using variants_char [OF that, of "CHR ''.''"] variants_char(2) [OF that, of "CHR ''>''"] assms(2,3) by auto
  have "filter (\<lambda>p. matches p subj) ps = filter (\<lambda>p. tokens_match (tokens p) ?T) ps" for ps
    using assms(1) by (simp add: matches_as_documented_def)
  then have len: "length (filter (\<lambda>p. matches p subj) (subscribed_subjects cluster)) =
      length (concat (map (token_hits ?T) ?vs))"
    by (simp add: subscribed_subjects_def filter_concat length_concat comp_def filter_map)
  have "length (concat (map (token_hits ?T) ?vs)) \<le> 1"
  proof (cases "TrimSpace cluster = ''*''")
    case True
    then have "?vs = [''*'']" by (rule variants_single) simp
    then show ?thesis using token_hits(1) [of "''*''" ?T] by simp
  next
    case False
    then have "u \<noteq> ''*''" if "u \<in> set ?vs" for u using variants_char(2) [OF that, of "CHR ''*''"] by simp
    then show ?thesis
      using token_hits(1,2) [OF vs] by (intro concat_at_most_one [where t = "?T ! 1"] variants_distinct) blast+
  qed
  moreover have "concat (map (token_hits ?T) ?vs) \<noteq> []"
    if T: "?T = [''pve'', v, nod, kind, vmid, act, phase]" and v: "v \<in> set ?vs" "act \<in> set lifecycle"
  proof -
    have "token_hits ?T v \<noteq> []" by (rule token_hits(3) [OF vs [OF v(1)]]) (use T v(2) in simp_all)
    then show ?thesis by (rule concat_map_nonempty) (rule v(1))
  qed
  moreover have "xs \<noteq> [] \<and> length xs \<le> 1 \<longrightarrow> length xs = 1" for xs :: "string list list" by (cases xs) auto
  ultimately show ?thesis unfolding len by blast
qed

theorem every_event_once_witness:
  "length (filter (\<lambda>p. tokens_match (tokens p) (tokens ''pve.PROD.pve1.qemu.101.migrate.synced''))
     (subscribed_subjects ''Prod'')) = 1"
proof -
  have trim: "TrimSpace ''Prod'' = ''Prod''" "clusterSubjectVariants ''Prod'' = [''Prod'', ''prod'', ''PROD'']" by code_simp+
  have "matches_as_documented (\<lambda>p s. tokens_match (tokens p) (tokens s))" by (simp add: matches_as_documented_def)
  note once = every_event_once [OF this, of "''Prod''" "''pve.PROD.pve1.qemu.101.migrate.synced''"
      "''PROD''" "''pve1''" "''qemu''" "''101''" "''migrate''" "''synced''"]
  have "tokens ''pve.PROD.pve1.qemu.101.migrate.synced'' = [''pve'', ''PROD'', ''pve1'', ''qemu'', ''101'', ''migrate'', ''synced'']"
    by simp
  then show ?thesis using once by (simp only: trim) (simp add: lifecycle_def)
qed

text \<open>
  Events arrive as they were published. A message that holds the JSON of an event, its
  strings UTF-8 and its numbers 64-bit, reaches the handler as exactly that event; a message
  that does not decode changes nothing.
\<close>

theorem event_roundtrip:
  assumes "event_wf evt"
  shows "on_message handler subject (MarshalIndent (event_json evt)) s = handler subject evt s \<and>
    (decode_event data = None \<longrightarrow> on_message handler subject data s = s)"
  using decode_event_json [OF assms] by (simp add: on_message_def)

theorem event_roundtrip_witness:
  "on_message (\<lambda>subj evt s. (subj, EvtVMID (CEData evt))) ''pve.c.n.qemu.101.start.finished''
     (MarshalIndent (event_json evt_start)) ([], 0) = (''pve.c.n.qemu.101.start.finished'', 101)"
proof -
  have "event_wf evt_start"
    by (auto simp: event_wf_def event_json_def vmdata_json_def evt_start_def evt0_def in_int64_def
        intro!: valid_utf8_ascii)
  from event_roundtrip [OF this, of "\<lambda>subj evt s. (subj, EvtVMID (CEData evt))" "''pve.c.n.qemu.101.start.finished''" "([], 0)" "[]"]
  have "on_message (\<lambda>subj evt s. (subj, EvtVMID (CEData evt))) ''pve.c.n.qemu.101.start.finished''
     (MarshalIndent (event_json evt_start)) ([], 0) = (''pve.c.n.qemu.101.start.finished'', EvtVMID (CEData evt_start))"
    by (rule conjunct1)
  then show ?thesis by (simp only: evt_start_def evt0_def CloudEvent.simps VMData.simps)
qed

end
