(* ===== verification/Configuration.thy ===== *)
theory Configuration
  imports Frr "HOL-Library.Multiset" "HOL-Library.Product_Lexorder" "HOL-Library.List_Lexorder"
begin

text \<open>
  The configuration, \<open>internal/config/config.go\<close> and \<open>internal/config/pve_members.go\<close>: the
  Proxmox members file, the default NATS servers, loading and validation. The viper library
  is a parameter: given the defaults the code sets and the path, it reads the file and the
  environment into a \<open>Config\<close>. Reading the members file is a parameter as well.
\<close>

section \<open>The members file\<close>

record pveNode =
  PNID :: int
  PNIP :: string

record pveMembersFile =
  PMNodeName :: string
  PMClusterName :: string \<comment> \<open>the name in the nested \<open>cluster\<close> struct\<close>
  PMNodeList :: "(string, pveNode) gomap"

record PVEMembers =
  ClusterName :: string
  NodeName :: string
  Nodes :: "string list"
  NodeIPs :: "(string, string) gomap"

definition pve_node_field :: "string \<times> json \<Rightarrow> pveNode \<Rightarrow> pveNode option" where
  "pve_node_field kj n =
     (case kj of (k, j) \<Rightarrow>
        if EqualFold k ''id'' then map_option (\<lambda>i. n\<lparr>PNID := i\<rparr>) (decode_int j (PNID n))
        else if EqualFold k ''ip'' then map_option (\<lambda>s. n\<lparr>PNIP := s\<rparr>) (decode_string j (PNIP n))
        else Some n)"

fun decode_node_list :: "(string \<times> json) list \<Rightarrow> (string, pveNode) gomap \<Rightarrow> (string, pveNode) gomap option" where
  "decode_node_list [] m = Some m"
| "decode_node_list ((k, j) # ms) m =
     (case decode_struct pve_node_field \<lparr>PNID = 0, PNIP = []\<rparr> j of
        None \<Rightarrow> None
      | Some n \<Rightarrow> decode_node_list ms (mput k n m))"

definition cluster_field :: "string \<times> json \<Rightarrow> string \<Rightarrow> string option" where
  "cluster_field kj s = (case kj of (k, j) \<Rightarrow> if EqualFold k ''name'' then decode_string j s else Some s)"

definition members_field :: "string \<times> json \<Rightarrow> pveMembersFile \<Rightarrow> pveMembersFile option" where
  "members_field kj f =
     (case kj of (k, j) \<Rightarrow>
        if EqualFold k ''nodename'' then map_option (\<lambda>s. f\<lparr>PMNodeName := s\<rparr>) (decode_string j (PMNodeName f))
        else if EqualFold k ''cluster'' then
          map_option (\<lambda>s. f\<lparr>PMClusterName := s\<rparr>) (decode_struct cluster_field (PMClusterName f) j)
        else if EqualFold k ''nodelist'' then
          (case j of
             JNull \<Rightarrow> Some (f\<lparr>PMNodeList := []\<rparr>)
           | JObj ms \<Rightarrow> map_option (\<lambda>m. f\<lparr>PMNodeList := m\<rparr>) (decode_node_list ms (PMNodeList f))
           | _ \<Rightarrow> None)
        else Some f)"

definition decode_members_file :: "string \<Rightarrow> pveMembersFile option" where
  "decode_members_file data = Option.bind (json_parse data)
     (decode_struct members_field \<lparr>PMNodeName = [], PMClusterName = [], PMNodeList = []\<rparr>)"

text \<open>Go compares strings byte by byte. A node without an id (0) comes last.\<close>

fun str_less :: "string \<Rightarrow> string \<Rightarrow> bool" where
  "str_less s [] \<longleftrightarrow> False"
| "str_less [] (d # t) \<longleftrightarrow> True"
| "str_less (c # s) (d # t) \<longleftrightarrow>
     (of_char c :: nat) < of_char d \<or> c = d \<and> str_less s t"

type_synonym sortableNode = "string \<times> int"

definition node_less :: "sortableNode \<Rightarrow> sortableNode \<Rightarrow> bool" where
  "node_less a b \<longleftrightarrow>
     (if snd a = snd b then str_less (fst a) (fst b)
      else if snd a = 0 then False
      else if snd b = 0 then True
      else snd a < snd b)"

fun insert_node :: "sortableNode \<Rightarrow> sortableNode list \<Rightarrow> sortableNode list" where
  "insert_node n [] = [n]"
| "insert_node n (m # ms) = (if node_less m n then m # insert_node n ms else n # m # ms)"

definition sort_nodes :: "sortableNode list \<Rightarrow> sortableNode list" where
  "sort_nodes nodes = foldr insert_node nodes []"

definition named_nodes :: "(string, pveNode) gomap \<Rightarrow> (string \<times> pveNode) list" where
  "named_nodes nodeList = filter (\<lambda>(name, n). name \<noteq> []) (map (\<lambda>(name, n). (TrimSpace name, n)) nodeList)"

definition node_ips :: "(string \<times> pveNode) list \<Rightarrow> (string, string) gomap" where
  "node_ips nodes = fold (\<lambda>(name, n) m. if TrimSpace (PNIP n) \<noteq> [] then mput name (TrimSpace (PNIP n)) m else m) nodes []"

definition members_of :: "string \<Rightarrow> pveMembersFile \<Rightarrow> gerror + PVEMembers" where
  "members_of path raw =
     (let nodes = named_nodes (PMNodeList raw);
          members = \<lparr>ClusterName = TrimSpace (PMClusterName raw), NodeName = TrimSpace (PMNodeName raw),
            Nodes = map fst (sort_nodes (map (\<lambda>(name, n). (name, PNID n)) nodes)), NodeIPs = node_ips nodes\<rparr>
      in if ClusterName members = [] then Inl (Errorf (''missing cluster.name in '' @ path))
         else if NodeName members = [] then Inl (Errorf (''missing nodename in '' @ path))
         else if Nodes members = [] then Inl (Errorf (''missing nodelist in '' @ path))
         else Inr members)"

definition readPVEMembers :: "(string \<Rightarrow> gerror + string) \<Rightarrow> string \<Rightarrow> gerror + PVEMembers" where
  "readPVEMembers readFile path0 =
     (let path = TrimSpace path0 in
      if path = [] then Inl (Errorf ''members path is empty'')
      else case readFile path of
        Inl err \<Rightarrow> Inl (Wrapf (''reading '' @ path) err)
      | Inr data \<Rightarrow>
          (case decode_members_file data of
             None \<Rightarrow> Inl (Wrapf (''parsing '' @ path) (Errorf ''json''))
           | Some raw \<Rightarrow> members_of path raw))"

definition DefaultNATSServers :: "PVEMembers \<Rightarrow> string list" where
  "DefaultNATSServers m = map (\<lambda>nod. ''tls://'' @ nod @ '':4222'') (Nodes m)"

section \<open>The configuration\<close>

record NATSConfig =
  Servers :: "string list"
  Cert :: string
  Key :: string
  CA :: string

record NetboxConfig =
  NetboxURL :: string
  NetboxToken :: string

record FRRConfig =
  FRREnabled :: bool
  LoopbackInterface :: string

record WebhookConfig =
  WebhookEnabled :: bool
  ListenAddr :: string
  WebhookSecret :: string
  WebhookBaseURL :: string

record Config =
  Cluster :: string
  Node :: string
  CfgNodeIPs :: "(string, string) gomap"
  PVEMembersPath :: string
  NATS :: NATSConfig
  Netbox :: NetboxConfig
  FRR :: FRRConfig
  WebhookCfg :: WebhookConfig
  ReconcileInterval :: string
  LogLevel :: string

datatype setting = SText string | SFlag bool

definition viper_defaults :: "(string \<times> setting) list" where
  "viper_defaults =
     [(''reconcile_interval'', SText ''60s''), (''log_level'', SText ''info''),
      (''frr.enabled'', SFlag True), (''frr.loopback_interface'', SText ''lo''),
      (''nats.cert'', SText ''/etc/network-reconciler/certs/client.pem''),
      (''nats.key'', SText ''/etc/network-reconciler/certs/client.key''),
      (''nats.ca'', SText ''/etc/network-reconciler/certs/ca.pem''),
      (''pve_members_path'', SText ''/etc/pve/.members''),
      (''webhook.enabled'', SFlag False), (''webhook.listen_addr'', SText '':9095'')]"

text \<open>The two calls of viper that can fail: reading the file, and decoding into the struct.\<close>

record viper =
  ReadInConfig :: "string \<Rightarrow> gerror option"
  Unmarshal :: "(string \<times> setting) list \<Rightarrow> string \<Rightarrow> gerror + Config"

definition validate :: "Config \<Rightarrow> gerror option" where
  "validate c =
     (if PVEMembersPath c = [] then Some (Errorf ''pve_members_path must be set'')
      else if Cluster c = [] then Some (Errorf ''cluster must be set'')
      else if Node c = [] then Some (Errorf ''node must be set'')
      else if Servers (NATS c) = [] then Some (Errorf ''nats.servers must contain at least one URL'')
      else if NetboxURL (Netbox c) = [] then Some (Errorf ''netbox.url must be set'')
      else if NetboxToken (Netbox c) = [] then Some (Errorf ''netbox.token must be set (or NR_NETBOX_TOKEN env var)'')
      else None)"

definition with_members :: "PVEMembers \<Rightarrow> Config \<Rightarrow> Config" where
  "with_members members c =
     (let c1 = c\<lparr>Cluster := ClusterName members, Node := NodeName members, CfgNodeIPs := NodeIPs members\<rparr>
      in if Servers (NATS c1) = [] then c1\<lparr>NATS := (NATS c1)\<lparr>Servers := DefaultNATSServers members\<rparr>\<rparr> else c1)"

definition Load :: "viper \<Rightarrow> (string \<Rightarrow> gerror + string) \<Rightarrow> string \<Rightarrow> gerror + Config" where
  "Load v readFile path =
     (case ReadInConfig v path of
        Some err \<Rightarrow> Inl (Wrapf (''reading config '' @ path) err)
      | None \<Rightarrow>
          (case Unmarshal v viper_defaults path of
             Inl err \<Rightarrow> Inl (Wrapf ''parsing config'' err)
           | Inr cfg \<Rightarrow>
               (case readPVEMembers readFile (PVEMembersPath cfg) of
                  Inl err \<Rightarrow> Inl (Wrapf ''reading cluster metadata'' err)
                | Inr members \<Rightarrow>
                    (let cfg1 = with_members members cfg in
                     case validate cfg1 of
                       Some err \<Rightarrow> Inl (Wrapf ''invalid config'' err)
                     | None \<Rightarrow> Inr cfg1))))"

section \<open>The order of the nodes\<close>

definition node_key :: "sortableNode \<Rightarrow> bool \<times> int \<times> nat list" where
  "node_key n = (snd n = 0, snd n, map of_char (fst n))"

lemma str_less_iff: "str_less s t \<longleftrightarrow> (map of_char s :: nat list) < map of_char t"
  by (induction s t rule: str_less.induct) auto

lemma node_less_iff: "node_less a b \<longleftrightarrow> node_key a < node_key b"
  by (auto simp: node_less_def node_key_def str_less_iff less_prod_def)

lemma node_key_inj: "inj node_key"
proof (rule injI)
  fix a b :: sortableNode
  assume "node_key a = node_key b"
  moreover have "inj (of_char :: char \<Rightarrow> nat)" by (rule injI) simp
  ultimately show "a = b" by (cases a; cases b) (auto simp: node_key_def dest: map_injective)
qed

lemma sort_nodes_key: "map node_key (sort_nodes nodes) = sort (map node_key nodes)"
proof -
  have "map node_key (insert_node n ms) = insort (node_key n) (map node_key ms)" for n ms
    by (induction ms) (auto simp: node_less_iff)
  then have "map node_key (foldr insert_node nodes []) = foldr insort (map node_key nodes) []"
    by (induction nodes) simp_all
  then show ?thesis by (simp add: sort_nodes_def sort_key_def)
qed

lemma sort_nodes_perm:
  assumes "mset xs = mset ys"
  shows "sort_nodes xs = sort_nodes ys"
proof -
  have "mset (map node_key xs) = mset (map node_key ys)" using assms by simp
  then have "sort (map node_key xs) = sort (map node_key ys)" by (metis mset_sort properties_for_sort sorted_sort)
  then have "map node_key (sort_nodes xs) = map node_key (sort_nodes ys)" by (simp add: sort_nodes_key)
  then show ?thesis by (rule map_injective) (rule node_key_inj)
qed

lemma sort_nodes_mset: "mset (sort_nodes nodes) = mset nodes"
proof -
  have "mset (insert_node n ms) = add_mset n (mset ms)" for n ms by (induction ms) auto
  then have "mset (foldr insert_node nodes []) = mset nodes" by (induction nodes) simp_all
  then show ?thesis by (simp add: sort_nodes_def)
qed

lemma node_ips_lookup:
  assumes "distinct (map fst nodes)"
  shows "mget (node_ips nodes) k = (case map_of nodes k of
      Some n \<Rightarrow> if TrimSpace (PNIP n) \<noteq> [] then Some (TrimSpace (PNIP n)) else None | None \<Rightarrow> None)"
proof -
  have "mget (fold (\<lambda>(name, n) m. if TrimSpace (PNIP n) \<noteq> [] then mput name (TrimSpace (PNIP n)) m else m) nodes m) k =
    (case map_of nodes k of
      Some n \<Rightarrow> if TrimSpace (PNIP n) \<noteq> [] then Some (TrimSpace (PNIP n)) else mget m k | None \<Rightarrow> mget m k)" for m
    using assms
  proof (induction nodes arbitrary: m)
    case (Cons x nodes)
    moreover have "map_of nodes (fst x) = None" using Cons.prems by (simp add: map_of_eq_None_iff)
    ultimately show ?case by (cases x) (auto simp: gomap_simps split: option.split)
  qed simp
  from this [of "[]"] show ?thesis by (simp add: node_ips_def split: option.split)
qed

section \<open>Properties\<close>

text \<open>
  C38: A loaded configuration is complete. If loading succeeds, the cluster and node names are
  those of the members file, the NetBox URL and token are set, and there is a NATS server to
  connect to: the configured ones, or one per node of the cluster.
\<close>

theorem loaded_config_is_complete:
  assumes "Load v readFile path = Inr cfg"
  shows "\<exists>raw members. Unmarshal v viper_defaults path = Inr raw \<and>
    readPVEMembers readFile (PVEMembersPath raw) = Inr members \<and>
    Cluster cfg = ClusterName members \<and> Cluster cfg \<noteq> [] \<and> Node cfg = NodeName members \<and> Node cfg \<noteq> [] \<and>
    NetboxURL (Netbox cfg) \<noteq> [] \<and> NetboxToken (Netbox cfg) \<noteq> [] \<and> Servers (NATS cfg) \<noteq> [] \<and>
    Servers (NATS cfg) = (if Servers (NATS raw) \<noteq> [] then Servers (NATS raw)
       else map (\<lambda>nod. ''tls://'' @ nod @ '':4222'') (Nodes members))"
proof -
  obtain raw members where steps: "Unmarshal v viper_defaults path = Inr raw"
    "readPVEMembers readFile (PVEMembersPath raw) = Inr members"
    "validate (with_members members raw) = None" "cfg = with_members members raw"
    using assms by (auto simp: Load_def Let_def split: option.splits sum.splits)
  have "Cluster cfg = ClusterName members \<and> Node cfg = NodeName members \<and>
    Servers (NATS cfg) = (if Servers (NATS raw) \<noteq> [] then Servers (NATS raw) else DefaultNATSServers members)"
    by (simp add: steps(4) with_members_def Let_def)
  moreover have "Cluster cfg \<noteq> [] \<and> Node cfg \<noteq> [] \<and> NetboxURL (Netbox cfg) \<noteq> [] \<and> NetboxToken (Netbox cfg) \<noteq> [] \<and>
    Servers (NATS cfg) \<noteq> []"
    using steps(3) unfolding steps(4) [symmetric] by (simp add: validate_def split: if_splits)
  ultimately show ?thesis using steps(1,2) by (auto simp: DefaultNATSServers_def)
qed

text \<open>
  The members do not depend on the map. Go ranges over the node list in an arbitrary
  order; as long as no two node names agree up to surrounding space, every order gives the
  same outcome: the same error, or the same names, the same order of nodes and the same
  address for every node.
\<close>

theorem members_order_irrelevant:
  assumes "mset l = mset l'" and "distinct (map fst (named_nodes l))"
  shows "case (members_of path (raw\<lparr>PMNodeList := l\<rparr>), members_of path (raw\<lparr>PMNodeList := l'\<rparr>)) of
      (Inl err, Inl err') \<Rightarrow> err' = err
    | (Inr m, Inr m') \<Rightarrow> ClusterName m' = ClusterName m \<and> NodeName m' = NodeName m \<and> Nodes m' = Nodes m \<and>
        (\<forall>k. mget (NodeIPs m') k = mget (NodeIPs m) k)
    | _ \<Rightarrow> False"
proof -
  have ms: "mset (named_nodes l') = mset (named_nodes l)" using assms(1) by (simp add: named_nodes_def)
  then have d': "distinct (map fst (named_nodes l'))"
    using assms(2) by (metis mset_eq_imp_distinct_iff mset_map)
  have "map_of (named_nodes l') = map_of (named_nodes l)"
    using map_of_inject_set [OF d' assms(2)] ms by (metis set_mset_mset)
  then have "mget (node_ips (named_nodes l')) k = mget (node_ips (named_nodes l)) k" for k
    by (simp add: node_ips_lookup d' assms(2))
  moreover have "sort_nodes (map (\<lambda>(name, n). (name, PNID n)) (named_nodes l')) =
      sort_nodes (map (\<lambda>(name, n). (name, PNID n)) (named_nodes l))"
    by (rule sort_nodes_perm) (simp add: ms)
  ultimately show ?thesis by (simp add: members_of_def Let_def)
qed

section \<open>Witnesses\<close>

abbreviation two_nodes :: "(string, pveNode) gomap" where
  "two_nodes \<equiv> [(''pve2'', \<lparr>PNID = 2, PNIP = ''10.0.0.2''\<rparr>), (''pve1'', \<lparr>PNID = 1, PNIP = []\<rparr>)]"

definition two_node_file :: pveMembersFile where
  "two_node_file = \<lparr>PMNodeName = ''pve1'', PMClusterName = ''c'', PMNodeList = two_nodes\<rparr>"

lemma two_nodes_named: "named_nodes two_nodes = two_nodes" "TrimSpace ''c'' = ''c''" "TrimSpace ''pve1'' = ''pve1''"
proof -
  have "TrimSpace ''pve2'' = ''pve2''" "TrimSpace ''pve1'' = ''pve1''" "TrimSpace ''c'' = ''c''" by code_simp+
  then show "named_nodes two_nodes = two_nodes" "TrimSpace ''c'' = ''c''" "TrimSpace ''pve1'' = ''pve1''"
    by (simp_all add: named_nodes_def)
qed

lemma two_nodes_sorted: "\<exists>m. members_of ''f'' two_node_file = Inr m \<and> Nodes m = [''pve1'', ''pve2''] \<and>
    ClusterName m = ''c'' \<and> NodeName m = ''pve1''"
  by (simp add: members_of_def two_node_file_def two_nodes_named sort_nodes_def node_less_def)

theorem members_order_irrelevant_witness:
  "\<exists>m. members_of ''f'' (two_node_file\<lparr>PMNodeList := rev two_nodes\<rparr>) = Inr m \<and> Nodes m = [''pve1'', ''pve2'']"
proof -
  obtain m where m: "members_of ''f'' (two_node_file\<lparr>PMNodeList := two_nodes\<rparr>) = Inr m" "Nodes m = [''pve1'', ''pve2'']"
    using two_nodes_sorted by (auto simp: two_node_file_def)
  have "mset two_nodes = mset (rev two_nodes)" "distinct (map fst (named_nodes two_nodes))"
    by (simp_all add: two_nodes_named)
  from members_order_irrelevant [OF this, of "''f''" two_node_file] show ?thesis
    using m by (auto split: sum.splits)
qed

definition test_config :: Config where
  "test_config = \<lparr>Cluster = [], Node = [], CfgNodeIPs = [], PVEMembersPath = ''/etc/pve/.members'',
     NATS = \<lparr>Servers = [], Cert = [], Key = [], CA = []\<rparr>, Netbox = \<lparr>NetboxURL = ''http://nb'', NetboxToken = ''t''\<rparr>,
     FRR = \<lparr>FRREnabled = True, LoopbackInterface = ''lo''\<rparr>,
     WebhookCfg = \<lparr>WebhookEnabled = False, ListenAddr = '':9095'', WebhookSecret = [], WebhookBaseURL = []\<rparr>,
     ReconcileInterval = ''60s'', LogLevel = ''info''\<rparr>"

definition members_json :: json where
  "members_json = JObj [(''nodename'', JStr ''pve1''), (''cluster'', JObj [(''name'', JStr ''c'')]),
     (''nodelist'', JObj [(''pve2'', JObj [(''id'', JNum (Itoa 2)), (''ip'', JStr ''10.0.0.2'')]),
                          (''pve1'', JObj [(''id'', JNum (Itoa 1))])])]"

abbreviation test_viper :: viper where
  "test_viper \<equiv> \<lparr>ReadInConfig = \<lambda>_. None, Unmarshal = \<lambda>_ _. Inr test_config\<rparr>"

abbreviation test_files :: "string \<Rightarrow> gerror + string" where
  "test_files \<equiv> \<lambda>_. Inr (MarshalIndent members_json)"

lemma test_load:
  "\<exists>m. readPVEMembers test_files (PVEMembersPath test_config) = Inr m \<and> Nodes m = [''pve1'', ''pve2''] \<and>
     Load test_viper test_files ''config.yaml'' = Inr (with_members m test_config)"
proof -
  have "wf_json members_json" by (auto simp: members_json_def intro!: valid_utf8_ascii)
  then have "decode_members_file (MarshalIndent members_json) = Some two_node_file"
    using json_parse_MarshalIndent [of members_json "[]"]
    by (simp add: decode_members_file_def members_json_def decode_struct_def members_field_def cluster_field_def
        pve_node_field_def EqualFold_def to_lower_def decode_string_def decode_int_def Atoi_Itoa in_int64_def two_node_file_def)
  moreover have "TrimSpace ''/etc/pve/.members'' = ''/etc/pve/.members''" by code_simp
  moreover obtain m where m: "members_of ''/etc/pve/.members'' two_node_file = Inr m" "Nodes m = [''pve1'', ''pve2'']"
    "ClusterName m = ''c''" "NodeName m = ''pve1''"
    using two_nodes_sorted by (auto simp: members_of_def Let_def split: if_splits)
  ultimately have r: "readPVEMembers test_files (PVEMembersPath test_config) = Inr m"
    by (simp add: readPVEMembers_def test_config_def)
  have "validate (with_members m test_config) = None"
    using m by (simp add: with_members_def validate_def test_config_def DefaultNATSServers_def)
  then have "Load test_viper test_files ''config.yaml'' = Inr (with_members m test_config)"
    by (simp add: Load_def r)
  with r m(2) show ?thesis by blast
qed

theorem loaded_config_is_complete_witness:
  "\<exists>cfg. Load test_viper test_files ''config.yaml'' = Inr cfg \<and>
     Servers (NATS cfg) = [''tls://pve1:4222'', ''tls://pve2:4222'']"
proof -
  obtain m where m: "readPVEMembers test_files (PVEMembersPath test_config) = Inr m" "Nodes m = [''pve1'', ''pve2'']"
    and cfg: "Load test_viper test_files ''config.yaml'' = Inr (with_members m test_config)" using test_load by blast
  have none: "Servers (NATS test_config) = []" by (simp add: test_config_def)
  from loaded_config_is_complete [OF cfg] have
    "Servers (NATS (with_members m test_config)) = map (\<lambda>nod. ''tls://'' @ nod @ '':4222'') (Nodes m)"
    using m(1) none by auto
  then have "Servers (NATS (with_members m test_config)) = [''tls://pve1:4222'', ''tls://pve2:4222'']" by (simp add: m(2))
  with cfg show ?thesis by blast
qed

end
