(* ===== verification/Main_Program.thy ===== *)
theory Main_Program
  imports Webhook Netbox_Webhook Nats_Subscriber Configuration
begin

text \<open>
  The program, \<open>cmd/network-reconciler/main.go\<close>: the URL NetBox is told to post to, the
  registration loop, the checks at start, and the start itself up to the point where the
  loop of \<open>Daemon\<close> runs, with the handlers that run beside it. Log records are left out; a
  check returns whether it warns.
\<close>

section \<open>Package net: host and port\<close>

definition JoinHostPort :: "string \<Rightarrow> string \<Rightarrow> string" where
  "JoinHostPort hst port =
     (if CHR '':'' \<in> set hst then ''['' @ hst @ '']:'' @ port else hst @ '':'' @ port)"

text \<open>The text before and after the last colon, if there is one.\<close>

definition last_colon :: "string \<Rightarrow> (string \<times> string) option" where
  "last_colon s =
     (if CHR '':'' \<notin> set s then None
      else Some (rev (tl (dropWhile (\<lambda>ch. ch \<noteq> CHR '':'') (rev s))),
                 rev (takeWhile (\<lambda>ch. ch \<noteq> CHR '':'') (rev s))))"

definition bracketed :: "string \<Rightarrow> bool" where
  "bracketed s \<longleftrightarrow> CHR ''['' \<in> set s \<or> CHR '']'' \<in> set s"

definition SplitHostPort :: "string \<Rightarrow> (string \<times> string) option" where
  "SplitHostPort s =
     (case last_colon s of
        None \<Rightarrow> None
      | Some (before, port) \<Rightarrow>
          if HasPrefix s ''['' then
            (let inside = takeWhile (\<lambda>ch. ch \<noteq> CHR '']'') (tl s) in
             if before \<noteq> ''['' @ inside @ '']'' \<or> CHR ''['' \<in> set inside \<or> bracketed port then None
             else Some (inside, port))
          else if CHR '':'' \<in> set before \<or> bracketed before \<or> bracketed port then None
          else Some (before, port))"

definition webhookPayloadURL :: "string \<Rightarrow> string \<Rightarrow> string \<Rightarrow> string \<Rightarrow> string" where
  "webhookPayloadURL nod nodeIP listenAddr base =
     (if base \<noteq> [] then TrimRightp (\<lambda>ch. ch = CHR ''/'') base @ ''/webhook''
      else
        let port = (case SplitHostPort listenAddr of None \<Rightarrow> ''9095''
                    | Some (_, p) \<Rightarrow> if p = [] then ''9095'' else p);
            hst = (if TrimSpace nodeIP = [] then nod else TrimSpace nodeIP)
        in ''http://'' @ JoinHostPort hst port @ ''/webhook'')"

section \<open>Registering the webhook\<close>

definition minRegBackoff :: duration where "minRegBackoff = 5 * second"
definition maxRegBackoff :: duration where "maxRegBackoff = 2 * minute"

definition next_reg_backoff :: "duration \<Rightarrow> duration" where
  "next_reg_backoff b = (if maxRegBackoff < 2 * b then maxRegBackoff else 2 * b)"

text \<open>
  One pass of the loop. \<open>cancelled\<close> says whether the context is done right after a failed
  attempt, \<open>woken\<close> whether it is done before the delay has passed. A crash is the panic of
  \<open>EnsureWebhook\<close>.
\<close>

datatype registration = Registered | Cancelled | Crashed | Retry duration

definition registration_attempt ::
  "'w Client \<Rightarrow> string \<Rightarrow> string \<Rightarrow> string \<Rightarrow> bool \<Rightarrow> bool \<Rightarrow> duration \<Rightarrow> 'w \<Rightarrow> registration \<times> 'w" where
  "registration_attempt c name url secret cancelled woken backoff w =
     (case EnsureWebhook c name url secret w of
        None \<Rightarrow> (Crashed, w)
      | Some (None, w') \<Rightarrow> (Registered, w')
      | Some (Some err, w') \<Rightarrow>
          (if cancelled \<or> woken then Cancelled else Retry (next_reg_backoff backoff), w'))"

text \<open>The loop, over what happens around its passes: the two flags, and how the world moves
  while the loop waits.\<close>

fun ensureWebhookRegistration ::
  "'w Client \<Rightarrow> string \<Rightarrow> string \<Rightarrow> string \<Rightarrow> (bool \<times> bool \<times> ('w \<Rightarrow> 'w)) list \<Rightarrow> duration \<Rightarrow> 'w
   \<Rightarrow> registration \<times> 'w" where
  "ensureWebhookRegistration c name url secret [] backoff w = (Retry backoff, w)"
| "ensureWebhookRegistration c name url secret ((cancelled, woken, meanwhile) # rest) backoff w =
     (case registration_attempt c name url secret cancelled woken backoff w of
        (Retry b, w') \<Rightarrow> ensureWebhookRegistration c name url secret rest b (meanwhile w')
      | (r, w') \<Rightarrow> (r, w'))"

section \<open>Checks at start\<close>

definition checkIPv4Forwarding :: "string \<Rightarrow> gerror + string \<Rightarrow> bool" where
  "checkIPv4Forwarding goos file \<longleftrightarrow>
     (if goos \<noteq> ''linux'' then True
      else case file of
        Inl err \<Rightarrow> True
      | Inr data \<Rightarrow> (let value = ToLower (TrimSpace data) in value \<noteq> ''1'' \<and> value \<noteq> ''true''))"

definition checkFRRRedistribution :: "'w exec \<Rightarrow> 'w \<Rightarrow> bool \<times> 'w" where
  "checkFRRRedistribution exec w =
     (case CheckRedistribution exec w of
        (Inl err, w') \<Rightarrow> (True, w')
      | (Inr connected, w') \<Rightarrow> (\<not> connected, w'))"

section \<open>The start\<close>

text \<open>
  \<open>Prime\<close> of the reconciler: read the backup directory (the listing and the files are
  arguments), fetch, and fill the mapping cache with what was fetched, or with the backups.
  It holds the locks only for the single steps: \<open>beside i\<close> is what handlers do after the
  directory was read, while the fetch runs, and before the cache is filled.
\<close>

definition prime_found ::
  "'w deps \<Rightarrow> gerror + NATMapping list \<Rightarrow> Reconciler \<times> 'w \<Rightarrow> NATMapping list option \<times> Reconciler \<times> 'w" where
  "prime_found d res s =
     (case res of
        Inr mappings \<Rightarrow> (Some mappings, s)
      | Inl err \<Rightarrow>
          (case s of (R, w) \<Rightarrow>
             let (cached, b) = all_backups (ReadBackup d w) (backup R)
             in (if length cached = 0 then None else Some cached, R\<lparr>backup := b\<rparr>, w)))"

definition Prime ::
  "'w deps \<Rightarrow> dir_result \<Rightarrow> (string \<Rightarrow> bytes option) \<Rightarrow> (nat \<Rightarrow> Reconciler \<times> 'w \<Rightarrow> Reconciler \<times> 'w)
   \<Rightarrow> Reconciler \<times> 'w \<Rightarrow> Reconciler \<times> 'w" where
  "Prime d dir readName beside s =
     (let (R, w) = s;
          (R1, w1) = beside 0 (R\<lparr>backup := snd (warm dir readName (backup R))\<rparr>, w);
          (res, w2) = FetchNATMappings d w1;
          (found, s3) = prime_found d res (beside 1 (R1, w2));
          (R4, w4) = beside 2 s3
      in (case found of None \<Rightarrow> R4 | Some mappings \<Rightarrow> rebuildMappingCache mappings R4, w4))"

text \<open>
  From the loaded configuration to the state in which \<open>Run\<close> starts: check the routing
  daemon, connect, subscribe, request a snapshot (a failure is only logged), prime. A fatal
  error ends the program. Handlers run from the subscription on: \<open>early 0\<close> is what they do
  before \<open>Prime\<close>, \<open>early (Suc i)\<close> what they do beside it.
\<close>

definition cold_start ::
  "'w deps \<Rightarrow> 'w conn \<Rightarrow> dir_result \<Rightarrow> (string \<Rightarrow> bytes option) \<Rightarrow>
   (nat \<Rightarrow> Reconciler \<times> 'w \<Rightarrow> Reconciler \<times> 'w) \<Rightarrow> Subscriber \<Rightarrow> Reconciler \<times> 'w \<Rightarrow> Reconciler \<times> 'w" where
  "cold_start d c dir readName early sub s =
     (case s of (R, w) \<Rightarrow>
        Prime d dir readName (\<lambda>i. early (Suc i)) (early 0 (R, snd (RequestSnapshot c sub w))))"

definition start ::
  "'w deps \<Rightarrow> 'w exec \<Rightarrow> 'w conn \<Rightarrow> (string \<Rightarrow> 'w \<Rightarrow> gerror option \<times> 'w) \<Rightarrow> (string \<Rightarrow> string) \<Rightarrow>
   dir_result \<Rightarrow> (string \<Rightarrow> bytes option) \<Rightarrow> (nat \<Rightarrow> Reconciler \<times> 'w \<Rightarrow> Reconciler \<times> 'w) \<Rightarrow> Config \<Rightarrow> 'w
   \<Rightarrow> gerror + Reconciler \<times> 'w" where
  "start d exec c dial getenv dir readName early cfg w =
     (let R = newReconciler (Node cfg) New_Store;
          w0 = (if FRREnabled (FRR cfg) then snd (checkFRRRedistribution exec w) else w)
      in case Connect dial getenv (Servers (NATS cfg)) (Cluster cfg) (Node cfg) w0 of
           (Inl err, w1) \<Rightarrow> Inl err
         | (Inr sub, w1) \<Rightarrow>
             (case Subscribe c getenv sub w1 of
                (Some err, w2) \<Rightarrow> Inl err
              | (None, w2) \<Rightarrow> Inr (cold_start d c dir readName early sub (R, w2))))"

text \<open>The name and the URL the background registration uses.\<close>

definition registration_target :: "Config \<Rightarrow> string \<times> string" where
  "registration_target cfg =
     (''network-reconciler-'' @ Node cfg,
      webhookPayloadURL (Node cfg) (mgetd [] (CfgNodeIPs cfg) (Node cfg))
        (ListenAddr (WebhookCfg cfg)) (WebhookBaseURL (WebhookCfg cfg)))"

section \<open>Host and port go round\<close>

lemma last_colon_append: "CHR '':'' \<notin> set port \<Longrightarrow> last_colon (s @ CHR '':'' # port) = Some (s, port)"
proof -
  assume "CHR '':'' \<notin> set port"
  then have "takeWhile (\<lambda>ch. ch \<noteq> CHR '':'') (rev port @ CHR '':'' # rev s) = rev port"
    "dropWhile (\<lambda>ch. ch \<noteq> CHR '':'') (rev port @ CHR '':'' # rev s) = CHR '':'' # rev s"
    by (subst takeWhile_append2 dropWhile_append2; auto)+
  then show ?thesis by (simp add: last_colon_def)
qed

lemma SplitHostPort_Join:
  assumes "\<not> bracketed hst" "\<not> bracketed port" "CHR '':'' \<notin> set port"
  shows "SplitHostPort (JoinHostPort hst port) = Some (hst, port)"
proof (cases "CHR '':'' \<in> set hst")
  case True
  have "takeWhile (\<lambda>ch. ch \<noteq> CHR '']'') (hst @ CHR '']'' # CHR '':'' # port) = hst"
    using assms(1) by (subst takeWhile_append2) (auto simp: bracketed_def)
  then show ?thesis
    using True assms last_colon_append [OF assms(3), of "''['' @ hst @ '']''"]
    by (simp add: JoinHostPort_def SplitHostPort_def HasPrefix_def bracketed_def)
next
  case False
  have "\<not> HasPrefix (hst @ CHR '':'' # port) ''[''"
    using assms(1) by (cases hst) (auto simp: HasPrefix_def bracketed_def)
  then show ?thesis
    using False assms last_colon_append [OF assms(3), of hst]
    by (simp add: JoinHostPort_def SplitHostPort_def)
qed

section \<open>The primed state\<close>

text \<open>A backup file holds what the daemon, or its operator, may have stored.\<close>

definition file_ok :: "Addr set \<Rightarrow> bytes \<Rightarrow> bool" where
  "file_ok E data \<longleftrightarrow> data \<noteq> [] \<and> (\<forall>ms. decode_load data = Inr (Some ms) \<longrightarrow> list_all (owned E) ms)"

lemma warm_read_values:
  "mget (fst (warm_read readName es l n)) v = Some data \<Longrightarrow>
     mget l v = Some data \<or> (\<exists>name. readName name = Some data)"
proof (induction readName es l n rule: warm_read.induct)
  case (2 readName entry entries loaded reads)
  show ?case
  proof (cases "warm_vmid entry")
    case (Some u)
    show ?thesis
    proof (cases "readName (fst entry)")
      case (Some content)
      then have "mget (mput u content loaded) v = Some data \<or> (\<exists>name. readName name = Some data)"
        using 2 \<open>warm_vmid entry = Some u\<close> by simp
      then show ?thesis using Some by (auto simp: mget_mput split: if_splits)
    qed (use 2 Some in simp)
  qed (use 2 in simp)
qed simp

lemma warm_merge_no_empty:
  "no_empty s \<Longrightarrow> (\<forall>v. mget l v \<noteq> Some []) \<Longrightarrow> mkeys_ok l \<Longrightarrow> no_empty (warm_merge l s) \<and> closed (warm_merge l s) = closed s"
proof (induction l s rule: warm_merge.induct)
  case (2 u data l s)
  have l: "mkeys_ok l" "mget l u = None" using 2 by (auto simp: mkeys_ok_def map_of_eq_None_iff)
  have "mget l v \<noteq> Some []" for v using "2.prems"(2) l(2) by (cases "v = u") (auto dest: spec [of _ v])
  moreover have "data \<noteq> []" using "2.prems"(2) by (auto dest: spec [of _ u])
  ultimately show ?case
    using "2.IH" "2.prems"(1) l(1) by (auto simp: no_empty_def mget_mput)
qed simp

lemma warm_view:
  assumes "backup_view rd (snd (warm dir readName b)) v = Inr (Some ms)"
  shows "backup_view rd b v = Inr (Some ms) \<or> (\<exists>name data. readName name = Some data \<and> decode_load data = Inr (Some ms))"
proof (cases dir)
  case (DirOk entries)
  let ?l = "fst (warm_read readName entries [] 0)"
  let ?s = "b\<lparr>diskReads := diskReads b + snd (warm_read readName entries [] 0)\<rparr>"
  have w: "snd (warm dir readName b) = (warm_merge ?l ?s)\<lparr>dirScanned := True\<rparr>"
    by (simp add: DirOk warm_def split: prod.splits)
  show ?thesis
  proof (cases "mget (pending b) v")
    case None
    then show ?thesis
      using assms w warm_merge_lookup [of ?l ?s v] warm_read_keys_ok [of "[]" readName entries 0]
        warm_read_values [of readName entries "[]" 0 v]
      by (auto simp: load_backup_def warm_merge_pending decode_slice_def Let_def split: option.splits if_splits)
  next
    case (Some x)
    then show ?thesis using assms w by (simp add: load_backup_def warm_merge_pending)
  qed
qed (use assms in \<open>auto simp: warm_def load_backup_def Let_def split: option.splits if_splits\<close>)

lemma warm_ok:
  assumes "backup_ok rd b" and "\<And>name data. readName name = Some data \<Longrightarrow> file_ok E data"
  shows "backup_ok rd (snd (warm dir readName b))"
proof (cases dir)
  case (DirOk entries)
  have "mget (fst (warm_read readName entries [] 0)) v \<noteq> Some []" for v
    using warm_read_values [of readName entries "[]" 0 v "[]"] assms(2) by (auto simp: file_ok_def)
  then show ?thesis
    using assms(1) warm_read_keys_ok [of "[]" readName entries 0]
      warm_merge_no_empty [of "b\<lparr>diskReads := diskReads b + snd (warm_read readName entries [] 0)\<rparr>"
        "fst (warm_read readName entries [] 0)"]
    by (simp add: DirOk warm_def backup_ok_def no_empty_def case_prod_beta)
qed (use assms(1) in \<open>simp_all add: warm_def backup_ok_def no_empty_def\<close>)

lemma daemon_inv_backup:
  assumes "daemon_inv E rd addrs table R w" and "backup_ok rd b"
    and "\<And>v ms. backup_view rd b v = Inr (Some ms) \<Longrightarrow> \<forall>m \<in> set ms. owned E m"
  shows "daemon_inv E rd addrs table (R\<lparr>backup := b\<rparr>) w"
  using assms by (simp add: daemon_inv_def data_ok_def cachedMappings_def cache_inv_def
      host_inv_def adv_inv_def nft_inv_def)

text \<open>What handlers can do before the loop runs: events, deltas and triggers are taken, and
  timers fire.\<close>

fun handler_label :: "dlabel \<Rightarrow> bool" where
  "handler_label (LEvent now subject evt) = True"
| "handler_label (LOffer delta) = True"
| "handler_label LTrigger = True"
| "handler_label LVerify = True"
| "handler_label _ = False"

definition by_handlers :: "Addr set \<Rightarrow> 'w deps \<Rightarrow> (Reconciler \<times> 'w \<Rightarrow> Reconciler \<times> 'w) \<Rightarrow> bool" where
  "by_handlers E d f \<longleftrightarrow>
     (\<forall>R w. \<exists>es. list_all handler_label es \<and> list_all (label_ok E) es \<and>
        dsteps d es (R, w, None) (fst (f (R, w)), snd (f (R, w)), None))"

lemma warm_inv:
  assumes "daemon_inv E rd addrs table R w"
    and "\<And>name data. readName name = Some data \<Longrightarrow> file_ok E data"
  shows "daemon_inv E rd addrs table (R\<lparr>backup := snd (warm dir readName (backup R))\<rparr>) w"
proof (rule daemon_inv_backup [OF assms(1)])
  have data: "data_ok E rd R" using assms(1) by (simp add: daemon_inv_def)
  show "backup_ok rd (snd (warm dir readName (backup R)))"
    by (rule warm_ok [where E = E]) (use data assms(2) in \<open>simp_all add: data_ok_def\<close>)
  show "\<forall>m \<in> set ms. owned E m"
    if "backup_view rd (snd (warm dir readName (backup R))) v = Inr (Some ms)" for v ms
    using warm_view [OF that]
  proof
    assume "backup_view rd (backup R) v = Inr (Some ms)"
    then show ?thesis using data by (simp add: data_ok_def)
  next
    assume "\<exists>name data. readName name = Some data \<and> decode_load data = Inr (Some ms)"
    then show ?thesis using assms(2) by (auto simp: file_ok_def list_all_iff)
  qed
qed

lemma prime_found_inv:
  assumes "prime_found d res (R, w) = (found, R', w')" and "\<And>w. ReadBackup d w = rd"
    and "daemon_inv E rd addrs table R w" and "\<forall>ms. res = Inr ms \<longrightarrow> (\<forall>m \<in> set ms. owned E m)"
  shows "w' = w \<and> daemon_inv E rd addrs table R' w \<and> (\<forall>ms. found = Some ms \<longrightarrow> (\<forall>m \<in> set ms. owned E m))"
proof (cases res)
  case (Inl err)
  let ?b = "(backup R)\<lparr>allScans := Suc (allScans (backup R))\<rparr>"
  obtain cached b where a: "all_backups rd (backup R) = (cached, b)" by fastforce
  have beq: "b = snd (load_each rd (map fst (filter (\<lambda>(_, k). k) (known (backup R)))) ?b)"
    using arg_cong [OF a, where f = snd] by (simp add: all_backups_def)
  have data: "data_ok E rd R" using assms(3) by (simp add: daemon_inv_def)
  then have "backup_ok rd ?b" by (simp add: data_ok_def backup_ok_def no_empty_def)
  then have b: "backup_ok rd b" "backup_view rd b v = backup_view rd (backup R) v" for v
    by (simp_all add: beq load_each_ok load_each_view allScans_view)
  have own: "owned E m" if "m \<in> set cached" for m
  proof -
    have "m \<in> set (fst (load_each rd (map fst (filter (\<lambda>(_, k). k) (known (backup R)))) ?b))"
      using that a by (simp add: all_backups_def)
    from load_each_views [OF this] show ?thesis using data_okD(4) [OF data] by (auto simp: allScans_view)
  qed
  have "daemon_inv E rd addrs table (R\<lparr>backup := b\<rparr>) w"
    by (rule daemon_inv_backup [OF assms(3) b(1)]) (use data_okD(4) [OF data] b(2) in auto)
  then show ?thesis using assms(1,2) a Inl own by (auto simp: prime_found_def Let_def split: if_splits)
qed (use assms in \<open>auto simp: prime_found_def\<close>)

context host begin

lemma handlers_inv:
  assumes "by_handlers E d f" "f (R, w) = (R', w')"
    and "\<And>w. ReadBackup d w = rd"
    and "\<And>w ms w'. FetchNATMappings d w = (Inr ms, w') \<Longrightarrow> \<forall>m \<in> set ms. owned E m"
    and "ok w" "daemon_inv E rd addrs table R w"
  shows "ok w' \<and> daemon_inv E rd addrs table R' w' \<and> touches E addrs table w w'"
proof -
  obtain es where "list_all (label_ok E) es" "dsteps d es (R, w, None) (R', w', None)"
    using assms(1,2) unfolding by_handlers_def by (metis fst_conv snd_conv)
  from steps_inv [OF this(2) assms(3,4) this(1)] show ?thesis using assms(5,6) by (simp add: fetched_ok_def)
qed

lemma prime_inv:
  assumes "Prime d dir readName beside (R, w) = (R', w')" and "ok w"
    and rd: "\<And>w. ReadBackup d w = rd"
    and fetched: "\<And>w ms w'. FetchNATMappings d w = (Inr ms, w') \<Longrightarrow> \<forall>m \<in> set ms. owned E m"
    and "daemon_inv E rd addrs table R w"
    and "\<And>name data. readName name = Some data \<Longrightarrow> file_ok E data"
    and "\<And>i. by_handlers E d (beside i)"
  shows "ok w' \<and> daemon_inv E rd addrs table R' w' \<and> touches E addrs table w w'"
proof -
  have step: "ok w' \<and> daemon_inv E rd addrs table R' w' \<and> touches E addrs table w w'"
    if "beside i (R, w) = (R', w')" "ok w" "daemon_inv E rd addrs table R w" for i R w R' w'
    using handlers_inv [OF assms(7) that(1) rd _ that(2,3)] fetched by blast
  obtain R1 w1 where 1: "beside 0 (R\<lparr>backup := snd (warm dir readName (backup R))\<rparr>, w) = (R1, w1)" by fastforce
  have "daemon_inv E rd addrs table (R\<lparr>backup := snd (warm dir readName (backup R))\<rparr>) w"
    by (rule warm_inv [OF assms(5)]) (rule assms(6))
  note I1 = step [OF 1 assms(2) this]
  obtain res w2 where f: "FetchNATMappings d w1 = (res, w2)" by fastforce
  have w2: "ok w2" "addrs w2 = addrs w1" "table w2 = table w1" using fetch_frame [OF _ f] I1 by simp_all
  have "daemon_inv E rd addrs table R1 w2"
    using I1 w2 by (simp add: daemon_inv_def host_inv_def adv_inv_def nft_inv_def)
  moreover obtain R2 w3 where 2: "beside 1 (R1, w2) = (R2, w3)" by fastforce
  ultimately have I2: "ok w3 \<and> daemon_inv E rd addrs table R2 w3 \<and> touches E addrs table w2 w3"
    using step [OF 2 w2(1)] by blast
  obtain found R3 w3' where p: "prime_found d res (R2, w3) = (found, R3, w3')" by (metis prod.exhaust)
  have I3: "w3' = w3 \<and> daemon_inv E rd addrs table R3 w3 \<and> (\<forall>ms. found = Some ms \<longrightarrow> (\<forall>m \<in> set ms. owned E m))"
    using prime_found_inv [OF p rd] I2 fetched [of w1] f by auto
  obtain R4 w4 where 4: "beside 2 (R3, w3) = (R4, w4)" by fastforce
  have I4: "ok w4 \<and> daemon_inv E rd addrs table R4 w4 \<and> touches E addrs table w3 w4"
    using step [OF 4] I2 I3 by blast
  have "R' = (case found of None \<Rightarrow> R4 | Some ms \<Rightarrow> rebuildMappingCache ms R4)" "w' = w4"
    using assms(1) 1 f 2 p I3 4 by (auto simp: Prime_def)
  moreover have "touches E addrs table w w4"
    using I1 I2 I4 touches_same(1) [of addrs w2 w1 table E w3] w2(2,3) by (metis touches_trans)
  ultimately show ?thesis
    using I3 I4 by (auto split: option.split intro: daemon_inv_rebuild)
qed

end

section \<open>Properties\<close>

lemma start_sound:
  assumes "live_host exec m h fetch addrs table"
    and "\<forall>u ms. fst (fetch u) = Inr ms \<longrightarrow> list_all (owned E) ms"
    and "\<forall>v data. rd v = ReadOk data \<longrightarrow> file_ok E data"
    and "\<forall>name data. readName name = Some data \<longrightarrow> file_ok E data"
    and "\<forall>i. by_handlers E (live_deps exec m h fetch (\<lambda>_. rd)) (early i)"
    and "start (live_deps exec m h fetch (\<lambda>_. rd)) exec c dial getenv dir readName early cfg w = Inr (R0, w0)"
  shows "daemon_inv E rd addrs table R0 w0 \<and> (\<exists>sub. touches E addrs table
    (snd (RequestSnapshot c sub (snd (Subscribe c getenv sub (snd (Connect dial getenv (Servers (NATS cfg)) (Cluster cfg) (Node cfg)
      (if FRREnabled (FRR cfg) then snd (checkFRRRedistribution exec w) else w))))))) w0)"
proof -
  let ?d = "live_deps exec m h fetch (\<lambda>_. rd)"
  let ?R = "newReconciler (Node cfg) New_Store"
  obtain sub u1 u2 where up: "Connect dial getenv (Servers (NATS cfg)) (Cluster cfg) (Node cfg)
      (if FRREnabled (FRR cfg) then snd (checkFRRRedistribution exec w) else w) = (Inr sub, u1)"
      "Subscribe c getenv sub u1 = (None, u2)"
    and cold: "cold_start ?d c dir readName early sub (?R, u2) = (R0, w0)"
    using assms(6) by (auto simp: start_def Let_def split: sum.splits prod.splits option.splits)
  define w3 where "w3 = snd (RequestSnapshot c sub u2)"
  have prime: "Prime ?d dir readName (\<lambda>i. early (Suc i)) (early 0 (?R, w3)) = (R0, w0)"
    using cold by (simp add: cold_start_def w3_def)
  have f: "\<forall>m \<in> set ms. owned E m" if "FetchNATMappings ?d u = (Inr ms, u')" for u ms u'
  proof -
    have "fst (fetch u) = Inr ms" using that by (simp add: live_deps_def)
    then show ?thesis using assms(2) by (simp add: list_all_iff)
  qed
  have rd0: "backup_ok rd newBackupStore"
    using assms(3) by (auto simp: backup_ok_def no_empty_def newBackupStore_def file_ok_def)
  have new: "daemon_inv E rd addrs table ?R w3"
    using assms(3) by (intro daemon_inv_new rd0)
      (auto simp: load_backup_def newBackupStore_def file_ok_def list_all_iff Let_def split: read_result.splits)
  obtain R1 w1 where early: "early 0 (?R, w3) = (R1, w1)" by fastforce
  have I1: "live_host exec m h fetch addrs table \<and> daemon_inv E rd addrs table R1 w1 \<and> touches E addrs table w3 w1"
    by (rule live.handlers_inv [OF spec [OF assms(5)] early ReadBackup_live], erule f, rule assms(1), rule new)
  have I0: "live_host exec m h fetch addrs table \<and> daemon_inv E rd addrs table R0 w0 \<and> touches E addrs table w1 w0"
    by (rule live.prime_inv [OF prime [unfolded early] assms(1) ReadBackup_live], erule f)
      (use I1 assms(4,5) in auto)
  have w3: "w3 = snd (RequestSnapshot c sub (snd (Subscribe c getenv sub (snd (Connect dial getenv (Servers (NATS cfg)) (Cluster cfg) (Node cfg)
      (if FRREnabled (FRR cfg) then snd (checkFRRRedistribution exec w) else w))))))"
    by (simp add: w3_def up)
  have "touches E addrs table w3 w0"
    by (rule touches_trans [OF conjunct2 [OF conjunct2 [OF I1]] conjunct2 [OF conjunct2 [OF I0]]])
  then show ?thesis using I0 unfolding w3 by blast
qed

text \<open>
  The started daemon is always sound. Whatever the start finds, a backup directory that
  can or cannot be scanned, NetBox up or down, handlers that run before and beside \<open>Prime\<close>,
  and whatever runs and fails afterwards: the placement store, the cache and the data stay
  well formed, at most 32 deltas are queued, every address counted as announced is on the
  interface, and a remembered fingerprint is that of the loaded table. The apply of a
  handler, of a delta or of a fetch counts as one step.
\<close>

theorem started_daemon_sound:
  assumes "live_host exec m h fetch addrs table"
    and "\<forall>u ms. fst (fetch u) = Inr ms \<longrightarrow> list_all (owned E) ms"
    and "\<forall>v data. rd v = ReadOk data \<longrightarrow> file_ok E data"
    and "\<forall>name data. readName name = Some data \<longrightarrow> file_ok E data"
    and "\<forall>i. by_handlers E (live_deps exec m h fetch (\<lambda>_. rd)) (early i)"
    and "start (live_deps exec m h fetch (\<lambda>_. rd)) exec c dial getenv dir readName early cfg w = Inr (R0, w0)"
    and "list_all (label_ok E) ls"
    and "dsteps (live_deps exec m h fetch (\<lambda>_. rd)) ls (R0, w0, None) (R', w', f)"
  shows "store_wf (store R') \<and> cache_inv R' \<and> data_ok E rd R' \<and>
    length (webhookDeltaCh R') \<le> 32 \<and> set (advertisedIPs R') \<subseteq> addrs w' \<inter> E \<and>
    (rulesetKeyValid R' \<longrightarrow> (\<exists>ms. lastRulesetKey R' = rulesetKey ms \<and> table w' = Some (render ms)))"
proof -
  have "daemon_inv E rd addrs table R0 w0" using start_sound [OF assms(1-6)] by blast
  from run_sound [OF assms(1,2) this assms(7,8)] have inv: "daemon_inv E rd addrs table R' w'" by blast
  show ?thesis using inv by (rule daemon_inv_facts)
qed

text \<open>
  The payload URL names this node. Without a configured base URL, NetBox is told to post
  to the node's cluster address, or to its name if no address is known, and to the port the
  server listens on, or 9095 if the listen address has none: the URL's host and port, read
  back the way a client reads them, are these two, also for an IPv6 address.
\<close>

theorem payload_url_names_the_node:
  assumes "WebhookBaseURL (WebhookCfg cfg) = []"
    and "ip = TrimSpace (mgetd [] (CfgNodeIPs cfg) (Node cfg))"
    and "hst = (if ip = [] then Node cfg else ip)" and "\<not> bracketed hst"
    and "port = (case SplitHostPort (ListenAddr (WebhookCfg cfg)) of
                   Some (l, p) \<Rightarrow> if p = [] then ''9095'' else p | None \<Rightarrow> ''9095'')"
  shows "\<exists>hp. snd (registration_target cfg) = ''http://'' @ hp @ ''/webhook'' \<and>
    SplitHostPort hp = Some (hst, port)"
proof -
  have "CHR '':'' \<notin> set p \<and> \<not> bracketed p" if "SplitHostPort listenAddr = Some (l, p)" for l p listenAddr
  proof -
    have "CHR '':'' \<notin> set q" if "last_colon listenAddr = Some (b, q)" for b q
      using that by (auto simp: last_colon_def split: if_splits dest: set_takeWhileD)
    then show ?thesis using that by (auto simp: SplitHostPort_def Let_def split: option.splits if_splits)
  qed
  then have "CHR '':'' \<notin> set port" "\<not> bracketed port"
    using assms(5) by (auto simp: bracketed_def split: option.splits if_splits)
  from SplitHostPort_Join [OF assms(4) this(2,1)]
  have "snd (registration_target cfg) = ''http://'' @ JoinHostPort hst port @ ''/webhook''"
    "SplitHostPort (JoinHostPort hst port) = Some (hst, port)"
    using assms(1-3,5) by (auto simp: registration_target_def webhookPayloadURL_def Let_def split: option.splits)
  then show ?thesis by blast
qed

lemma reg_backoff_steps:
  "(next_reg_backoff ^^ n) minRegBackoff = (if n < 5 then 2 ^ n * (5 * second) else 120 * second)"
proof (induction n)
  case (Suc n)
  consider "n \<in> {0, 1, 2, 3}" | "n = 4" | "4 < n" by force
  then show ?case unfolding funpow.simps(2) o_apply Suc
    by cases (auto simp: next_reg_backoff_def maxRegBackoff_def minute_def second_def)
qed (simp add: minRegBackoff_def)

text \<open>Failing passes: pass \<open>i\<close> starts in \<open>world i\<close> and is not cancelled.\<close>

definition failing_passes ::
  "'w Client \<Rightarrow> string \<Rightarrow> string \<Rightarrow> string \<Rightarrow> (nat \<Rightarrow> 'w) \<Rightarrow> (bool \<times> bool \<times> ('w \<Rightarrow> 'w)) list \<Rightarrow> bool" where
  "failing_passes c name url secret world passes \<longleftrightarrow>
     (\<forall>i < length passes. \<exists>meanwhile err w1. passes ! i = (False, False, meanwhile) \<and>
        EnsureWebhook c name url secret (world i) = Some (Some err, w1) \<and> world (Suc i) = meanwhile w1)"

lemma failing_passes_Cons:
  "failing_passes c name url secret world (p # ps) \<longleftrightarrow>
     (\<exists>meanwhile err w1. p = (False, False, meanwhile) \<and>
        EnsureWebhook c name url secret (world 0) = Some (Some err, w1) \<and> world (Suc 0) = meanwhile w1) \<and>
     failing_passes c name url secret (\<lambda>i. world (Suc i)) ps"
  unfolding failing_passes_def by (simp add: All_less_Suc2)

lemma registration_loop:
  "failing_passes c name url secret world failed \<Longrightarrow>
     ensureWebhookRegistration c name url secret (failed @ rest) b (world 0) =
       ensureWebhookRegistration c name url secret rest ((next_reg_backoff ^^ length failed) b) (world (length failed))"
proof (induction failed arbitrary: b world)
  case (Cons p failed)
  from Cons.prems obtain meanwhile err w1 where p: "p = (False, False, meanwhile)"
    "EnsureWebhook c name url secret (world 0) = Some (Some err, w1)" "world (Suc 0) = meanwhile w1"
    and rest: "failing_passes c name url secret (\<lambda>i. world (Suc i)) failed"
    unfolding failing_passes_Cons by blast
  show ?case using Cons.IH [OF rest, of "next_reg_backoff b"] p
    by (simp add: registration_attempt_def funpow_swap1)
qed simp

text \<open>
  C33: The registration loop never gives up. However many passes have failed, it is still
  there, with a next delay of 5, 10, 20, 40, 80 and then 120 seconds; and the first pass
  that succeeds ends it, with NetBox set up to deliver to this node.
\<close>

theorem registration_persists:
  assumes "failing_passes c name url secret world failed"
    and "netbox_reads c name hook rule" and "netbox_writes c (webhook_want name url secret) hook rule"
  shows "ensureWebhookRegistration c name url secret failed minRegBackoff (world 0) =
      (Retry (if length failed < 5 then 2 ^ length failed * (5 * second) else 120 * second), world (length failed)) \<and>
    (\<forall>p rest w'. EnsureWebhook c name url secret (world (length failed)) = Some (None, w') \<longrightarrow>
       ensureWebhookRegistration c name url secret (failed @ p # rest) minRegBackoff (world 0) = (Registered, w') \<and>
       delivering hook rule url secret w')"
proof -
  have "ensureWebhookRegistration c name url secret (failed @ p # rest) minRegBackoff (world 0) = (Registered, w')"
    if "EnsureWebhook c name url secret (world (length failed)) = Some (None, w')" for p rest w'
    using that registration_loop [OF assms(1), of "p # rest"] by (cases p) (simp add: registration_attempt_def)
  then show ?thesis
    using registration_loop [OF assms(1), of "[]" minRegBackoff] ensure_settles(1) [OF assms(2,3)]
    by (simp add: reg_backoff_steps)
qed

section \<open>Concrete runs\<close>

text \<open>A NetBox that is down at first; the rest of its state is that of \<open>sim_netbox\<close>.\<close>

definition boot_netbox :: "(bool \<times> bool \<times> bool) Client" where
  "boot_netbox = \<lparr>baseURL = baseURL sim_netbox, token = token sim_netbox, URLError = URLError sim_netbox,
     Do = (\<lambda>req (up, x). if up then (case Do sim_netbox req x of (res, x') \<Rightarrow> (res, True, x'))
                          else (Inl (Errorf ''connection refused''), False, x))\<rparr>"

lemma boot_urls: "webhooks_url boot_netbox = webhooks_url sim_netbox" "rules_url boot_netbox = rules_url sim_netbox"
  by (simp_all add: webhooks_url_def rules_url_def boot_netbox_def)

lemma boot_up:
  "get_http boot_netbox dest url (True, x) = (case get_http sim_netbox dest url x of (r, x') \<Rightarrow> (r, True, x'))"
  "post_http boot_netbox url body dest' (True, x) = (case post_http sim_netbox url body dest' x of (r, x') \<Rightarrow> (r, True, x'))"
  "patch_http boot_netbox url body dest' (True, x) = (case patch_http sim_netbox url body dest' x of (r, x') \<Rightarrow> (r, True, x'))"
  by (simp_all add: get_http_def post_http_def patch_http_def writeRequest_def boot_netbox_def
      split: option.splits prod.splits sum.splits)

lemma boot_down:
  "\<exists>err. get_http boot_netbox dest url (False, x) = (Inl err, False, x)"
  "\<exists>err. post_http boot_netbox url body dest' (False, x) = (Inl err, False, x)"
  "\<exists>err. patch_http boot_netbox url body dest' (False, x) = (Inl err, False, x)"
  by (simp_all add: get_http_def post_http_def patch_http_def writeRequest_def boot_netbox_def
      split: option.splits)

lemma boot_reads: "netbox_reads boot_netbox ''n'' (hook_view \<circ> snd) (rule_view \<circ> snd)"
proof -
  have "hook_view (snd w') = hook_view (snd w) \<and> rule_view (snd w') = rule_view (snd w) \<and> (\<forall>l. res = Inr l \<longrightarrow> l = listing_of (hook_view (snd w)))"
    if "get_http boot_netbox decode_webhook_list (by_name (webhooks_url boot_netbox) ''n'') w = (res, w')" for w res w'
  proof -
    obtain up x where w: "w = (up, x)" by (cases w)
    show ?thesis using that boot_down(1) [of decode_webhook_list "by_name (webhooks_url boot_netbox) ''n''" x]
      by (cases up) (auto simp: w boot_up boot_urls sim_gets)
  qed
  moreover have "hook_view (snd w') = hook_view (snd w) \<and> rule_view (snd w') = rule_view (snd w) \<and> (\<forall>l. res = Inr l \<longrightarrow> l = listing_of (rule_view (snd w)))"
    if "get_http boot_netbox decode_rule_list (by_name (rules_url boot_netbox) ''n'') w = (res, w')" for w res w'
  proof -
    obtain up x where w: "w = (up, x)" by (cases w)
    show ?thesis using that boot_down(1) [of decode_rule_list "by_name (rules_url boot_netbox) ''n''" x]
      by (cases up) (auto simp: w boot_up boot_urls sim_gets)
  qed
  ultimately show ?thesis unfolding netbox_reads_def o_def by blast
qed

lemma boot_posts:
  "post_http boot_netbox (webhooks_url boot_netbox) body (Some decode_webhook) w = (Inr created, w') \<Longrightarrow>
     created = Some sim_hook \<and> w' = (True, True, snd (snd w))"
  "post_http boot_netbox (rules_url boot_netbox) body no_dest w = (Inr none, w') \<Longrightarrow>
     none = None \<and> w' = (True, fst (snd w), True)"
  "patch_http boot_netbox url body dest w \<noteq> (Inr r, w')"
proof -
  obtain up h r where w: "w = (up, h, r)" by (cases w)
  show "post_http boot_netbox (webhooks_url boot_netbox) body (Some decode_webhook) w = (Inr created, w') \<Longrightarrow>
     created = Some sim_hook \<and> w' = (True, True, snd (snd w))"
    using boot_down(2) [of "webhooks_url boot_netbox" body "Some decode_webhook" "(h, r)"]
    by (cases up) (auto simp: w boot_up boot_urls sim_posts)
  show "post_http boot_netbox (rules_url boot_netbox) body no_dest w = (Inr none, w') \<Longrightarrow>
     none = None \<and> w' = (True, fst (snd w), True)"
    using boot_down(2) [of "rules_url boot_netbox" body no_dest "(h, r)"]
    by (cases up) (auto simp: w boot_up boot_urls sim_posts)
next
  obtain up h r' where w: "w = (up, h, r')" by (cases w)
  show "patch_http boot_netbox url body dest w \<noteq> (Inr r, w')"
    using boot_down(3) [of url body dest "(h, r')"] sim_posts(3) [of url body dest h r']
    by (cases up) (auto simp: w boot_up)
qed

lemma boot_writes: "netbox_writes boot_netbox sim_want (hook_view \<circ> snd) (rule_view \<circ> snd)"
proof -
  have st: "hook_stored sim_want sim_hook" "rule_stored (rule_want ''n'' (WOID sim_hook)) sim_rule"
    by (simp_all add: hook_stored_def webhook_want_def sim_hook_def rule_stored_def rule_want_def sim_rule_def)
  have nm: "WRName sim_want = ''n''" by (simp add: webhook_want_def)
  show ?thesis
    unfolding netbox_writes_def nm
    by (auto simp: boot_posts(3) hook_view_def rule_view_def st split: if_splits dest!: boot_posts(1,2))
qed

theorem registration_persists_witness:
  "ensureWebhookRegistration boot_netbox ''n'' ''http://pve1:9095/webhook'' ''k''
     [(False, False, \<lambda>(_, x). (True, x)), (False, False, id)] minRegBackoff (False, False, False) = (Registered, True, True, True)"
proof -
  let ?w = "\<lambda>i :: nat. (0 < i, False, False)"
  let ?wake = "\<lambda>(_, x). (True, x) :: bool \<times> bool \<times> bool"
  have "failing_passes boot_netbox ''n'' ''http://pve1:9095/webhook'' ''k'' ?w [(False, False, ?wake)]"
    using boot_down(1) [of decode_webhook_list "by_name (webhooks_url boot_netbox) ''n''" "(False, False)"]
    by (auto simp: failing_passes_def EnsureWebhook_def ensureWebhookEndpoint_def)
  moreover have "EnsureWebhook boot_netbox ''n'' ''http://pve1:9095/webhook'' ''k'' (?w (length [(False, False, ?wake)])) =
      Some (None, True, True, True)"
    by (simp add: EnsureWebhook_def ensureWebhookEndpoint_def ensureEventRule_def boot_up boot_urls sim_gets sim_posts
        listing_of_def hook_view_def rule_view_def)
  ultimately show ?thesis
    using registration_persists [OF _ boot_reads boot_writes, of ?w "[(False, False, ?wake)]"] by simp
qed

abbreviation ipv6_config :: Config where
  "ipv6_config \<equiv> test_config\<lparr>Node := ''pve1'', CfgNodeIPs := [(''pve1'', ''fd00::1'')]\<rparr>"

theorem payload_url_names_the_node_witness:
  "snd (registration_target ipv6_config) = ''http://[fd00::1]:9095/webhook'' \<and>
   SplitHostPort ''[fd00::1]:9095'' = Some (''fd00::1'', ''9095'')"
proof -
  have t: "TrimSpace ''fd00::1'' = ''fd00::1''" "SplitHostPort '':9095'' = Some ([], ''9095'')"
    "snd (registration_target ipv6_config) = ''http://[fd00::1]:9095/webhook''"
    by code_simp+
  have c: "WebhookBaseURL (WebhookCfg ipv6_config) = []" "ListenAddr (WebhookCfg test_config) = '':9095''"
    by (simp_all add: test_config_def)
  obtain hp where hp: "snd (registration_target ipv6_config) = ''http://'' @ hp @ ''/webhook''"
      "SplitHostPort hp = Some (''fd00::1'', ''9095'')"
    using payload_url_names_the_node [OF c(1) refl refl] by (auto simp: t(1,2) c(2) bracketed_def mgetd_def)
  have "''http://[fd00::1]:9095/webhook'' = ''http://'' @ ''[fd00::1]:9095'' @ ''/webhook''" by simp
  then have "hp = ''[fd00::1]:9095''" using hp(1) unfolding t(3) by (metis append_same_eq same_append_eq)
  then show ?thesis using hp(2) t(3) by simp
qed

abbreviation quiet_conn :: "sim conn" where
  "quiet_conn \<equiv> \<lparr>ConnSubscribe = \<lambda>_ w. (None, w), ConnPublish = \<lambda>_ w. (None, w), ConnFlush = \<lambda>w. (None, w)\<rparr>"

abbreviation "start_sim \<equiv> start (live_deps sim_exec sim_frr sim_nft fetch2 (\<lambda>_. sim_rd)) sim_exec quiet_conn
  (\<lambda>_ w. (None, w)) (\<lambda>_. []) (DirOk []) (\<lambda>_. None)
  (\<lambda>_. HandleEvent (live_deps sim_exec sim_frr sim_nft fetch2 (\<lambda>_. sim_rd)) 1 [] evt_start) test_config sim1"

lemma quiet_subscribe: "subscribe_all quiet_conn ss w = (None, w)"
  by (induction ss) simp_all

lemma start_sim_runs: "\<exists>R0 w0. start_sim = Inr (R0, w0)"
proof -
  have tap: "natsTapEnabled (\<lambda>_. []) = False" by code_simp
  show ?thesis
    by (simp add: start_def cold_start_def Let_def Connect_def Subscribe_def quiet_subscribe tap)
qed

theorem started_daemon_sound_witness:
  "\<exists>R0 w0. start_sim = Inr (R0, w0) \<and> cache_inv (TriggerReconcile R0) \<and> set (advertisedIPs (TriggerReconcile R0)) \<subseteq> sim_addrs w0"
proof -
  let ?d = "live_deps sim_exec sim_frr sim_nft fetch2 (\<lambda>_. sim_rd)"
  obtain R0 w0 where st: "start_sim = Inr (R0, w0)" using start_sim_runs by blast
  have own: "\<forall>u ms. fst (fetch2 u) = Inr ms \<longrightarrow> list_all (owned {V4 203 0 113 2}) ms" using owned_web2 by simp
  have files: "\<forall>v data. sim_rd v = ReadOk data \<longrightarrow> file_ok E data"
    "\<forall>name data. (\<lambda>_ :: string. None) name = Some data \<longrightarrow> file_ok E data" for E by simp_all
  have early: "by_handlers E ?d (HandleEvent ?d 1 [] evt_start)" for E
    using dsteps.more [OF dstep.event [OF surjective_pairing] dsteps.none]
    by (unfold by_handlers_def, intro allI exI [of _ "[LEvent 1 [] evt_start]"]) simp
  have run: "dsteps ?d [LTrigger] (R0, w0, None) (TriggerReconcile R0, w0, None)"
    by (rule dsteps.more [OF dstep.trigger dsteps.none])
  have "list_all (label_ok {V4 203 0 113 2}) [LTrigger]" by simp
  from started_daemon_sound [OF fetch2_host own files _ st this run] show ?thesis
    using st early by (intro exI [of _ R0] exI [of _ w0]) blast
qed

end
