(* ===== verification/System.thy ===== *)
theory System
  imports Main_Program
begin

text \<open>
  The components together: from what NetBox lists, and from what it notifies, to the kernel.
\<close>

section \<open>The daemon with its NetBox client\<close>

text \<open>
  What the reconciler calls is the client. A fetch that would go on forever only ends when
  the context of the daemon does: \<open>cancelled\<close> gives the error, and the world, it ends with.
\<close>

definition client_fetch ::
  "('w \<Rightarrow> gerror \<times> 'w) \<Rightarrow> 'w Client \<Rightarrow> 'w \<Rightarrow> (gerror + NATMapping list) \<times> 'w" where
  "client_fetch cancelled c w =
     (case fetch_mappings c w of
        Some (res, w') \<Rightarrow> (res, w')
      | None \<Rightarrow> (case cancelled w of (err, w') \<Rightarrow> (Inl err, w')))"

lemma client_fetch_answered:
  assumes "answered c w ips machines w'"
  shows "client_fetch cancelled c w = (Inr (expected machines ips), w')"
proof -
  have "fetch_mappings c w = Some (Inr (expected machines ips), w')" unfolding fetch_iff using assms by blast
  then show ?thesis by (simp add: client_fetch_def)
qed

section \<open>One exact apply\<close>

lemma sound_apply_exact:
  assumes "live_host exec m h fetch addrs table" and "daemon_inv E rd addrs table R w"
    and "\<forall>m \<in> set allMappings. owned E m" and "kernelSynced R"
    and "applyMappingsTimed (recording (live_deps exec m h fetch (\<lambda>_. rd))) allMappings source (R, l, w) = (None, R', l', w')"
    and "no_frr_error l'"
  shows "table w' = Some (render (sortMappings (wanted rd allMappings source R))) \<and>
    addrs w' = (addrs w - set (advertisedIPs R)) \<union> ExternalIP ` set (wanted rd allMappings source R)"
proof -
  have inv: "host_inv addrs table R w" and wf: "store_wf (store R)" and data: "data_ok E rd R"
    using assms(2) by (simp_all add: daemon_inv_def)
  have input: "apply_input_ok rd allMappings source R" by (rule input_ok [OF wf data assms(3)])
  have inv': "host_inv (\<lambda>s. addrs (snd s)) (\<lambda>s. table (snd s)) R (l, w)"
    using inv by (simp add: host_inv_def adv_inv_def nft_inv_def)
  have input': "apply_input_ok (ReadBackup (recording (live_deps exec m h fetch (\<lambda>_. rd))) (l, w)) allMappings source R"
    "apply_input_ok (ReadBackup (live_deps exec m h fetch (\<lambda>_. rd)) w) allMappings source R"
    using input by simp_all
  have "table w' = Some (render (sortMappings (wanted rd allMappings source R)))"
    using rec_live.apply_spec [OF assms(5,1) inv' input'(1)] by simp
  moreover note live.apply_converges [OF assms(5,1) inv input'(2) assms(4,6)]
  ultimately show ?thesis by simp
qed

lemma delta_applied_keeps:
  "kernelSynced (delta_applied rd now d R) = kernelSynced R"
  "advertisedIPs (delta_applied rd now d R) = advertisedIPs R"
  "rulesetKeyValid (delta_applied rd now d R) = rulesetKeyValid R"
  "store (delta_applied rd now d R) = store (applyDeltaToState now d R)"
proof -
  let ?R = "if mappingCacheReady R then R
        else R\<lparr>mappingByVMID := [], mappingPendingByName := [], vmIDByName := [], mappingCacheReady := True\<rparr>"
  note C = cache_frameD [OF delta_frame [of "applyDeltaToState now d ?R" d]]
  obtain b where D: "delta_applied rd now d R = (applyDeltaToCache d (applyDeltaToState now d ?R))\<lparr>backup := b\<rparr>"
    unfolding delta_applied_def using sync_frame by blast
  show "kernelSynced (delta_applied rd now d R) = kernelSynced R"
    "advertisedIPs (delta_applied rd now d R) = advertisedIPs R"
    "rulesetKeyValid (delta_applied rd now d R) = rulesetKeyValid R"
    "store (delta_applied rd now d R) = store (applyDeltaToState now d R)"
    unfolding D using C by (simp_all add: applyDeltaToState_def)
qed

section \<open>Properties\<close>

text \<open>
  C2: What NetBox lists reaches the kernel. If NetBox answers the fetch of a reconcile with
  the listing \<open>ips\<close> and the VMs \<open>machines\<close>, these cover every VM active on this node, and the
  reconcile reports no error and no failed call on the interface, then the table is the
  rendered ruleset of exactly the listed mappings of the active VMs, each as often as it is
  listed, and the external addresses of these mappings have replaced the ones announced before.
\<close>

theorem netbox_listing_reaches_kernel:
  assumes "live_host exec m h (client_fetch cancelled c) addrs table" and "daemon_inv E rd addrs table R w"
    and "answered c w ips machines w1" and "\<forall>m \<in> set (expected machines ips). owned E m"
    and "set (active_ids R) \<subseteq> VMProxmoxVMID ` set (expected machines ips)" and "kernelSynced R"
    and "reconcile (recording (live_deps exec m h (client_fetch cancelled c) (\<lambda>_. rd))) now (R, [], w) = (None, R', l, w')"
    and "no_frr_error l"
  shows "\<exists>ms. mset ms = filter_mset (\<lambda>m. VMProxmoxVMID m \<in> set (active_ids R)) (mset (expected machines ips)) \<and>
    table w' = Some (render (sortMappings ms)) \<and>
    addrs w' = (addrs w - set (advertisedIPs R)) \<union> ExternalIP ` set ms"
proof -
  let ?d = "live_deps exec m h (client_fetch cancelled c) (\<lambda>_. rd)"
  let ?ms = "expected machines ips"
  let ?R = "rebuildMappingCache ?ms (R\<lparr>lastFullFetch := now, lastActiveKey := activeStateKey R\<rparr>)"
  have f: "FetchNATMappings ?d w = (Inr ?ms, w1)"
    using client_fetch_answered [OF assms(3)] by (simp add: live_deps_def)
  then have f': "FetchNATMappings (recording ?d) ([], w) = (Inr ?ms, [CFetch True], w1)"
    by (simp add: recording_simps)
  have call: "applyMappingsTimed (recording ?d) ?ms sourceFullFetch (?R, [CFetch True], w1) = (None, R', l, w')"
    using assms(7) by (simp add: reconcile_def f' applyMappings_def Let_def)
  have w1: "addrs w1 = addrs w" "table w1 = table w" using live.fetch_frame [OF assms(1) f] by simp_all
  have "daemon_inv E rd addrs table R w1"
    using assms(2) w1 by (simp add: daemon_inv_def host_inv_def adv_inv_def nft_inv_def)
  then have inv: "daemon_inv E rd addrs table ?R w1"
    by (intro daemon_inv_rebuild assms(4)) (simp add: daemon_inv_signals)
  have keep: "store ?R = store R" "advertisedIPs ?R = advertisedIPs R" "kernelSynced ?R = kernelSynced R"
    by (simp_all add: rebuildMappingCache_def)
  have ids: "active_ids ?R = active_ids R" by (simp add: active_ids_def keep)
  have wf: "store_wf (store ?R)" using inv by (simp add: daemon_inv_def)
  have "set (active_ids ?R) \<subseteq> VMProxmoxVMID ` set ?ms" using assms(5) ids by simp
  note mset = full_fetch_wanted [OF wf this, of rd, unfolded ids]
  have "kernelSynced ?R" using assms(6) keep by simp
  from sound_apply_exact [OF assms(1) inv assms(4) this call assms(8)] mset show ?thesis
    by (intro exI [of _ "wanted rd ?ms sourceFullFetch ?R"]) (simp add: keep w1)
qed


section \<open>Witnesses\<close>

text \<open>NetBox as one document, the address listing, beside the simulated host.\<close>

definition listing_netbox :: "sim Client" where
  "listing_netbox = \<lparr>baseURL = ''http://nb'', token = ''t'', URLError = \<lambda>_. None,
     Do = (\<lambda>req w. (Inr \<lparr>StatusCode = 200, RespData = MarshalIndent (page_json JNull
       [JObj [(''id'', JNum (Itoa 7)), (''address'', JStr ''10.0.1.100/24''),
          (''assigned_object_type'', JStr ''virtualization.vminterface''),
          (''assigned_object'', JObj [(''id'', JNum (Itoa 9)), (''virtual_machine'', JObj [(''id'', JNum (Itoa 4)),
             (''name'', JStr ''web<01>''), (''custom_fields'', JObj [(''proxmox_vmid'', JStr (Itoa 101))])])]),
          (''nat_outside'', JArr [JObj [(''id'', JNum (Itoa 8)), (''address'', JStr ''203.0.113.2/32'')]])]]), RespBroken = False\<rparr>, w))\<rparr>"

definition listed_ip :: ipAddress where
  "listed_ip = \<lparr>IPID = 7, IPAddress = ''10.0.1.100/24'', AssignedObjectType = Some ''virtualization.vminterface'',
     AssignedObject = Some \<lparr>AOID = 9, AOName = [], AOVirtualMachine = Some \<lparr>NetboxID = 4, NetboxName = ''web<01>'',
       CustomFields = Some [(''proxmox_vmid'', JStr (Itoa 101))]\<rparr>\<rparr>, NATOutsideIPs = [\<lparr>NatID = 8, NatAddress = ''203.0.113.2/32''\<rparr>]\<rparr>"

lemma Itoa_101: "Itoa 101 = ''101''"
  by (simp add: Itoa_def dec_101)

lemma listed_vmid: "proxmoxVMIDFromVM (vm_of listed_ip) = Some 101"
proof -
  have "TrimSpace (Itoa 101) = Itoa 101" "Itoa 101 \<noteq> []" using Itoa_no_space by (simp_all add: TrimSpace_id)
  then show ?thesis by (simp add: proxmoxVMIDFromVM_def vm_of_def listed_ip_def Atoi_Itoa in_int64_def)
qed

lemma listing_answered: "answered listing_netbox w [listed_ip] [] w"
proof -
  let ?j = "JObj [(''id'', JNum (Itoa 7)), (''address'', JStr ''10.0.1.100/24''),
          (''assigned_object_type'', JStr ''virtualization.vminterface''),
          (''assigned_object'', JObj [(''id'', JNum (Itoa 9)), (''virtual_machine'', JObj [(''id'', JNum (Itoa 4)),
             (''name'', JStr ''web<01>''), (''custom_fields'', JObj [(''proxmox_vmid'', JStr (Itoa 101))])])]),
          (''nat_outside'', JArr [JObj [(''id'', JNum (Itoa 8)), (''address'', JStr ''203.0.113.2/32'')]])]"
  have vm: "decode_vm (JObj [(''id'', JNum (Itoa 4)), (''name'', JStr ''web<01>''),
      (''custom_fields'', JObj [(''proxmox_vmid'', JStr (Itoa 101))])]) =
    Some \<lparr>NetboxID = 4, NetboxName = ''web<01>'', CustomFields = Some [(''proxmox_vmid'', JStr (Itoa 101))]\<rparr>"
    by (simp add: decode_vm_def decode_struct_def vm_field_def EqualFold_def to_lower_def decode_int_def decode_string_def
        decode_any_map_def Atoi_Itoa in_int64_def)
  have "decode_ip ?j = Some listed_ip"
    by (simp add: decode_ip_def decode_struct_def ip_field_def ao_field_def nat_field_def EqualFold_def to_lower_def
        decode_int_def decode_string_def decode_ptr_def decode_array_def Atoi_Itoa in_int64_def vm listed_ip_def)
  then have page: "decode_page decode_ip (page_json JNull [?j]) = Some \<lparr>Count = 1, Next = None, Results = [listed_ip]\<rparr>"
    using decode_page_json(1) [of decode_ip "[?j]" "[listed_ip]"] by (simp add: in_int64_def)
  have wf: "wf_json (page_json JNull [?j])" by (intro wf_page_json) (auto simp: Itoa_101 intro!: valid_utf8_ascii)
  have "get_http listing_netbox (decode_page decode_ip) url w = (Inr \<lparr>Count = 1, Next = None, Results = [listed_ip]\<rparr>, w)" for url
    by (simp add: get_http_def listing_netbox_def Decode_MarshalIndent [OF wf] page)
  then have "chain listing_netbox decode_ip (first_url listing_netbox) [\<lparr>Count = 1, Next = None, Results = [listed_ip]\<rparr>] w w"
    by (simp add: next_url_def first_url_def)
  moreover have "open_ids [listed_ip] = []"
    by (simp add: open_ids_def is_open_def listed_vmid)
  moreover have "batch_chain listing_netbox (batches []) [] w w" by (simp add: batches_def)
  ultimately show ?thesis
    unfolding answered_def
    by (intro exI [of _ "[\<lparr>Count = 1, Next = None, Results = [listed_ip]\<rparr>]"] exI [of _ "[]"] exI [of _ w])
      (simp only: all_results_def list.map concat.simps listResponse.simps append.simps simp_thms)
qed

lemma listing_expected: "expected [] [listed_ip] = [web2]"
proof -
  note listed_vmid
  moreover have "isVMInterface listed_ip"
    by (simp add: isVMInterface_def vm_of_def listed_ip_def vmInterfaceType_def)
  moreover have "parseHostIP ''10.0.1.100/24'' = Some (V4 10 0 1 100)" "parseHostIP ''203.0.113.2/32'' = Some (V4 203 0 113 2)"
    by code_simp+
  then have "mappingsForIP listed_ip 101 = [web2]"
    by (simp add: mappingsForIP_def vm_of_def listed_ip_def web2_def web_mapping_def List.map_filter_def)
  ultimately show ?thesis
    by (simp add: expected_def mappings_with_def direct_vmid_def looked_up_def is_open_def)
qed

abbreviation two_addrs :: "Addr set" where "two_addrs \<equiv> {V4 203 0 113 1, V4 203 0 113 2}"

lemma rec101_sound: "daemon_inv two_addrs sim_rd sim_addrs sim_table rec101 sim1"
  using rec101_ok(1) sim_rd_ok store_wf_store101
  by (simp add: daemon_inv_def data_ok_def cachedMappings_def cache_inv_empty)
    (simp add: rec101_def newReconciler_def cache_inv_empty)

abbreviation listing_fetch :: "sim \<Rightarrow> (gerror + NATMapping list) \<times> sim" where
  "listing_fetch \<equiv> client_fetch (\<lambda>w. (Errorf ''context deadline exceeded'', w)) listing_netbox"

lemma listing_fetched: "listing_fetch w = (Inr [web2], w)"
  using client_fetch_answered [OF listing_answered] by (simp add: listing_expected)

lemma listing_host: "live_host sim_exec sim_frr sim_nft listing_fetch sim_addrs sim_table"
  using sim_host by (simp add: live_host_def separate_def listing_fetched)

theorem netbox_listing_reaches_kernel_witness:
  "\<exists>R' l w'. reconcile (recording (live_deps sim_exec sim_frr sim_nft listing_fetch (\<lambda>_. sim_rd))) 5 (rec101, [], sim1) =
     (None, R', l, w') \<and> sim_table w' = Some (render [web2]) \<and> sim_addrs w' = {quad_addr anycast, V4 203 0 113 2}"
proof -
  let ?d = "live_deps sim_exec sim_frr sim_nft listing_fetch (\<lambda>_. sim_rd)"
  let ?R = "rebuildMappingCache [web2] (rec101\<lparr>lastFullFetch := 5, lastActiveKey := activeStateKey rec101\<rparr>)"
  have keep: "store ?R = store101" "advertisedIPs ?R = [V4 203 0 113 1]" "kernelSynced ?R" "\<not> rulesetKeyValid ?R"
    "backup ?R = newBackupStore" by (simp_all add: rebuildMappingCache_def)
  have ids: "active_ids rec101 = [101]" using active_store101 by (simp add: active_ids_def)
  then have "wanted sim_rd [web2] sourceFullFetch ?R = [web2]"
    using keep by (simp add: wanted_def active_ids_def wanted_vm_def vm_mappings_def web2_def web_mapping_def)
  moreover have "store_wf (store ?R)" "no_frr_error [CFetch True]"
    using store_wf_store101 keep(1) by (simp_all add: no_frr_error_def)
  ultimately obtain R' l w' where "applyMappingsTimed (recording ?d) [web2] sourceFullFetch (?R, [CFetch True], sim1) = (None, R', l, w')"
    and l: "no_frr_error l" using sim_apply_runs [where fetch = listing_fetch] keep(2-4) by blast
  then have run: "reconcile (recording ?d) 5 (rec101, [], sim1) = (None, R', l, w')"
    by (simp add: reconcile_def recording_simps live_deps_def listing_fetched applyMappings_def Let_def)
  have own: "\<forall>m \<in> set [web2]. owned two_addrs m"
    using owned_web2 by (simp add: owned_def)
  obtain ms where ms: "mset ms = filter_mset (\<lambda>m. VMProxmoxVMID m \<in> set (active_ids rec101)) (mset [web2])"
    "sim_table w' = Some (render (sortMappings ms))"
    "sim_addrs w' = sim_addrs sim1 - set (advertisedIPs rec101) \<union> ExternalIP ` set ms"
    using netbox_listing_reaches_kernel [OF listing_host rec101_sound listing_answered _ _ _ run l] own ids
    by (auto simp: listing_expected web2_def web_mapping_def)
  have "ms = [web2]" using ms(1) ids by (simp add: web2_def web_mapping_def)
  moreover have "sim_addrs sim1 - set (advertisedIPs rec101) = {quad_addr anycast}"
    by (simp add: sim_addrs_def sim1_def anycast_def insert_Diff_if)
  ultimately show ?thesis using run ms by (simp add: sortMappings_def web2_def insert_commute)
qed

text \<open>The notification of the deletion of the address of VM 101.\<close>

definition gone101 :: WebhookDelta where "gone101 = note101\<lparr>Event := ''deleted'', NATOutside := []\<rparr>"

abbreviation gone_json :: json where
  "gone_json \<equiv> notification ''ipam.ipaddress'' JNull ''/api/ipam/ip-addresses/7/'' (JNum (Itoa 9)) [] gone101"

definition gone_body :: string where "gone_body = MarshalIndent gone_json"

lemma gone_facts: "delta_wf gone101" "json_parse gone_body = Some gone_json" "length gone_body \<le> maxBodyBytes"
proof -
  have "ToLower (TrimSpace ''deleted'') = ''deleted''" by code_simp
  then show "delta_wf gone101" using note_facts(1) by (simp add: delta_wf_def gone101_def)
  have "wf_json gone_json"
    by (auto simp: notification_def notification_data_def gone101_def note101_def intro!: valid_utf8_ascii)
  then show "json_parse gone_body = Some gone_json"
    using json_parse_MarshalIndent [of gone_json "[]"] by (simp add: gone_body_def)
  have "length gone_body \<le> 1000" by code_simp
  then show "length gone_body \<le> maxBodyBytes" by (simp add: maxBodyBytes_def)
qed

lemma gone_ok: "delta_ok two_addrs gone101"
proof -
  have "parseIPorCIDR ''10.0.0.5/24'' = Some (V4 10 0 0 5)" "TrimSpace ''web'' = ''web''" by code_simp+
  then show ?thesis
    by (auto simp: delta_ok_def gone101_def note101_def in_int64_def intro!: valid_utf8_ascii)
qed


end
