(* ===== verification/Fallback_Race.thy ===== *)
theory Fallback_Race
  imports Retention Interleaving
begin

text \<open>
  The one apply that runs without \<open>reconcileMu\<close>: after a failed fetch, \<open>reconcile\<close> calls
  \<open>applyMappings\<close> without the lock that every other caller holds. An apply of a handler that
  comes between its load and its record of the fingerprint leaves a fingerprint that is not
  that of the loaded table: first in general, then as a run of the threads of \<open>Interleaving\<close>.
\<close>

definition record_ruleset :: "NATMapping list \<Rightarrow> Reconciler \<Rightarrow> Reconciler" where
  "record_ruleset ms R = R\<lparr>lastRulesetKey := rulesetKey ms, rulesetKeyValid := True\<rparr>"

lemma apply_nft_parts:
  "apply_nft d False ms (R, w) =
     (case NftApply d ms w of
        (Some err, w') \<Rightarrow> (Some (Wrapf ''applying nftables'' err), R\<lparr>rulesetKeyValid := False\<rparr>, w')
      | (None, w') \<Rightarrow> (None, record_ruleset ms R, w'))"
  by (simp add: apply_nft_def record_ruleset_def split: prod.split option.split)

context host begin

lemma skipped_apply:
  assumes "applyMappingsTimed d allMappings source (R, w) = (err, R', w')" and "ok w" "adv_inv addrs R w"
    and "apply_input_ok (ReadBackup d w) allMappings source R" and "rulesetKeyValid R"
    and "rulesetKey (sortMappings (wanted (ReadBackup d w) allMappings source R)) = lastRulesetKey R"
  shows "err = None \<and> table w' = table w \<and> rulesetKeyValid R' \<and> lastRulesetKey R' = lastRulesetKey R"
proof -
  let ?rd = "ReadBackup d w"
  let ?r = "resolve_all ?rd allMappings source R"
  have wf: "store_wf (store R)" using assms(4) by (simp add: apply_input_ok_def)
  note r = resolve_all_spec [OF wf, where rd = ?rd and allMappings = allMappings and source = source]
  obtain unchanged first R2 where
    prog: "program_host d unchanged first (sortMappings (res_nft ?r)) (res_bgp ?r)
       (managed_of ?rd allMappings source R) (res_applied ?r) (R2, w) = (err, R', w')"
    and unch: "unchanged" and adv: "advertisedIPs R2 = advertisedIPs R"
    and key: "rulesetKeyValid R2" "lastRulesetKey R2 = lastRulesetKey R"
    using assms(5,6) r(1) by (rule_tac apply_decompose [OF assms(1)]) auto
  obtain e R3 w3 where b: "reconcileBGP d (res_bgp ?r) (managed_of ?rd allMappings source R) (R2, w) = (e, R3, w3)"
    by (metis prod.exhaust)
  have "adv_inv addrs R2 w" using assms(3) adv by (simp add: adv_inv_def)
  moreover have "\<forall>a \<in> set (res_bgp ?r). Is4 a" "\<forall>a \<in> set (managed_of ?rd allMappings source R). Is4 a"
    using assms(4) r(2) by (auto simp: apply_input_ok_def addressed_def)
  ultimately have "table w3 = table w" "bgp_frame R2 R3" using reconcileBGP_spec [OF b assms(2)] by blast+
  moreover have "rulesetKeyValid R3" "lastRulesetKey R3 = lastRulesetKey R"
    using bgp_frameD [OF \<open>bgp_frame R2 R3\<close>] key by simp_all
  ultimately show ?thesis using prog b unch by (auto simp: program_host_def apply_nft_def split: if_splits)
qed

lemma overtaken_load:
  assumes "ok w" "host_inv addrs table R w" "\<not> rulesetKeyValid R"
    and "NftApply d ms w = (None, w1)"
    and "apply_input_ok (ReadBackup d w1) all1 source1 R"
    and "applyMappingsTimed d all1 source1 (R, w1) = (None, R1, w2)"
    and "R2 = (record_ruleset ms R1)\<lparr>store := st\<rparr>"
    and "apply_input_ok (ReadBackup d w2) all2 source2 R2"
    and "sortMappings (wanted (ReadBackup d w2) all2 source2 R2) = ms"
    and "applyMappingsTimed d all2 source2 (R2, w2) = (err, R3, w3)"
  shows "err = None \<and> table w3 = Some (render (sortMappings (wanted (ReadBackup d w1) all1 source1 R)))"
proof -
  have w1: "ok w1" "addrs w1 = addrs w" using nf.apply_rules [OF assms(1,4)] apply_addrs [OF assms(1,4)] by simp_all
  have "host_inv addrs table R w1" using assms(2,3) w1(2) by (simp add: host_inv_def adv_inv_def nft_inv_def)
  note A = apply_spec [OF assms(6) w1(1) this assms(5)]
  have "adv_inv addrs R2 w2" using A assms(7) by (simp add: host_inv_def adv_inv_def record_ruleset_def)
  moreover have "rulesetKeyValid R2" "lastRulesetKey R2 = rulesetKey ms" using assms(7) by (simp_all add: record_ruleset_def)
  ultimately show ?thesis
    using A skipped_apply [OF assms(10) _ _ assms(8)] by (simp add: assms(9))
qed

end

text \<open>
  An apply that overtakes the fallback's between load and record. The fallback has loaded its
  ruleset \<open>ms\<close>; a handler applies and loads another; the fallback then records the fingerprint
  of \<open>ms\<close>. Whenever the VMs change so that \<open>ms\<close> is wanted again, the apply reports success
  and skips the load: the table still is the handler's.
\<close>

lemma unlocked_fallback_leaves_stale_rules:
  assumes "live_host exec m h fetch addrs table" and "host_inv addrs table R w" and "\<not> rulesetKeyValid R"
    and "NftApply (live_deps exec m h fetch rd) ms w = (None, w1)"
    and "apply_input_ok (rd w1) all1 source1 R"
    and "applyMappingsTimed (live_deps exec m h fetch rd) all1 source1 (R, w1) = (None, R1, w2)"
    and "R2 = (record_ruleset ms R1)\<lparr>store := st\<rparr>"
    and "apply_input_ok (rd w2) all2 source2 R2" and "sortMappings (wanted (rd w2) all2 source2 R2) = ms"
    and "applyMappingsTimed (live_deps exec m h fetch rd) all2 source2 (R2, w2) = (err, R3, w3)"
  shows "err = None \<and> table w3 = Some (render (sortMappings (wanted (rd w1) all1 source1 R)))"
  using live.overtaken_load [OF assms(1-4) _ assms(6,7) _ _ assms(10)] assms(5,8,9) by simp

section \<open>A run of the threads\<close>

text \<open>
  So it happens to VM 101, which migrates to this node while NetBox is down: the fallback sees
  no active VM and loads an empty table; the handler of the \<open>synced\<close> event loads the rule of the
  VM; the fallback records the fingerprint of the empty table.
\<close>

definition race_rec :: Reconciler where
  "race_rec = target101\<lparr>kernelSynced := True\<rparr>"

definition race_host :: sim where
  "race_host = sim1\<lparr>sim_quads := [anycast], sim_netbox := Inl (Errorf ''connection refused'')\<rparr>"

lemma race_simps:
  "store race_rec = New_Store" "advertisedIPs race_rec = []" "kernelSynced race_rec" "\<not> rulesetKeyValid race_rec"
  "backup race_rec = newBackupStore" "mappingCacheReady race_rec" "node race_rec = ''pve2''" "\<not> reconcileCh race_rec"
  "unresolvedStreak race_rec = 0" "cachedMappings race_rec = [web2]" "lastAppliedByVMID race_rec = []"
  by (simp_all add: race_rec_def target101_def rebuildMappingCache_def cachedMappings_def)
    (simp_all add: newReconciler_def group_mappings_def mappend_def mgetd_def web2_def web_mapping_def)

lemma race_sound: "daemon_inv {V4 203 0 113 2} sim_rd sim_addrs sim_table race_rec race_host"
proof -
  have "daemon_inv {V4 203 0 113 2} sim_rd sim_addrs sim_table (newReconciler ''pve2'' New_Store) race_host"
    using sim_rd_ok(2) by (intro daemon_inv_new sim_rd_ok(1)) (metis owned_web2)
  from daemon_inv_rebuild [OF this, of "[web2]"] owned_web2
  have "daemon_inv {V4 203 0 113 2} sim_rd sim_addrs sim_table target101 race_host" by (simp add: target101_def)
  then show ?thesis
    by (simp add: race_rec_def daemon_inv_def cache_inv_def data_ok_def cachedMappings_def host_inv_def adv_inv_def nft_inv_def)
qed

lemma fallback_goes_on:
  "job_step d [] sourceBackupFallback g s = (Some h, s') \<Longrightarrow>
   reaches d (unlocked (Fallback g) hs s) (unlocked (Fallback h) hs s')"
  using reaches_step [OF tstep.fallback_step [of "unlocked (Fallback g) hs s" g d "Some h" "fst s'" "snd s'"]]
  by (simp add: unlocked_def)

definition race_plan :: plan where
  "race_plan = \<lparr>pl_rules = [], pl_ips = [], pl_applied = [], pl_unchanged = False, pl_first = True\<rparr>"

abbreviation race_stage :: "act list \<Rightarrow> loop" where
  "race_stage acts \<equiv> Fallback (Programming race_plan [] acts)"

abbreviation race_loaded :: sim where
  "race_loaded \<equiv> race_host\<lparr>sim_table := Some (render [])\<rparr>"

lemma fallback_loads:
  "reaches (sim_live sim_rd) (quiet race_rec race_host) (unlocked (race_stage [RecordKey, Remember]) [] (race_rec, race_loaded))"
proof -
  let ?d = "sim_live sim_rd" and ?R = "TriggerReconcile race_rec"
  let ?r = "\<lparr>res_applied = [], res_nft = [], res_bgp = [], res_backup = newBackupStore, res_retained = 0, res_unresolved = 0\<rparr>"
  have same: "race_rec\<lparr>reconcileCh := False\<rparr> = race_rec" "race_rec\<lparr>unresolvedStreak := 0\<rparr> = race_rec"
    using race_simps(8,9) by (cases race_rec; simp)+
  have none: "GetActive New_Store = []" by (simp add: GetActive_def New_Store_def)
  have 1: "reaches ?d (quiet race_rec race_host) (quiet ?R race_host)"
    using reaches_step [OF tstep.trigger [of ?d "quiet race_rec race_host"]] by (simp add: unlocked_def)
  have 2: "reaches ?d (quiet ?R race_host) (unlocked (Fetched (Inl (Errorf ''connection refused''))) [] (race_rec, race_host))"
    using reaches_step [OF tstep.fetch [of "quiet ?R race_host" ?d "Inl (Errorf ''connection refused'')" race_host]] same(1)
    by (simp add: unlocked_def TriggerReconcile_def sim_simps race_host_def)
  have 3: "reaches ?d (unlocked (Fetched (Inl (Errorf ''connection refused''))) [] (race_rec, race_host))
      (unlocked (Fallback (start_job [] sourceBackupFallback race_rec)) [] (race_rec, race_host))"
    using reaches_step [OF tstep.fallback [of "unlocked (Fetched (Inl (Errorf ''connection refused''))) [] (race_rec, race_host)" _ ?d]]
    by (simp add: unlocked_def)
  have 4: "reaches ?d (unlocked (Fallback (start_job [] sourceBackupFallback race_rec)) [] (race_rec, race_host))
      (unlocked (Fallback (Deciding ?r)) [] (race_rec, race_host))"
    by (rule fallback_goes_on) (simp add: start_job_def none race_simps same(2))
  have 5: "reaches ?d (unlocked (Fallback (Deciding ?r)) [] (race_rec, race_host)) (unlocked (Fallback (Managing race_plan)) [] (race_rec, race_host))"
    by (rule fallback_goes_on) (simp add: race_simps race_plan_def sortMappings_def hasNewAdvertisements_def Let_def)
  have 6: "reaches ?d (unlocked (Fallback (Managing race_plan)) [] (race_rec, race_host))
      (unlocked (race_stage [ConvergeBGP, LoadRules, Remember]) [] (race_rec, race_host))"
    by (rule fallback_goes_on) (simp add: race_simps race_plan_def plan_acts_def)
  have 7: "reaches ?d (unlocked (race_stage [ConvergeBGP, LoadRules, Remember]) [] (race_rec, race_host))
      (unlocked (race_stage [LoadRules, Remember]) [] (race_rec, race_host))"
    by (rule fallback_goes_on) (simp add: race_simps race_plan_def reconcileBGP_def Let_def)
  have 8: "reaches ?d (unlocked (race_stage [LoadRules, Remember]) [] (race_rec, race_host))
      (unlocked (race_stage [RecordKey, Remember]) [] (race_rec, race_loaded))"
    by (rule fallback_goes_on) (simp add: race_plan_def sim_simps race_host_def sim1_def)
  show ?thesis
    by (rule reaches_trans [OF 1 reaches_trans [OF 2 reaches_trans [OF 3 reaches_trans [OF 4 reaches_trans [OF 5
        reaches_trans [OF 6 reaches_trans [OF 7 8]]]]]]])
qed

lemma synced_here:
  "placement_of ''pve2'' [] evt_synced = Handover True False"
  "event_time 9 evt_synced = time_Unix 1704067200 0" "EvtVMID (CEData evt_synced) = 101" "EvtName (CEData evt_synced) = ''web''"
  using nodes12 by (simp_all add: placement_of_def evt_synced_def evt0_def event_time_def parseEventTime_def evt_time)

text \<open>The handler runs as a whole while the fallback is between its load and its record.\<close>

lemma handler_overtakes:
  "\<exists>R1 w1. HandleEvent (sim_live sim_rd) 9 [] evt_synced (race_rec, race_loaded) = (R1, w1) \<and>
     store R1 = SetActive 101 ''web'' (time_Unix 1704067200 0) New_Store \<and> node R1 = ''pve2'' \<and> kernelSynced R1 \<and>
     advertisedIPs R1 = [V4 203 0 113 2] \<and> sim_addrs w1 = {quad_addr anycast, V4 203 0 113 2} \<and>
     sim_table w1 = Some (render [web2]) \<and> sim_netbox w1 = Inl (Errorf ''connection refused'')"
proof -
  let ?d = "sim_live sim_rd" and ?src = "sourceCached ''migration-synced-cache''"
  define st where "st = SetActive 101 ''web'' (time_Unix 1704067200 0) New_Store"
  let ?R = "race_rec\<lparr>store := st\<rparr>"
  obtain err R2 w2 where call: "applyMappingsTimed ?d [web2] ?src (?R, race_loaded) = (err, R2, w2)" by (metis prod.exhaust)
  have "cachedMappings ?R = [web2]" using race_simps(10) by (simp add: cachedMappings_def)
  then have handled: "HandleEvent ?d 9 [] evt_synced (race_rec, race_loaded) = (verifyLater R2, w2)"
    using call by (simp add: HandleEvent_as synced_here race_simps cutover_def applyCachedImmediately_def st_def)
  have "active_ids ?R = [101]"
    by (simp add: active_ids_def st_def SetActive_def store_set_def New_Store_def GetActive_def)
  then have wanted: "wanted sim_rd [web2] ?src ?R = [web2]"
    by (simp add: wanted_def wanted_vm_def vm_mappings_def web2_def web_mapping_def)
  have wf: "store_wf (store ?R)" by (simp add: st_def SetActive_def store_wf_store_set store_wf_New)
  let ?r = "resolve_all sim_rd [web2] ?src ?R"
  note r = resolve_all_spec [OF wf, where rd = sim_rd and allMappings = "[web2]" and source = ?src, unfolded wanted]
  have bgp: "res_bgp ?r = [V4 203 0 113 2]"
    using r(2,3) singleton_list [of "res_bgp ?r"] by (simp add: web2_def)
  obtain first R3 where prog: "program_host ?d False first [web2] [V4 203 0 113 2] [] (res_applied ?r) (R3, race_loaded) = (err, R2, w2)"
    and R3: "advertisedIPs R3 = []" "kernelSynced R3"
    by (rule apply_decompose [OF call])
      (auto simp: r(1) bgp sortMappings_def managed_of_def race_simps)
  have "kernelSynced R2 \<and> advertisedIPs R2 = [V4 203 0 113 2] \<and> sim_addrs w2 = {quad_addr anycast, V4 203 0 113 2} \<and>
      sim_table w2 = Some (render [web2]) \<and> sim_netbox w2 = Inl (Errorf ''connection refused'')"
    using prog R3
    by (auto simp: program_host_def apply_nft_def reconcileBGP_def sim_simps race_host_def sim1_def anycast_def
        sim_addrs_def split: if_splits)
  moreover have "apply_frame ?R R2" using apply_reconciler [OF call wf refl] by blast
  note F = apply_frameD [OF this]
  have "store R2 = st" "node R2 = ''pve2''" using F by (simp_all add: race_simps)
  ultimately show ?thesis using handled by (auto simp: verifyLater_def st_def)
qed

text \<open>The VM is stopped, and the next fetch fails again.\<close>

definition evt_stop :: CloudEvent where
  "evt_stop = evt0\<lparr>CEData := (CEData evt0)\<lparr>EvtAction := ''stop'', EvtPhase := ''finished'', EvtNode := ''pve2'',
     EvtTargetNode := []\<rparr>\<rparr>"

lemma stopped_here:
  assumes "node R = ''pve2''" and "store R = SetActive 101 ''web'' (time_Unix 1704067200 0) New_Store"
  shows "\<exists>st. HandleEvent d 9 [] evt_stop (R, w) = (TriggerReconcile (R\<lparr>store := st\<rparr>), w) \<and> store_wf st \<and> GetActive st = []"
proof -
  let ?st = "SetAbsent 101 (time_Unix 1704067200 0) (store R)"
  have "placement_of ''pve2'' [] evt_stop = Stopped" using nodes12 by (simp add: placement_of_def evt_stop_def evt0_def)
  moreover have "event_time 9 evt_stop = time_Unix 1704067200 0" "EvtVMID (CEData evt_stop) = 101"
    by (simp_all add: event_time_def evt_stop_def evt0_def parseEventTime_def evt_time)
  ultimately have "HandleEvent d 9 [] evt_stop (R, w) = (TriggerReconcile (R\<lparr>store := ?st\<rparr>), w)"
    by (simp add: HandleEvent_as assms(1))
  moreover have "store_wf (store R)" by (simp add: assms(2) SetActive_def store_wf_store_set store_wf_New)
  then have "store_wf ?st" by (simp add: SetAbsent_def store_wf_store_set)
  moreover have "GetActive ?st = []"
    by (simp add: assms(2) SetAbsent_def SetActive_def store_set_def New_Store_def GetActive_def After_def)
  ultimately show ?thesis by blast
qed

lemma fallback_records:
  "reaches d (unlocked (race_stage [RecordKey, Remember]) [] (R, w))
     (quiet (R\<lparr>lastRulesetKey := rulesetKey [], rulesetKeyValid := True, lastAppliedByVMID := []\<rparr>) w)"
proof -
  let ?R2 = "R\<lparr>lastRulesetKey := rulesetKey [], rulesetKeyValid := True\<rparr>"
  let ?R3 = "?R2\<lparr>lastAppliedByVMID := []\<rparr>"
  have 1: "reaches d (unlocked (race_stage [RecordKey, Remember]) [] (R, w)) (unlocked (race_stage [Remember]) [] (?R2, w))"
    by (rule fallback_goes_on) (simp add: race_plan_def)
  have 2: "reaches d (unlocked (race_stage [Remember]) [] (?R2, w)) (unlocked (race_stage []) [] (?R3, w))"
    by (rule fallback_goes_on) (simp add: race_plan_def)
  have 3: "reaches d (unlocked (race_stage []) [] (?R3, w)) (quiet ?R3 w)"
    by (rule fallback_run [of "Suc 0"]) simp
  show ?thesis by (rule reaches_trans [OF 1 reaches_trans [OF 2 3]])
qed

text \<open>With no VM left, and the fingerprint of the empty table, a failed fetch loads nothing.\<close>

lemma nothing_is_loaded:
  assumes "rulesetKeyValid R" "lastRulesetKey R = rulesetKey []" "kernelSynced R" "store_wf (store R)" "GetActive (store R) = []"
    and "adv_inv sim_addrs R w" "sim_netbox w = Inl err" "reconcileCh R"
  shows "\<exists>R' w'. reaches (sim_live sim_rd) (quiet R w) (quiet R' w') \<and> active_ids R' = [] \<and> \<not> reconcileCh R' \<and>
    rulesetKeyValid R' \<and> lastRulesetKey R' = rulesetKey [] \<and> sim_table w' = sim_table w"
proof -
  let ?d = "sim_live sim_rd" and ?R = "R\<lparr>reconcileCh := False\<rparr>"
  have 1: "reaches ?d (quiet R w) (unlocked (Fetched (Inl err)) [] (?R, w))"
    using reaches_step [OF tstep.fetch [of "quiet R w" ?d "Inl err" w]] assms(7,8) by (simp add: unlocked_def sim_simps)
  obtain e R' w' where call: "applyMappingsTimed ?d [] sourceBackupFallback (?R, w) = (e, R', w')" by (metis prod.exhaust)
  then have 2: "reaches ?d (unlocked (Fetched (Inl err)) [] (?R, w)) (quiet R' w')"
    by (intro finish_run [of _ 0 _ _ _ e]) (simp add: finish_reconcile_def applyMappings_def)
  have none: "wanted sim_rd [] sourceBackupFallback ?R = []" by (simp add: wanted_def active_ids_def assms(5))
  have inv: "adv_inv sim_addrs ?R w" using assms(6) by (simp add: adv_inv_def)
  have input: "apply_input_ok sim_rd [] sourceBackupFallback ?R"
    unfolding apply_input_ok_def none by (simp add: assms(3,4) managed_of_def)
  have "sim_table w' = sim_table w \<and> rulesetKeyValid R' \<and> lastRulesetKey R' = rulesetKey []"
    using live.skipped_apply [OF call sim_host inv _ _] input none assms(1,2) by (simp add: sortMappings_def)
  moreover have "apply_frame ?R R'" using apply_reconciler [OF call _ refl] assms(4) by simp
  note F = apply_frameD [OF this]
  have "active_ids R' = []" "\<not> reconcileCh R'" using F by (simp_all add: active_ids_def assms(5))
  ultimately show ?thesis using reaches_trans [OF 1 2] by blast
qed

text \<open>
  C40: The rule of a departed VM stays. From a sound state, by steps that all succeed but the two
  fetches, the daemon comes to rest with no VM on the node and the rule of VM 101 loaded; it
  takes the table for empty, and no later apply for no VM loads one.
\<close>

theorem departed_vm_keeps_its_rule:
  "\<exists>R w. reaches (sim_live sim_rd) (quiet race_rec race_host) (quiet R w) \<and> active_ids R = [] \<and> \<not> reconcileCh R \<and>
     rulesetKeyValid R \<and> lastRulesetKey R = rulesetKey [] \<and> sim_table w = Some (render [web2])"
proof -
  let ?d = "sim_live sim_rd"
  obtain R1 w1 where h: "HandleEvent ?d 9 [] evt_synced (race_rec, race_loaded) = (R1, w1)"
    and R1: "store R1 = SetActive 101 ''web'' (time_Unix 1704067200 0) New_Store" "node R1 = ''pve2''" "kernelSynced R1"
      "advertisedIPs R1 = [V4 203 0 113 2]"
    and w1: "sim_addrs w1 = {quad_addr anycast, V4 203 0 113 2}" "sim_table w1 = Some (render [web2])"
      "sim_netbox w1 = Inl (Errorf ''connection refused'')"
    using handler_overtakes by blast
  let ?R2 = "R1\<lparr>lastRulesetKey := rulesetKey [], rulesetKeyValid := True, lastAppliedByVMID := []\<rparr>"
  have 2: "reaches ?d (unlocked (race_stage [RecordKey, Remember]) [] (race_rec, race_loaded))
      (unlocked (race_stage [RecordKey, Remember]) [] (R1, w1))"
    using event_run [of ?d "race_stage [RecordKey, Remember]" race_rec race_loaded 9 "[]" evt_synced] by (simp add: h)
  obtain st where stop: "HandleEvent ?d 9 [] evt_stop (?R2, w1) = (TriggerReconcile (?R2\<lparr>store := st\<rparr>), w1)"
    and st: "store_wf st" "GetActive st = []"
    using stopped_here [of ?R2 ?d w1] R1(1,2) by auto
  let ?R3 = "TriggerReconcile (?R2\<lparr>store := st\<rparr>)"
  have 3: "reaches ?d (quiet ?R2 w1) (quiet ?R3 w1)"
    using event_run [of ?d Selecting ?R2 w1 9 "[]" evt_stop] by (simp only: stop)
  have "adv_inv sim_addrs ?R3 w1" by (simp add: adv_inv_def TriggerReconcile_def R1(4) w1(1))
  from nothing_is_loaded [OF _ _ _ _ _ this w1(3)] obtain R w where 4: "reaches ?d (quiet ?R3 w1) (quiet R w)"
    and "active_ids R = []" "\<not> reconcileCh R" "rulesetKeyValid R" "lastRulesetKey R = rulesetKey []" "sim_table w = sim_table w1"
    by (auto simp: TriggerReconcile_def R1(3) st)
  then show ?thesis
    using w1(2) reaches_trans [OF fallback_loads reaches_trans [OF 2 reaches_trans [OF fallback_records reaches_trans [OF 3 4]]]]
    by auto
qed

end
