(* ===== verification/Go_Duration.thy ===== *)
theory Go_Duration
  imports Go_Float
begin

text \<open>
  \<open>time.ParseDuration\<close> of Go's standard library, which reads \<open>reconcile_interval\<close>: an
  optional sign and a sequence of decimal numbers with a unit, or a single \<open>0\<close>. The sum is
  kept in a \<open>uint64\<close>; fractions are counted in \<open>float64\<close>.
\<close>

section \<open>Arithmetic on float64\<close>

text \<open>A non-negative \<open>float64\<close> as in \<open>Go_Float\<close>; none is infinity.\<close>

type_synonym ufloat = "(nat \<times> int) option"

definition numer :: "nat \<times> int \<Rightarrow> nat" where "numer f = fst f * 2 ^ nat (snd f)"
definition denom :: "nat \<times> int \<Rightarrow> nat" where "denom f = 2 ^ nat (- snd f)"

definition float_of :: "nat \<Rightarrow> ufloat" where "float_of n = nearest_float n 1"

fun float_mul :: "ufloat \<Rightarrow> ufloat \<Rightarrow> ufloat" where
  "float_mul (Some a) (Some b) = nearest_float (numer a * numer b) (denom a * denom b)"
| "float_mul _ _ = None"

fun float_quot :: "ufloat \<Rightarrow> ufloat \<Rightarrow> ufloat" where
  "float_quot (Some a) (Some b) = nearest_float (numer a * denom b) (denom a * numer b)"
| "float_quot (Some a) None = Some (0, 0)"
| "float_quot None _ = None"

text \<open>The conversion to \<open>uint64\<close>, for values in its range.\<close>

definition float_trunc :: "ufloat \<Rightarrow> nat" where
  "float_trunc f = (case f of None \<Rightarrow> 0 | Some a \<Rightarrow> numer a div denom a)"

text \<open>The power of ten behind \<open>k\<close> digits, rounded at each step.\<close>

definition power_of_ten :: "nat \<Rightarrow> ufloat" where
  "power_of_ten k = (float_mul (float_of 10) ^^ k) (float_of 1)"

section \<open>Numbers and units\<close>

definition decimal :: "string \<Rightarrow> int" where
  "decimal s = foldl (\<lambda>a c. 10 * a + int (digit_val c)) 0 s"

text \<open>The digits before the point, an error above $2^{63}$.\<close>

definition leadingInt :: "string \<Rightarrow> (int \<times> string) option" where
  "leadingInt s =
     (let v = decimal (takeWhile is_digit s)
      in if 2 ^ 63 < v then None else Some (v, dropWhile is_digit s))"

text \<open>The digits behind the point, as long as they fit, and their number.\<close>

fun fraction_digits :: "int \<Rightarrow> nat \<Rightarrow> string \<Rightarrow> int \<times> nat" where
  "fraction_digits x k [] = (x, k)"
| "fraction_digits x k (c # cs) =
     (if (2 ^ 63 - 1) div 10 < x \<or> 2 ^ 63 < 10 * x + int (digit_val c) then (x, k)
      else fraction_digits (10 * x + int (digit_val c)) (Suc k) cs)"

definition unit_of :: "string \<Rightarrow> int option" where
  "unit_of u = map_of
     [(''ns'', 1), (''us'', 1000), ([CHR 0xC2, CHR 0xB5, CHR ''s''], 1000),
      ([CHR 0xCE, CHR 0xBC, CHR ''s''], 1000), (''ms'', 1000000), (''s'', 1000000000),
      (''m'', 60000000000), (''h'', 3600000000000)] u"

definition number_char :: "char \<Rightarrow> bool" where
  "number_char c \<longleftrightarrow> c = CHR ''.'' \<or> is_digit c"

text \<open>What a fraction \<open>f / 10 ^ k\<close> of a unit is worth.\<close>

definition fraction_value :: "int \<Rightarrow> nat \<Rightarrow> int \<Rightarrow> int" where
  "fraction_value f k un =
     (if f = 0 then 0
      else int (float_trunc (float_mul (float_of (nat f)) (float_quot (float_of (nat un)) (power_of_ten k)))))"

text \<open>One number with its unit, in nanoseconds, and the rest.\<close>

definition duration_part :: "string \<Rightarrow> (int \<times> string) option" where
  "duration_part s =
     (if s = [] \<or> \<not> number_char (hd s) then None
      else case leadingInt s of
        None \<Rightarrow> None
      | Some (v, s1) \<Rightarrow>
          (let pre = s1 \<noteq> s; point = HasPrefix s1 ''.'';
               ds = (if point then takeWhile is_digit (tl s1) else []);
               s2 = (if point then dropWhile is_digit (tl s1) else s1);
               (f, k) = fraction_digits 0 0 ds;
               u = takeWhile (\<lambda>c. \<not> number_char c) s2; s3 = dropWhile (\<lambda>c. \<not> number_char c) s2
           in if \<not> pre \<and> ds = [] \<or> u = [] then None
              else case unit_of u of
                None \<Rightarrow> None
              | Some un \<Rightarrow>
                  (if 2 ^ 63 div un < v then None
                   else let v1 = v * un + fraction_value f k un
                        in if 2 ^ 63 < v1 then None else Some (v1, s3))))"

lemma duration_part_shorter: "duration_part s = Some (v, r) \<Longrightarrow> length r < length s"
proof -
  assume a: "duration_part s = Some (v, r)"
  obtain s1 s2 where s: "s2 = (if HasPrefix s1 ''.'' then dropWhile is_digit (tl s1) else s1)" "s1 = dropWhile is_digit s"
    and r: "r = dropWhile (\<lambda>c. \<not> number_char c) s2" "takeWhile (\<lambda>c. \<not> number_char c) s2 \<noteq> []"
    using a by (auto simp: duration_part_def leadingInt_def Let_def split: if_splits option.splits prod.splits)
  have "length s2 = length (takeWhile (\<lambda>c. \<not> number_char c) s2) + length r"
    unfolding r(1) by (metis length_append takeWhile_dropWhile_id)
  then have "length r < length s2" using r(2) by simp
  moreover have "length s2 \<le> length s1"
    using s(1) length_dropWhile_le [of is_digit "tl s1"] by (auto split: if_splits)
  moreover have "length s1 \<le> length s" using s(2) by (simp add: length_dropWhile_le)
  ultimately show ?thesis by simp
qed

function duration_parts :: "int \<Rightarrow> string \<Rightarrow> int option" where
  "duration_parts d s =
     (if s = [] then Some d
      else case duration_part s of
        None \<Rightarrow> None
      | Some (v, rest) \<Rightarrow>
          (let d1 = (d + v) mod 2 ^ 64
           in if 2 ^ 63 < d1 then None else duration_parts d1 rest))"
  by pat_completeness auto
termination
  by (relation "measure (length \<circ> snd)") (auto dest: duration_part_shorter)

declare duration_parts.simps [simp del]

definition ParseDuration :: "string \<Rightarrow> duration option" where
  "ParseDuration orig =
     (let neg = HasPrefix orig ''-'';
          s = (if neg \<or> HasPrefix orig ''+'' then tl orig else orig)
      in if s = ''0'' then Some 0
         else if s = [] then None
         else case duration_parts 0 s of
           None \<Rightarrow> None
         | Some d \<Rightarrow> if neg then Some (- d) else if 2 ^ 63 - 1 < d then None else Some d)"

lemma duration_examples:
  "ParseDuration ''60s'' = Some (60 * second)"
  "ParseDuration ''1h15m'' = Some (75 * minute)"
  "ParseDuration ''-5m'' = Some (- 5 * minute)"
  "ParseDuration ''0'' = Some 0"
  "ParseDuration ''60'' = None" "ParseDuration ''1d'' = None" "ParseDuration [] = None"
  by code_simp+

section \<open>What is read\<close>

text \<open>A parsed duration fits an \<open>int64\<close>.\<close>

lemma duration_parts_range:
  "duration_parts d s = Some r \<Longrightarrow> 0 \<le> d \<Longrightarrow> d \<le> 2 ^ 63 \<Longrightarrow> 0 \<le> r \<and> r \<le> 2 ^ 63"
proof (induction d s rule: duration_parts.induct)
  case (1 d s)
  show ?case
  proof (cases "s = []")
    case False
    then obtain v rest where p: "duration_part s = Some (v, rest)"
      using 1(2) by (subst (asm) duration_parts.simps) (auto split: option.splits)
    show ?thesis
      using 1(2-4) False 1(1) [OF False p refl refl] unfolding duration_parts.simps [of d s] p
      by (auto simp: Let_def split: if_splits)
  qed (use 1 in \<open>simp add: duration_parts.simps\<close>)
qed

lemma ParseDuration_int64: "ParseDuration s = Some d \<Longrightarrow> in_int64 d"
  using duration_parts_range [of 0]
  by (fastforce simp: ParseDuration_def in_int64_def Let_def split: if_splits option.splits)

text \<open>Whole numbers with their units add up.\<close>

definition spell :: "(nat \<times> string) list \<Rightarrow> string" where
  "spell ps = concat (map (\<lambda>(n, u). dec n @ u) ps)"

definition worth :: "(nat \<times> string) list \<Rightarrow> int" where
  "worth ps = sum_list (map (\<lambda>(n, u). int n * the (unit_of u)) ps)"

definition units_ok :: "(nat \<times> string) list \<Rightarrow> bool" where
  "units_ok ps \<longleftrightarrow> list_all (\<lambda>(n, u). unit_of u \<noteq> None) ps"

lemma unit_of_letters: "unit_of u = Some n \<Longrightarrow> u \<noteq> [] \<and> (\<forall>c \<in> set u. \<not> number_char c) \<and> 0 < n"
  by (auto simp: unit_of_def number_char_def is_digit_def split: if_splits)

lemma decimal_dec: "decimal (dec n) = int n"
proof -
  have "foldl (\<lambda>a c. 10 * a + int (digit_val c)) (int k) s = int (foldl (\<lambda>a c. 10 * a + digit_val c) k s)" for k s
  proof (induction s arbitrary: k)
    case (Cons a s)
    from Cons.IH [of "10 * k + digit_val a"] show ?case by simp
  qed simp
  from this [of 0 "dec n"] show ?thesis by (simp add: decimal_def dec_val_def [symmetric])
qed

lemma worth_nonneg: "units_ok ps \<Longrightarrow> 0 \<le> worth ps"
  unfolding worth_def units_ok_def
  by (rule sum_list_nonneg) (fastforce simp: list_all_iff dest: unit_of_letters)

lemma duration_part_whole:
  assumes "unit_of u = Some un" "int n * un \<le> 2 ^ 63" "rest = [] \<or> is_digit (hd rest)"
  shows "duration_part (dec n @ u @ rest) = Some (int n * un, rest)"
proof -
  note u = unit_of_letters [OF assms(1)]
  obtain c cs where c: "u = c # cs" using u by (cases u) auto
  have nd: "\<not> is_digit c" "c \<noteq> CHR ''.''" using u c by (auto simp: number_char_def)
  have ds: "\<forall>x \<in> set (dec n). is_digit x" using dec_digits [of n] by (simp add: list_all_iff)
  have "takeWhile is_digit (dec n @ u @ rest) = dec n" "dropWhile is_digit (dec n @ u @ rest) = u @ rest"
    using ds nd(1) c by (simp_all add: takeWhile_append dropWhile_append)
  moreover have "int n \<le> 2 ^ 63" using assms(2) u
    by (metis int_ops(2) mult.right_neutral mult_left_mono of_nat_0_le_iff order_trans zless_imp_add1_zle add_0 of_nat_1)
  ultimately have lead: "leadingInt (dec n @ u @ rest) = Some (int n, u @ rest)"
    by (simp add: leadingInt_def decimal_dec)
  have "hd rest = x \<Longrightarrow> rest \<noteq> [] \<Longrightarrow> number_char x" for x using assms(3) by (auto simp: number_char_def)
  then have unit: "takeWhile (\<lambda>c. \<not> number_char c) (u @ rest) = u" "dropWhile (\<lambda>c. \<not> number_char c) (u @ rest) = rest"
    using u by (cases rest; auto simp: takeWhile_append dropWhile_append)+
  have "hd (dec n @ u @ rest) = hd (dec n)" by simp
  then have "number_char (hd (dec n @ u @ rest))" using dec_hd_digit [of n] by (simp add: number_char_def)
  moreover have "int n \<le> 2 ^ 63 div un" using zdiv_mono1 [OF assms(2), of un] u by simp
  moreover have "\<not> HasPrefix (u @ rest) ''.''" using c nd(2) by (simp add: HasPrefix_def)
  ultimately show ?thesis
    using lead unit u assms(1,2) by (simp add: duration_part_def Let_def fraction_value_def)
qed

lemma duration_parts_whole:
  "units_ok ps \<Longrightarrow> 0 \<le> d \<Longrightarrow> d + worth ps \<le> 2 ^ 63 \<Longrightarrow> duration_parts d (spell ps) = Some (d + worth ps)"
proof (induction ps arbitrary: d)
  case (Cons p ps)
  obtain n u where p: "p = (n, u)" by (cases p)
  obtain un where un: "unit_of u = Some un" "units_ok ps" using Cons.prems(1) p by (auto simp: units_ok_def)
  have worth: "worth (p # ps) = int n * un + worth ps" "spell (p # ps) = dec n @ u @ spell ps"
    by (simp_all add: worth_def spell_def p un)
  have "0 \<le> int n * un" using unit_of_letters [OF un(1)] by simp
  then have le: "int n * un \<le> 2 ^ 63" "d + int n * un \<le> 2 ^ 63" "0 \<le> d + int n * un"
    using Cons.prems worth(1) worth_nonneg [OF un(2)] by simp_all
  have "spell ps = [] \<or> is_digit (hd (spell ps))"
    using dec_hd_digit by (cases ps) (auto simp: spell_def split: prod.splits)
  note part = duration_part_whole [OF un(1) le(1) this]
  have "(d + int n * un) mod 2 ^ 64 = d + int n * un" using le by (intro mod_pos_pos_trivial) simp_all
  moreover have "duration_parts (d + int n * un) (spell ps) = Some (d + int n * un + worth ps)"
    using Cons.IH [OF un(2) le(3)] Cons.prems(3) worth(1) by simp
  ultimately show ?case
    using le(2) by (simp add: duration_parts.simps [of d] worth part Let_def)
qed (simp add: spell_def worth_def duration_parts.simps)

lemma ParseDuration_whole:
  assumes "units_ok ps" "ps \<noteq> []" "worth ps < 2 ^ 63"
  shows "ParseDuration (spell ps) = Some (worth ps)"
proof -
  obtain n u qs where ps: "ps = (n, u) # qs" using assms(2) by (cases ps) auto
  then obtain un where u: "unit_of u = Some un" using assms(1) by (auto simp: units_ok_def)
  obtain c cs where d: "dec n = c # cs" "c \<noteq> CHR ''-'' \<and> c \<noteq> CHR ''+''"
    using dec_hd_digit [of n] is_digit_not_sign by (cases "dec n") auto
  have spell: "spell ps = c # cs @ u @ spell qs" by (simp add: ps spell_def d)
  have "u \<noteq> []" using unit_of_letters [OF u] by blast
  then have "spell ps \<noteq> ''0''" "spell ps \<noteq> []" by (simp_all add: spell)
  moreover have "\<not> HasPrefix (spell ps) ''-''" "\<not> HasPrefix (spell ps) ''+''" using d(2) by (auto simp: spell HasPrefix_def)
  moreover have "duration_parts 0 (spell ps) = Some (worth ps)" using duration_parts_whole [of ps 0] assms by simp
  ultimately show ?thesis using assms(3) unfolding ParseDuration_def Let_def by simp
qed

end
