(* ===== verification/Program.thy ===== *)
theory Program
  imports System Interleaving Go_Duration
begin

text \<open>
  The whole of \<open>main\<close>: the flags, the configuration, the interval, the wiring of the managers
  and of the NetBox client from the configuration, the start, the entry of \<open>Run\<close>. With the
  threads of \<open>Interleaving\<close> and the shutdown behind it, the properties here are about a process
  from its start to its end.
\<close>

section \<open>The platform\<close>

text \<open>What the process finds around it: viper, files and environment; the NATS connection; the
  \<open>ip\<close>, \<open>vtysh\<close> and \<open>nft\<close> commands; HTTP; the backup directory.\<close>

record 'w platform =
  PViper :: viper
  PReadFile :: "string \<Rightarrow> gerror + string"
  PGetenv :: "string \<Rightarrow> string"
  PDial :: "string \<Rightarrow> 'w \<Rightarrow> gerror option \<times> 'w"
  PConn :: "'w conn"
  PExec :: "'w exec"
  PNft :: "'w nft_host"
  PURLError :: "string \<Rightarrow> gerror option"
  PDo :: "http_request \<Rightarrow> 'w \<Rightarrow> (gerror + http_response) \<times> 'w"
  PCancelled :: "'w \<Rightarrow> gerror \<times> 'w"
  PReadBackup :: "int \<Rightarrow> read_result"
  PBackupDir :: dir_result
  PReadName :: "string \<Rightarrow> bytes option"

definition frrMgr :: "Config \<Rightarrow> Manager" where
  "frrMgr cfg = New_Frr (FRREnabled (FRR cfg)) (LoopbackInterface (FRR cfg))"

definition nbClient :: "'w platform \<Rightarrow> Config \<Rightarrow> 'w Client" where
  "nbClient p cfg = NewClient (PURLError p) (PDo p) (NetboxURL (Netbox cfg)) (NetboxToken (Netbox cfg))"

definition wiring :: "'w platform \<Rightarrow> Config \<Rightarrow> 'w deps" where
  "wiring p cfg = live_deps (PExec p) (frrMgr cfg) (PNft p) (client_fetch (PCancelled p) (nbClient p cfg))
     (\<lambda>_. PReadBackup p)"

section \<open>The program up to its loop\<close>

text \<open>The entry of \<open>Run\<close>: \<open>time.NewTicker\<close> panics unless the interval is positive.\<close>

definition enter_Run :: "duration \<Rightarrow> Reconciler \<Rightarrow> Reconciler option" where
  "enter_Run interval R =
     (let R1 = R\<lparr>intervalNs := interval\<rparr> in if interval \<le> 0 then None else Some R1)"

datatype 'w outcome =
  Exited int
| Panicked "Reconciler \<times> 'w"
| Running Config "Reconciler \<times> 'w"

definition network_reconciler ::
  "'w platform \<Rightarrow> bool \<Rightarrow> string \<Rightarrow> (nat \<Rightarrow> Reconciler \<times> 'w \<Rightarrow> Reconciler \<times> 'w) \<Rightarrow> 'w \<Rightarrow> 'w outcome" where
  "network_reconciler p printVersion cfgPath early w =
     (if printVersion then Exited 0
      else case Load (PViper p) (PReadFile p) cfgPath of
        Inl err \<Rightarrow> Exited 1
      | Inr cfg \<Rightarrow>
          (case ParseDuration (ReconcileInterval cfg) of
             None \<Rightarrow> Exited 1
           | Some interval \<Rightarrow>
               (case start (wiring p cfg) (PExec p) (PConn p) (PDial p) (PGetenv p) (PBackupDir p) (PReadName p)
                   early cfg w of
                  Inl err \<Rightarrow> Exited 1
                | Inr (R, w1) \<Rightarrow>
                    (case enter_Run interval R of
                       None \<Rightarrow> Panicked (R\<lparr>intervalNs := interval\<rparr>, w1)
                     | Some R1 \<Rightarrow> Running cfg (R1, w1)))))"

text \<open>What the platform has to be for the statements below: its commands behave as documented
  for the configured interface, and connecting, subscribing, publishing and \<open>vtysh\<close> change
  neither addresses nor the table.\<close>

definition unmoved :: "'w platform \<Rightarrow> ('w \<Rightarrow> 'x) \<Rightarrow> bool" where
  "unmoved p view \<longleftrightarrow>
     (\<forall>url w. view (snd (PDial p url w)) = view w) \<and>
     (\<forall>subj w. view (snd (ConnSubscribe (PConn p) subj w)) = view w) \<and>
     (\<forall>subj w. view (snd (ConnPublish (PConn p) subj w)) = view w) \<and>
     (\<forall>w. view (snd (ConnFlush (PConn p) w)) = view w) \<and>
     (\<forall>w. view (snd (PExec p [''vtysh'', ''-c'', ''show running-config''] w)) = view w)"

definition platform_ok ::
  "'w platform \<Rightarrow> Config \<Rightarrow> ('w \<Rightarrow> Addr set) \<Rightarrow> ('w \<Rightarrow> string option) \<Rightarrow> bool" where
  "platform_ok p cfg addrs table \<longleftrightarrow>
     live_host (PExec p) (frrMgr cfg) (PNft p) (client_fetch (PCancelled p) (nbClient p cfg)) addrs table \<and>
     unmoved p addrs \<and> unmoved p table"

text \<open>NetBox lists, and the backups hold, mappings of the addresses \<open>E\<close>.\<close>

definition inputs_ok :: "Addr set \<Rightarrow> 'w platform \<Rightarrow> Config \<Rightarrow> bool" where
  "inputs_ok E p cfg \<longleftrightarrow>
     (\<forall>u ms. fst (client_fetch (PCancelled p) (nbClient p cfg) u) = Inr ms \<longrightarrow> list_all (owned E) ms) \<and>
     (\<forall>v data. PReadBackup p v = ReadOk data \<longrightarrow> file_ok E data) \<and>
     (\<forall>name data. PReadName p name = Some data \<longrightarrow> file_ok E data)"

section \<open>The start does not change the host\<close>

lemma unmovedD:
  assumes "unmoved p view"
  shows "PDial p url w = (res, w') \<Longrightarrow> view w' = view w"
    and "ConnSubscribe (PConn p) subj w = (res, w') \<Longrightarrow> view w' = view w"
    and "ConnPublish (PConn p) subj w = (res, w') \<Longrightarrow> view w' = view w"
    and "ConnFlush (PConn p) w = (res, w') \<Longrightarrow> view w' = view w"
    and "PExec p [''vtysh'', ''-c'', ''show running-config''] w = (out, w') \<Longrightarrow> view w' = view w"
  using assms unfolding unmoved_def by (metis snd_conv)+

lemma subscribe_all_unmoved:
  assumes "unmoved p view"
  shows "subscribe_all (PConn p) subjs w = (res, w') \<Longrightarrow> view w' = view w"
proof (induction subjs arbitrary: w)
  case (Cons subj subjs)
  then show ?case using unmovedD(2) [OF assms] by (fastforce split: prod.splits option.splits)
qed simp

lemma publish_all_unmoved:
  assumes "unmoved p view"
  shows "publish_all (PConn p) subjs w = (res, w') \<Longrightarrow> view w' = view w"
proof (induction subjs arbitrary: w)
  case (Cons subj subjs)
  then show ?case using unmovedD(3) [OF assms] by (fastforce split: prod.splits option.splits)
qed simp

lemma start_unmoved:
  assumes "unmoved p view"
  shows "view (snd (Connect (PDial p) getenv servers cluster nod w)) = view w"
    and "view (snd (Subscribe (PConn p) getenv sub w)) = view w"
    and "view (snd (RequestSnapshot (PConn p) sub w)) = view w"
    and "view (snd (checkFRRRedistribution (PExec p) w)) = view w"
proof -
  note D = unmovedD [OF assms]
  show "view (snd (Connect (PDial p) getenv servers cluster nod w)) = view w"
    using D(1) by (auto simp: Connect_def split: prod.split option.split)
  show "view (snd (Subscribe (PConn p) getenv sub w)) = view w"
    using D(2,4) subscribe_all_unmoved [OF assms] by (auto simp: Subscribe_def split: prod.split option.split)
  show "view (snd (RequestSnapshot (PConn p) sub w)) = view w"
    using D(4) publish_all_unmoved [OF assms] by (auto simp: RequestSnapshot_def split: prod.split option.split)
  show "view (snd (checkFRRRedistribution (PExec p) w)) = view w"
    using D(5) by (auto simp: checkFRRRedistribution_def CheckRedistribution_def split: prod.split sum.split if_splits)
qed

lemma running_started:
  assumes "network_reconciler p printVersion path early w = Running cfg (R0, w0)"
  shows "\<exists>R interval. ParseDuration (ReconcileInterval cfg) = Some interval \<and> 0 < interval \<and>
    R0 = R\<lparr>intervalNs := interval\<rparr> \<and>
    start (wiring p cfg) (PExec p) (PConn p) (PDial p) (PGetenv p) (PBackupDir p) (PReadName p) early cfg w = Inr (R, w0)"
  using assms
  by (auto simp: network_reconciler_def enter_Run_def Let_def split: if_splits sum.splits option.splits prod.splits)

lemma daemon_inv_interval:
  "daemon_inv E rd addrs table (R\<lparr>intervalNs := i\<rparr>) w = daemon_inv E rd addrs table R w"
  by (simp add: daemon_inv_def cache_inv_def data_ok_def cachedMappings_def host_inv_def adv_inv_def nft_inv_def)

lemma running_sound:
  assumes "platform_ok p cfg addrs table" and "inputs_ok E p cfg"
    and "\<forall>i. by_handlers E (wiring p cfg) (early i)"
    and "network_reconciler p printVersion path early w = Running cfg (R0, w0)"
    and "list_all (tlabel_ok E) ls" and "tsteps (wiring p cfg) ls (quiet R0 w0) \<sigma>"
  shows "threads_ok (TFallback \<notin> set ls) E (PReadBackup p) addrs table \<sigma> \<and> touches E addrs table w (t_world \<sigma>)"
proof -
  obtain R i where R: "R0 = R\<lparr>intervalNs := i\<rparr>"
    and st: "start (wiring p cfg) (PExec p) (PConn p) (PDial p) (PGetenv p) (PBackupDir p) (PReadName p) early cfg w = Inr (R, w0)"
    using running_started [OF assms(4)] by blast
  have host: "live_host (PExec p) (frrMgr cfg) (PNft p) (client_fetch (PCancelled p) (nbClient p cfg)) addrs table"
    and still: "unmoved p addrs" "unmoved p table"
    using assms(1) by (simp_all add: platform_ok_def)
  have ins: "\<forall>u ms. fst (client_fetch (PCancelled p) (nbClient p cfg) u) = Inr ms \<longrightarrow> list_all (owned E) ms"
    "\<forall>v data. PReadBackup p v = ReadOk data \<longrightarrow> file_ok E data"
    "\<forall>name data. PReadName p name = Some data \<longrightarrow> file_ok E data"
    using assms(2) by (simp_all add: inputs_ok_def)
  note S = start_sound [OF host ins assms(3) [unfolded wiring_def] st [unfolded wiring_def]]
  then have w0: "touches E addrs table w w0"
    by (auto simp: touches_def start_unmoved [OF still(1)] start_unmoved [OF still(2)])
  have "daemon_inv E (PReadBackup p) addrs table R0 w0" using S by (simp add: R daemon_inv_interval)
  note I = threads_sound [OF host ins(1) this assms(5,6) [unfolded wiring_def]]
  show ?thesis by (rule conjI [OF conjunct1 [OF I] touches_trans [OF w0 conjunct2 [OF I]]])
qed

section \<open>Properties\<close>



text \<open>
  C37: The interval means what it says. If the configuration loads, NATS can be reached, and
  \<open>reconcile_interval\<close> is a sequence of whole numbers with units whose sum is below $2^{63}$
  nanoseconds, then the loop runs with that sum as its interval; unless it is zero: then the
  process, subscribed and primed, panics before its loop, and nothing it announced is
  withdrawn.
\<close>

theorem interval_means_what_it_says:
  assumes "Load (PViper p) (PReadFile p) path = Inr cfg"
    and "start (wiring p cfg) (PExec p) (PConn p) (PDial p) (PGetenv p) (PBackupDir p) (PReadName p) early cfg w = Inr (R, w1)"
    and "ReconcileInterval cfg = spell ps" and "units_ok ps" and "ps \<noteq> []" and "worth ps < 2 ^ 63"
  shows "if 0 < worth ps
    then \<exists>R0. network_reconciler p False path early w = Running cfg (R0, w1) \<and> store R0 = store R \<and>
      reconcileIntervalOrDefault R0 = worth ps
    else \<exists>R0. network_reconciler p False path early w = Panicked (R0, w1) \<and> advertisedIPs R0 = advertisedIPs R"
proof -
  have "ParseDuration (ReconcileInterval cfg) = Some (worth ps)"
    using ParseDuration_whole [OF assms(4,5,6)] by (simp add: assms(3))
  then show ?thesis
    by (simp add: network_reconciler_def assms(1,2) enter_Run_def reconcileIntervalOrDefault_def)
qed

section \<open>A process on the simulated host\<close>

text \<open>NetBox is down, the backup directory empty, the interface holds two addresses.\<close>

definition node_exec :: "sim exec" where
  "node_exec args w =
     (if hd args = ''vtysh'' then ((''router bgp 65000'', False), w) else sim_exec args w)"

definition sim_platform :: "sim platform" where
  "sim_platform = \<lparr>PViper = test_viper, PReadFile = test_files, PGetenv = \<lambda>_. [],
     PDial = \<lambda>_ w. (None, w), PConn = quiet_conn, PExec = node_exec, PNft = sim_nft, PURLError = \<lambda>_. None,
     PDo = \<lambda>_ w. (Inl (Errorf ''connection refused''), w), PCancelled = \<lambda>w. (Errorf ''context canceled'', w),
     PReadBackup = sim_rd, PBackupDir = DirOk [], PReadName = \<lambda>_. None\<rparr>"

lemma sim_platform_simps:
  "PViper sim_platform = test_viper" "PReadFile sim_platform = test_files"
  "PGetenv sim_platform = (\<lambda>_. [])" "PDial sim_platform = (\<lambda>_ w. (None, w))" "PConn sim_platform = quiet_conn"
  "PExec sim_platform = node_exec" "PNft sim_platform = sim_nft" "PReadBackup sim_platform = sim_rd"
  "PBackupDir sim_platform = DirOk []" "PReadName sim_platform = (\<lambda>_. None)"
  by (simp_all add: sim_platform_def)

lemma sim_client_down:
  "\<exists>err. client_fetch (PCancelled sim_platform) (nbClient sim_platform cfg) w = (Inl err, w)"
  by (auto simp: client_fetch_def fetch_mappings_def read_pages.simps first_url_def nbClient_def NewClient_def
      get_http_def sim_platform_def)

definition sim_config :: Config where
  "sim_config = (case Load test_viper test_files ''config.yaml'' of Inr cfg \<Rightarrow> cfg | Inl err \<Rightarrow> test_config)"

lemma sim_config:
  "Load test_viper test_files ''config.yaml'' = Inr sim_config"
  "frrMgr sim_config = sim_frr" "ReconcileInterval sim_config = spell [(60, ''s'')]" "FRREnabled (FRR sim_config)"
proof -
  obtain m where m: "Load test_viper test_files ''config.yaml'' = Inr (with_members m test_config)" using test_load by blast
  then have c: "sim_config = with_members m test_config" by (simp add: sim_config_def)
  show "Load test_viper test_files ''config.yaml'' = Inr sim_config" using m c by simp
  show "frrMgr sim_config = sim_frr" "FRREnabled (FRR sim_config)"
    by (simp_all add: c frrMgr_def New_Frr_def with_members_def Let_def test_config_def)
  have "spell [(60, ''s'')] = ''60s''" by code_simp
  then show "ReconcileInterval sim_config = spell [(60, ''s'')]" by (simp add: c with_members_def Let_def test_config_def)
qed

lemma node_host: "live_host node_exec sim_frr sim_nft (client_fetch (PCancelled sim_platform) (nbClient sim_platform cfg))
    sim_addrs sim_table"
proof -
  have "snd (client_fetch (PCancelled sim_platform) (nbClient sim_platform cfg) w) = w" for w
    using sim_client_down [of cfg w] by force
  then show ?thesis
    using sim_host
    by (simp add: live_host_def separate_def frr_host_def ip_tool_def ip_add_ok_def ip_del_ok_def ip_show_ok_def node_exec_def)
qed

lemma sim_platform_ok: "platform_ok sim_platform sim_config sim_addrs sim_table"
  using node_host by (simp add: platform_ok_def unmoved_def sim_config(2) sim_platform_simps) (simp add: node_exec_def)

lemma sim_inputs_ok: "inputs_ok E sim_platform sim_config"
proof -
  have "fst (client_fetch (PCancelled sim_platform) (nbClient sim_platform sim_config) u) \<noteq> Inr ms" for u ms
    using sim_client_down [of sim_config u] by auto
  then show ?thesis by (simp add: inputs_ok_def sim_platform_simps)
qed

lemma by_no_handler: "by_handlers E d (\<lambda>s. s)"
  unfolding by_handlers_def by (intro allI exI [of _ "[]"]) (simp add: dsteps.none)

lemma quiet_publish: "publish_all quiet_conn ss w = (None, w)"
  by (induction ss) simp_all

definition sim_start :: Reconciler where
  "sim_start = (newReconciler (Node sim_config) New_Store)\<lparr>backup := newBackupStore\<lparr>dirScanned := True, allScans := 1\<rparr>\<rparr>"

lemma sim_starts:
  "start (wiring sim_platform sim_config) (PExec sim_platform) (PConn sim_platform) (PDial sim_platform) (PGetenv sim_platform)
     (PBackupDir sim_platform) (PReadName sim_platform) (\<lambda>_ s. s) sim_config w = Inr (sim_start, w)"
proof -
  have tap: "natsTapEnabled (\<lambda>_. []) = False" by code_simp
  obtain err where f: "client_fetch (PCancelled sim_platform) (nbClient sim_platform sim_config) w = (Inl err, w)"
    using sim_client_down by blast
  have w: "snd (checkFRRRedistribution node_exec w) = w"
    by (simp add: checkFRRRedistribution_def CheckRedistribution_def node_exec_def)
  show ?thesis
    by (simp add: start_def cold_start_def Let_def Connect_def Subscribe_def quiet_subscribe tap sim_platform_simps w
        sim_config(4) RequestSnapshot_def quiet_publish Prime_def wiring_def live_deps_def f prime_found_def
        all_backups_def warm_def sim_start_def newBackupStore_def)
qed

lemma sim_running: "\<exists>R0. network_reconciler sim_platform False ''config.yaml'' (\<lambda>_ s. s) w = Running sim_config (R0, w) \<and>
    R0 = sim_start\<lparr>intervalNs := 60 * second\<rparr>"
proof -
  have "worth [(60, ''s'')] = 60 * second" "units_ok [(60, ''s'')]" by code_simp+
  then have "ParseDuration (ReconcileInterval sim_config) = Some (60 * second)"
    using ParseDuration_whole [of "[(60, ''s'')]"] by (simp add: sim_config(3) second_def)
  then show ?thesis
    using sim_starts by (simp add: network_reconciler_def sim_platform_simps sim_config(1) enter_Run_def second_def)
qed

text \<open>A process whose first fetch fails, in the middle of the apply that follows.\<close>

definition sim_fallen :: "sim threads" where
  "sim_fallen = unlocked (Fallback (start_job [] sourceBackupFallback (sim_start\<lparr>intervalNs := 60 * second\<rparr>))) []
     (sim_start\<lparr>intervalNs := 60 * second\<rparr>, sim1)"

lemma sim_falls:
  "tsteps (wiring sim_platform sim_config) [TTrigger, TFetch, TFallback] (quiet (sim_start\<lparr>intervalNs := 60 * second\<rparr>) sim1) sim_fallen"
proof -
  let ?d = "wiring sim_platform sim_config" and ?R = "sim_start\<lparr>intervalNs := 60 * second\<rparr>"
  obtain err where f: "FetchNATMappings ?d sim1 = (Inl err, sim1)"
    using sim_client_down [of sim_config sim1] by (auto simp: wiring_def live_deps_def)
  have same: "?R\<lparr>reconcileCh := False\<rparr> = ?R" by (simp add: sim_start_def newReconciler_def)
  let ?\<sigma>1 = "unlocked Selecting [] (TriggerReconcile ?R, sim1)" and ?\<sigma>2 = "unlocked (Fetched (Inl err)) [] (?R, sim1)"
  have 1: "tstep ?d TTrigger (quiet ?R sim1) ?\<sigma>1"
    using tstep.trigger [of ?d "quiet ?R sim1"] by (simp add: unlocked_def)
  have 2: "tstep ?d TFetch ?\<sigma>1 ?\<sigma>2"
    using tstep.fetch [of ?\<sigma>1 ?d "Inl err" sim1] f by (simp add: unlocked_def TriggerReconcile_def same)
  have 3: "tstep ?d TFallback ?\<sigma>2 sim_fallen"
    using tstep.fallback [of ?\<sigma>2 err ?d] by (simp add: unlocked_def sim_fallen_def)
  show ?thesis by (intro tsteps.more [OF 1] tsteps.more [OF 2] tsteps.more [OF 3] tsteps.none)
qed



theorem interval_means_what_it_says_witness:
  "\<exists>R0. network_reconciler sim_platform False ''config.yaml'' (\<lambda>_ s. s) sim1 = Running sim_config (R0, sim1) \<and>
     reconcileIntervalOrDefault R0 = 60 * second"
proof -
  have w: "worth [(60, ''s'')] = 60 * second" "units_ok [(60, ''s'')]" by code_simp+
  have "Load (PViper sim_platform) (PReadFile sim_platform) ''config.yaml'' = Inr sim_config"
    by (simp add: sim_platform_simps sim_config(1))
  from interval_means_what_it_says [OF this sim_starts sim_config(3) w(2)] show ?thesis
    by (auto simp: w(1) second_def)
qed

end
