(* ===== verification/Teardown.thy ===== *)
theory Teardown
  imports System Fallback_Race
begin

text \<open>
  \<open>main\<close> defers \<open>sub.Close\<close>, so the subscriptions outlive the teardown: an event handled
  after it applies the cache once more. The reconciler does not know that the table is gone:
  if the ruleset has not changed, its load is skipped.
\<close>

context host begin

lemma apply_after_teardown:
  assumes "shutdown d writeOk drained (R, w) = ((None, None, None), R1, w1)"
    and "ok w" "adv_inv addrs R w" "rulesetKeyValid R"
    and "applyMappingsTimed d allMappings source (R1\<lparr>store := st\<rparr>, w1) = (err, R2, w2)"
    and "apply_input_ok (ReadBackup d w1) allMappings source (R1\<lparr>store := st\<rparr>)"
    and "rulesetKey (sortMappings (wanted (ReadBackup d w1) allMappings source (R1\<lparr>store := st\<rparr>))) = lastRulesetKey R"
  shows "err = None \<and> table w2 = None"
proof -
  obtain berr b where b: "close_store writeOk drained (backup R) = (berr, b)" by fastforce
  obtain rerr R' w' where r: "reconcileBGP d [] [] (R\<lparr>backup := b\<rparr>, w) = (rerr, R', w')" by (metis prod.exhaust)
  obtain nerr w'' where n: "NftFlush d w' = (nerr, w'')" by fastforce
  have res: "nerr = None" "R1 = R'" "w1 = w''" using assms(1) b r n by (simp_all add: shutdown_def FlushRoutes_def)
  have inv: "adv_inv addrs (R\<lparr>backup := b\<rparr>) w" using assms(3) by (simp add: adv_inv_def)
  have none: "\<forall>a \<in> set []. Is4 a" by simp
  note B = reconcileBGP_spec [OF r assms(2) inv none none]
  then have R': "rulesetKeyValid R'" "lastRulesetKey R' = lastRulesetKey R" "adv_inv addrs R' w'" "ok w'"
    using bgp_frameD [of "R\<lparr>backup := b\<rparr>" R'] assms(4) by auto
  have w1: "ok w1" "addrs w1 = addrs w'" "table w1 = None"
    using nf.flush_rules [OF R'(4) n] flush_addrs [OF R'(4) n] res by simp_all
  have "adv_inv addrs (R1\<lparr>store := st\<rparr>) w1" using R'(3) w1(2) res(2) by (simp add: adv_inv_def)
  from skipped_apply [OF assms(5) w1(1) this assms(6)] show ?thesis
    using R' assms(7) res(2) w1(3) by simp
qed

end

text \<open>
  Whatever the teardown removed, an apply after it that wants the ruleset loaded last reports
  success and leaves the host without a table.
\<close>

lemma late_apply_skips_the_load:
  assumes "live_host exec m h fetch addrs table" and "adv_inv addrs R w" and "rulesetKeyValid R"
    and "shutdown (live_deps exec m h fetch rd) writeOk drained (R, w) = ((None, None, None), R1, w1)"
    and "applyMappingsTimed (live_deps exec m h fetch rd) allMappings source (R1\<lparr>store := st\<rparr>, w1) = (err, R2, w2)"
    and "apply_input_ok (rd w1) allMappings source (R1\<lparr>store := st\<rparr>)"
    and "rulesetKey (sortMappings (wanted (rd w1) allMappings source (R1\<lparr>store := st\<rparr>))) = lastRulesetKey R"
  shows "err = None \<and> table w2 = None"
  using live.apply_after_teardown [OF assms(4,1,2,3,5)] assms(6,7) by simp

text \<open>
  So it goes on the simulated host, for VM 101 whose rule is loaded: the shutdown is clean,
  then a migration of VM 102 to this node is announced. Afterwards the address of VM 101 is on
  the interface again, without its rule, and nothing is left to withdraw it.
\<close>

definition serving101 :: Reconciler where
  "serving101 = rebuildMappingCache [web2] (record_ruleset [web2] (rec101\<lparr>advertisedIPs := [V4 203 0 113 2]\<rparr>))"

definition serving_host :: sim where
  "serving_host = sim1\<lparr>sim_quads := [(203, 0, 113, 2), anycast], sim_table := Some (render [web2])\<rparr>"

definition evt_inbound :: CloudEvent where
  "evt_inbound = evt0\<lparr>CEData := (CEData evt0)\<lparr>EvtVMID := 102, EvtNode := ''pve2'', EvtTargetNode := ''pve1''\<rparr>\<rparr>"

lemma serving101_simps:
  "store serving101 = store101" "advertisedIPs serving101 = [V4 203 0 113 2]" "kernelSynced serving101"
  "rulesetKeyValid serving101" "lastRulesetKey serving101 = rulesetKey [web2]" "backup serving101 = newBackupStore"
  "mappingCacheReady serving101" "node serving101 = ''pve1''"
  by (simp_all add: serving101_def rebuildMappingCache_def record_ruleset_def) (simp add: rec101_def)

lemma serving_torn_down:
  "shutdown (sim_live sim_rd) (\<lambda>_ _. True) True (serving101, serving_host) =
     ((None, None, None), serving101\<lparr>backup := newBackupStore\<lparr>closed := True\<rparr>, advertisedIPs := []\<rparr>,
      serving_host\<lparr>sim_quads := [anycast], sim_table := None\<rparr>)"
proof -
  have c: "close_store (\<lambda>_ _. True) True newBackupStore = (None, newBackupStore\<lparr>closed := True\<rparr>)"
    by (simp add: close_store_def newBackupStore_def flushNow_def flush_def)
  show ?thesis
    by (simp add: shutdown_def c FlushRoutes_def reconcileBGP_def sim_simps serving101_simps serving_host_def sim1_def
        anycast_def Flush_def sim_nft_def Let_def)
qed

lemma late_event_announces_without_rules:
  "\<exists>R1 w1 R2 w2. shutdown (sim_live sim_rd) (\<lambda>_ _. True) True (serving101, serving_host) = ((None, None, None), R1, w1) \<and>
     V4 203 0 113 2 \<notin> sim_addrs w1 \<and> HandleEvent (sim_live sim_rd) 9 [] evt_inbound (R1, w1) = (R2, w2) \<and>
     V4 203 0 113 2 \<in> sim_addrs w2 \<and> sim_table w2 = None"
proof -
  let ?d = "sim_live sim_rd"
  let ?R1 = "serving101\<lparr>backup := newBackupStore\<lparr>closed := True\<rparr>, advertisedIPs := []\<rparr>"
  let ?w1 = "serving_host\<lparr>sim_quads := [anycast], sim_table := None\<rparr>"
  define st where "st = SetStaged 102 ''web'' (time_Unix 1704067200 0) store101"
  let ?R = "?R1\<lparr>store := st\<rparr>" and ?src = "sourceCached ''migration-started''"
  have "placement_of ''pve1'' [] evt_inbound = Inbound"
    using nodes12 by (simp add: placement_of_def evt_inbound_def evt0_def)
  moreover have "event_time 9 evt_inbound = time_Unix 1704067200 0" "EvtVMID (CEData evt_inbound) = 102"
    "EvtName (CEData evt_inbound) = ''web''"
    by (simp_all add: event_time_def evt_inbound_def evt0_def parseEventTime_def evt_time)
  moreover have "cachedMappings ?R1 = [web2]" "mappingCacheReady ?R1"
    by (simp_all add: serving101_simps) (simp add: cachedMappings_def serving101_def rebuildMappingCache_def
      group_mappings_def mappend_def mgetd_def web2_def web_mapping_def)
  then have "cachedMappings ?R = [web2]" "mappingCacheReady ?R" by (simp_all add: cachedMappings_def)
  ultimately have handled: "HandleEvent ?d 9 [] evt_inbound (?R1, ?w1) =
      snd (applyMappingsTimed ?d [web2] ?src (?R, ?w1))"
    by (simp add: HandleEvent_as serving101_simps apply_or_trigger_def applyCachedImmediately_def st_def split_beta)
  obtain err R2 w2 where call: "applyMappingsTimed ?d [web2] ?src (?R, ?w1) = (err, R2, w2)" by (metis prod.exhaust)
  have ids: "active_ids ?R = [101]"
    by (simp add: active_ids_def st_def SetStaged_def store101_def SetActive_def store_set_def New_Store_def GetActive_def)
  then have wanted: "wanted sim_rd [web2] ?src ?R = [web2]"
    by (simp add: wanted_def wanted_vm_def vm_mappings_def web2_def web_mapping_def)
  have wf: "store_wf (store ?R)" by (simp add: st_def store_wf_SetStaged store_wf_store101)
  let ?r = "resolve_all sim_rd [web2] ?src ?R"
  note r = resolve_all_spec [OF wf, where rd = sim_rd and allMappings = "[web2]" and source = ?src, unfolded wanted]
  have bgp: "res_bgp ?r = [V4 203 0 113 2]"
    using r(2,3) singleton_list [of "res_bgp ?r"] by (simp add: web2_def)
  obtain first R3 where prog: "program_host ?d True first [web2] [V4 203 0 113 2] [] (res_applied ?r) (R3, ?w1) = (err, R2, w2)"
    and "advertisedIPs R3 = []" "kernelSynced R3"
    by (rule apply_decompose [OF call]) (auto simp: r(1) bgp sortMappings_def managed_of_def serving101_simps)
  then have "V4 203 0 113 2 \<in> sim_addrs w2 \<and> sim_table w2 = None"
    by (auto simp: program_host_def apply_nft_def reconcileBGP_def sim_simps serving_host_def sim1_def anycast_def
        sim_addrs_def split: if_splits)
  moreover have "V4 203 0 113 2 \<notin> sim_addrs ?w1" by (simp add: sim_addrs_def anycast_def)
  moreover have "HandleEvent ?d 9 [] evt_inbound (?R1, ?w1) = (R2, w2)" using handled call by simp
  ultimately show ?thesis using serving_torn_down by blast
qed

end
