(* ===== verification/Spec2Isabelle.thy ===== *)
theory Spec2Isabelle
  imports Prelude State_Store Apply_Mappings Retention Daemon Stepped_Apply Interleaving Webhook
    Netbox_Client Netbox_Webhook Nats_Subscriber Configuration Main_Program System Fallback_Race
    Program Teardown
begin

text \<open>
  The network-reconciler daemon, a Go program that runs on every node of a Proxmox cluster. It
  learns from cluster events on NATS which VMs are active on its node, and from NetBox, by
  fetching and by webhooks, which external addresses are translated to which VM. For the VMs
  that are active it keeps an nftables table with the translations and puts the external
  addresses on the loopback interface, from where the routing daemon announces them.

  \<^bold>\<open>Parts and theories.\<close> The sources are below \<open>src/\<close>. Records, datatypes and functions carry
  the names of the code, with a suffix or a prefix where a name is taken; a handler is one
  function from the state, and the world the calls act on, to both and its result.

  \<^item> \<open>Prelude\<close>: errors, times and maps of Go, lemma collections, facts on association lists.
  \<^item> \<open>Go_Strings\<close>, \<open>Go_Time\<close>, \<open>Go_Duration\<close>, \<open>Go_Json\<close>, \<open>Go_Float\<close>, \<open>Net_IP\<close>: the parts of
    the standard library the program computes with: \<open>strings\<close> and \<open>strconv\<close>, the RFC 3339 layout
    and the durations of \<open>time\<close>, \<open>encoding/json\<close> (syntax, printing, decoding into structs),
    \<open>float64\<close> as an \<open>any\<close> holds it, \<open>net/netip\<close>. Bytes are characters.
  \<^item> \<open>State_Store\<close>: \<open>internal/state/store.go\<close>, the placement of VMs. The invariant is
    \<open>store_wf\<close>; stale events and snapshots, staged VMs and their expiry.
  \<^item> \<open>Nat_Mapping\<close>, \<open>Backup\<close>: \<open>NATMapping\<close> and \<open>internal/reconciler/backup.go\<close>, with the background
    flusher as a step relation. The locale \<open>mapping_store\<close> states what its clients rely on.
  \<^item> \<open>Nftables\<close>, \<open>Frr\<close>: \<open>internal/nftables/manager.go\<close> and \<open>internal/frr/manager.go\<close>. The locales
    \<open>ruleset_manager\<close> and \<open>loopback\<close> state their contracts, which the models of the managers
    are shown to meet on a host whose commands behave as documented.
  \<^item> \<open>Host\<close>: the interfaces of the reconciler (the record \<open>deps\<close>) and the locale \<open>host\<close> that
    joins the two contracts; \<open>live_deps\<close> is the wiring of \<open>main\<close>, the interpretation \<open>live\<close>
    its proof. The simulated host of the concrete runs is here, too.
  \<^item> \<open>Reconciler_State\<close>, \<open>Bgp\<close>, \<open>Mapping_Cache\<close>, \<open>Apply_Mappings\<close>, \<open>Retention\<close>, \<open>Events\<close>,
    \<open>Daemon\<close>: \<open>internal/reconciler/reconciler.go\<close>. The struct \<open>Reconciler\<close>; convergence of the
    addresses; the cache and the deltas that edit it; an apply, from the mappings to the
    host; what applies do over time; the event handler; the loop \<open>Run\<close> as the step relation
    \<open>dstep\<close>, in which events, deltas, triggers, timers, ticks and the two halves of a full
    reconcile take turns, and the shutdown.
  \<^item> \<open>Stepped_Apply\<close>, \<open>Interleaving\<close>: the same code cut into single steps. An apply is a sequence
    of stages (\<open>job_step\<close>), and the step relation \<open>tstep\<close> has the loop, any number of handlers,
    and the mutex \<open>reconcileMu\<close> (\<open>t_lock\<close>), with the fallback of a failed fetch outside it.
  \<^item> \<open>Netbox_Client\<close>, \<open>Netbox_Webhook\<close>: \<open>internal/netbox\<close>. Fetching with pages and batches, and
    registering the webhook and its event rule.
  \<^item> \<open>Webhook\<close>: \<open>internal/webhook/server.go\<close>, the route and the handler for notifications. The locale
    \<open>delta_sink\<close> is the contract of its two callbacks, which the reconciler meets.
  \<^item> \<open>Nats_Subscriber\<close>, \<open>Configuration\<close>: \<open>internal/natsconn\<close>, \<open>internal/config\<close>.
  \<^item> \<open>Main_Program\<close>: \<open>cmd/network-reconciler/main.go\<close>, the start with the handlers that already run
    beside it, the checks, the registration loop. \<open>Program\<close>: \<open>main\<close> as a whole, from the flags
    and the configuration (record \<open>platform\<close> for what the process finds) to the loop.
  \<^item> \<open>System\<close>: what the components give together; \<open>Fallback_Race\<close>: an apply that overtakes the
    fallback of a failed fetch; \<open>Teardown\<close>: an event that is handled after the shutdown.

  \<^bold>\<open>What is shown.\<close> First, about the whole: in every state the running program
  reaches, whatever fails and however the single steps of its threads interleave, its data is well
  formed and what it counts as announced is announced (\<open>threads_ok\<close>, by rule
  induction over \<open>tsteps\<close>); the fingerprint is that of the loaded table as long as no
  fetch has failed, and \<open>departed_vm_keeps_its_rule\<close> shows a run where one has. Run
  without interference the single steps are the apply, and every serial run
  (\<open>dsteps\<close>) is one of the interleavings. What NetBox lists for the active VMs is
  what a successful reconcile leaves in the kernel; a notified deletion reaches the kernel;
  addresses that nobody named are never touched; a migration moves a VM from one node to the
  other; a process that is shut down leaves nothing behind. Then, about the parts: what one apply
  does on success and on each failure, in which order it calls the host, what it retains when
  NetBox fails; that ruleset and fingerprint are canonical; the convergence of the addresses; that
  the backups refine a map, survive a broken disk and reach it; the round trip through JSON; that
  a fetch is exact, when it ends and how many requests it takes; that only signed notifications
  act and none is lost; that registration settles and does not give up; that no event is delivered
  twice. Lemmas outside the list of properties show where the code falls short of what it intends,
  among them \<open>contended_delete_is_lost\<close>, \<open>empty_file_not_deleted\<close>,
  \<open>empty_fetch_then_webhook\<close>, \<open>stale_SetStaged_moves_StagedAt\<close>,
  \<open>empty_page_panics\<close>, \<open>quoted_name_rejected\<close>,
  \<open>unlocked_fallback_leaves_stale_rules\<close> and
  \<open>late_event_announces_without_rules\<close>.

  \<^bold>\<open>Bounds.\<close> VMIDs and counters are integers; where Go converts text to
  \<open>int\<close> the model checks the range of 64 bits, and theorems that depend on it say so
  (\<open>in_int64\<close>). Times are nanoseconds. The JSON parser has fuel: 
  \<open>2 * length s + 2\<close> is enough, more changes nothing (\<open>parse_fuel_enough\<close>). The paging loop
  \<open>read_pages\<close> is a \<open>partial_function\<close> whose value is
  \<open>None\<close> if the links of NetBox never end; \<open>fetch_ends_with_the_links\<close>
  says when. An apply takes a step for each active VM and at most eight more
  (\<open>run_job\<close>). Everything else is total. A Go map is an association list with
  distinct keys, and statements hold for every order of it.

  \<^bold>\<open>Parameters.\<close> The commands \<open>ip\<close>, \<open>vtysh\<close> and \<open>nft\<close>, the file system, HTTP round trips, the
  NATS connection, viper and HMAC-SHA512 are arguments of the definitions that use them.
  Hypotheses about them (\<open>frr_host\<close>, \<open>nft_tool\<close>, \<open>separate\<close>, \<open>netbox_reads\<close>, \<open>netbox_writes\<close>,
  \<open>matches_as_documented\<close>) state their documented behaviour, and the concrete runs meet them.

  \<^bold>\<open>Not modelled.\<close> The logger and all log records, the measured durations and the latency
  watchdog, since nothing depends on them; signals, which only end the loop; the options of
  the NATS connection and its draining, listening and shutting down of the HTTP server, which
  are calls of libraries; build files, packaging and scripts. Deadlines of contexts appear as
  errors of the calls that have them. The mutexes of the stores and \<open>advMu\<close> are modelled by the
  granularity of the steps: what they guard is one step, as are the edits of the cache under
  \<open>reconcileMu\<close>. The accesses of the fallback to fields that another thread may write are
  data races, whose outcome Go leaves open; the model takes each access to be atomic.
  Handlers of one subscription run one after the other in Go, in the model in any order.
\<close>

end
